(* ===== verification/S6_Prelude.thy ===== *)
theory S6_Prelude
  imports Main "HOL-Library.AList" "HOL-Library.List_Lexorder" "HOL-Library.Word"
begin

text \<open>
  The vocabulary shared by every component theory: Python's exceptions as values, byte
  strings, text as lists of Unicode code points, big-endian integer fields
  (\<^verbatim>\<open>struct.pack("!...")\<close>), UTF-8, decimal numerals and insertion-ordered dictionaries.
\<close>

named_theorems s6_defs \<open>definitions a component unfolds in its own proofs\<close>
named_theorems s6_len \<open>lengths of encoded fields\<close>

section \<open>Exceptions as values\<close>

text \<open>
  One constructor per exception class the modelled code raises; the message is kept where
  the code gives a fixed one. \<open>ProtocolError\<close>, \<open>JSONDecodeError\<close> and \<open>UnicodeError\<close> are
  subclasses of \<open>ValueError\<close>; \<^verbatim>\<open>except ValueError\<close> is \<open>is_value_error\<close>.
\<close>

datatype exn =
    ValueError string
  | TypeError string
  | KeyError string
  | IndexError string
  | PermissionError string
  | OverflowError string
  | OSError string
  | TimeoutError string
  | UnicodeError string
  | JSONDecodeError
  | StructError
  | ProtocolError string
  | AdapterBackpressure string
  | AdapterClosed string
  | AdapterRetryLimit nat nat
  | InvalidSignature
  | ConnectionError string string bool
  | EOFError string
  | RuntimeError string
  | FileExistsError string
  | FileNotFoundError string
  | BlockingIOError string
  | PluginError string
  | SlotError string

fun is_value_error :: "exn \<Rightarrow> bool" where
  "is_value_error (ValueError _) = True"
| "is_value_error (UnicodeError _) = True"
| "is_value_error JSONDecodeError = True"
| "is_value_error (ProtocolError _) = True"
| "is_value_error _ = False"

type_synonym 'a res = "exn + 'a"

fun ebind :: "'e + 'a \<Rightarrow> ('a \<Rightarrow> 'e + 'b) \<Rightarrow> 'e + 'b" where
  "ebind (Inl e) f = Inl e"
| "ebind (Inr x) f = f x"

lemma ebind_Inr [simp]: "ebind m f = Inr y \<longleftrightarrow> (\<exists>x. m = Inr x \<and> f x = Inr y)"
  by (cases m) auto

lemma ebind_Inl: "ebind m f = Inl e \<longleftrightarrow> m = Inl e \<or> (\<exists>x. m = Inr x \<and> f x = Inl e)"
  by (cases m) auto

lemma ebind_assoc: "ebind (ebind m f) g = ebind m (\<lambda>x. ebind (f x) g)"
  by (cases m) auto

lemma ebind_cong [fundef_cong]:
  "m = m' \<Longrightarrow> (\<And>x. m' = Inr x \<Longrightarrow> f x = g x) \<Longrightarrow> ebind m f = ebind m' g"
  by (cases m') auto

text \<open>\<^verbatim>\<open>if cond: raise e\<close> as a statement, and a loop of checks over a list.\<close>

definition raise_if :: "bool \<Rightarrow> 'e \<Rightarrow> 'e + unit" where
  "raise_if b e = (if b then Inl e else Inr ())"

lemma raise_if_Inr [simp]: "raise_if b e = Inr u \<longleftrightarrow> \<not> b"
  by (simp add: raise_if_def)

lemma raise_if_Inl [simp]: "raise_if b e = Inl e' \<longleftrightarrow> b \<and> e' = e"
  by (auto simp add: raise_if_def)

lemma raise_if_eval [simp]:
  "raise_if True e = Inl e" "raise_if False e = Inr ()"
  by (simp_all add: raise_if_def)

fun each :: "('a \<Rightarrow> 'e + unit) \<Rightarrow> 'a list \<Rightarrow> 'e + unit" where
  "each f [] = Inr ()"
| "each f (x # xs) = ebind (f x) (\<lambda>_. each f xs)"

lemma each_Inr [simp]: "each f xs = Inr u \<longleftrightarrow> (\<forall>x \<in> set xs. f x = Inr ())"
  by (induction xs) auto

lemma each_cong [fundef_cong]:
  "xs = ys \<Longrightarrow> (\<And>x. x \<in> set ys \<Longrightarrow> f x = g x) \<Longrightarrow> each f xs = each g ys"
  by (induction ys arbitrary: xs) auto

text \<open>A loop that threads an accumulator and stops at the first exception.\<close>

fun efold :: "('a \<Rightarrow> 's \<Rightarrow> 'e + 's) \<Rightarrow> 'a list \<Rightarrow> 's \<Rightarrow> 'e + 's" where
  "efold f [] s = Inr s"
| "efold f (x # xs) s = ebind (f x s) (efold f xs)"

lemma efold_append: "efold f (xs @ ys) s = ebind (efold f xs s) (efold f ys)"
proof (induction xs arbitrary: s)
  case Nil
  then show ?case by simp
next
  case (Cons x xs)
  then show ?case by (cases "f x s") simp_all
qed

lemma efold_invariant:
  assumes "efold f xs s = Inr t" and "I s"
    and "\<And>x s t. x \<in> set xs \<Longrightarrow> I s \<Longrightarrow> f x s = Inr t \<Longrightarrow> I t"
  shows "I t"
  using assms by (induction xs arbitrary: s) auto

section \<open>Bytes and big-endian fields\<close>

type_synonym byte = "8 word"
type_synonym bytes = "8 word list"

fun be_encode :: "nat \<Rightarrow> nat \<Rightarrow> bytes" where
  "be_encode 0 n = []"
| "be_encode (Suc k) n = be_encode k (n div 256) @ [word_of_nat (n mod 256)]"

definition be_decode :: "bytes \<Rightarrow> nat" where
  "be_decode bs = foldl (\<lambda>acc b. acc * 256 + unat b) 0 bs"

lemma be_decode_Nil [simp]: "be_decode [] = 0"
  by (simp add: be_decode_def)

lemma be_decode_snoc [simp]: "be_decode (bs @ [b]) = be_decode bs * 256 + unat b"
  by (simp add: be_decode_def)

lemma length_be_encode [simp, s6_len]: "length (be_encode k n) = k"
  by (induction k arbitrary: n) auto

lemma unat_word_of_nat_mod [simp]: "unat (word_of_nat (n mod 256) :: byte) = n mod 256"
  by (simp add: unat_of_nat)

lemma be_decode_encode: "n < 256 ^ k \<Longrightarrow> be_decode (be_encode k n) = n"
proof (induction k arbitrary: n)
  case 0
  then show ?case by simp
next
  case (Suc k)
  then have "n div 256 < 256 ^ k"
    by (simp add: less_mult_imp_div_less mult.commute)
  with Suc.IH have "be_decode (be_encode k (n div 256)) = n div 256" by simp
  then show ?case by simp
qed

lemma unat_byte_less [simp]: "unat (b :: byte) < 256"
  using unsigned_less [of b, where ?'a = nat] by simp

lemma be_decode_less: "be_decode bs < 256 ^ length bs"
proof (induction bs rule: rev_induct)
  case Nil
  then show ?case by simp
next
  case (snoc b bs)
  have "unat b \<le> 255" using unat_byte_less [of b] by linarith
  moreover have "be_decode bs + 1 \<le> 256 ^ length bs" using snoc by simp
  ultimately have "be_decode bs * 256 + unat b < 256 ^ length bs * 256" by linarith
  then show ?case by simp
qed

lemma be_encode_decode: "length bs = k \<Longrightarrow> be_encode k (be_decode bs) = bs"
proof (induction bs arbitrary: k rule: rev_induct)
  case Nil
  then show ?case by simp
next
  case (snoc b bs)
  then obtain j where k: "k = Suc j" and j: "length bs = j" by (cases k) auto
  have q: "(be_decode bs * 256 + unat b) div 256 = be_decode bs"
    by simp
  have r: "(be_decode bs * 256 + unat b) mod 256 = unat b"
    by simp
  show ?case
    using snoc.IH [OF j] by (simp add: k q r)
qed

lemma be_encode_inject:
  "n < 256 ^ k \<Longrightarrow> m < 256 ^ k \<Longrightarrow> be_encode k n = be_encode k m \<longleftrightarrow> n = m"
  by (metis be_decode_encode)

section \<open>Text as code points\<close>

text \<open>
  A Python \<^verbatim>\<open>str\<close> is a list of code points, so that \<^verbatim>\<open>len\<close> counts what Python counts.
  \<open>asc\<close> reads an ASCII literal of the source; it is never unfolded where two literals are
  compared, because it is injective.
\<close>

type_synonym ustr = "nat list"

definition asc :: "string \<Rightarrow> ustr" where
  "asc s = map of_char s"

lemma asc_inject [simp]: "asc s = asc t \<longleftrightarrow> s = t"
proof -
  have "inj (map (of_char :: char \<Rightarrow> nat))"
    by (simp add: inj_mapI inj_of_char)
  then show ?thesis unfolding asc_def by (simp add: inj_eq)
qed

lemma length_asc [simp]: "length (asc s) = length s"
  by (simp add: asc_def)

lemma asc_Nil [simp]: "asc [] = []"
  by (simp add: asc_def)

lemma asc_append: "asc (s @ t) = asc s @ asc t"
  by (simp add: asc_def)

lemma asc_eq_Nil [simp]: "asc s = [] \<longleftrightarrow> s = []" "[] = asc s \<longleftrightarrow> s = []"
  by (auto simp: asc_def)

definition is_surrogate :: "nat \<Rightarrow> bool" where
  "is_surrogate c \<longleftrightarrow> 0xD800 \<le> c \<and> c \<le> 0xDFFF"

text \<open>A Unicode scalar value, and text made of them: what UTF-8 can encode.\<close>

definition is_scalar :: "nat \<Rightarrow> bool" where
  "is_scalar c \<longleftrightarrow> c \<le> 0x10FFFF \<and> \<not> is_surrogate c"

definition scalars :: "ustr \<Rightarrow> bool" where
  "scalars s \<longleftrightarrow> list_all is_scalar s"

lemma scalars_simps [simp]:
  "scalars []"
  "scalars (c # s) \<longleftrightarrow> is_scalar c \<and> scalars s"
  "scalars (s @ t) \<longleftrightarrow> scalars s \<and> scalars t"
  by (simp_all add: scalars_def)

abbreviation bt :: "nat \<Rightarrow> byte" where
  "bt n \<equiv> word_of_nat n"

definition utf8_units :: "nat \<Rightarrow> nat list" where
  "utf8_units c =
     (if c < 0x80 then [c]
      else if c < 0x800 then [0xC0 + c div 64, 0x80 + c mod 64]
      else if c < 0x10000 then [0xE0 + c div 4096, 0x80 + c div 64 mod 64, 0x80 + c mod 64]
      else [0xF0 + c div 262144, 0x80 + c div 4096 mod 64, 0x80 + c div 64 mod 64, 0x80 + c mod 64])"

definition utf8_char :: "nat \<Rightarrow> bytes" where
  "utf8_char c = map bt (utf8_units c)"

text \<open>\<^verbatim>\<open>s.encode('utf-8')\<close>: a lone surrogate raises \<^verbatim>\<open>UnicodeEncodeError\<close>.\<close>

definition utf8_encode :: "ustr \<Rightarrow> bytes res" where
  "utf8_encode s =
     (if scalars s then Inr (concat (map utf8_char s))
      else Inl (UnicodeError ''surrogates not allowed''))"

definition is_cont :: "nat \<Rightarrow> bool" where
  "is_cont b \<longleftrightarrow> 0x80 \<le> b \<and> b < 0xC0"

text \<open>
  \<^verbatim>\<open>b.decode('utf-8', 'strict')\<close>: overlong forms, surrogates, values past \<open>0x10FFFF\<close> and
  truncated sequences raise \<^verbatim>\<open>UnicodeDecodeError\<close>.
\<close>

fun utf8_decode_nat :: "nat list \<Rightarrow> ustr option" where
  "utf8_decode_nat [] = Some []"
| "utf8_decode_nat (a # r) =
     (if a < 0x80 then map_option (Cons a) (utf8_decode_nat r)
      else if 0xC2 \<le> a \<and> a < 0xE0 then
        (case r of
           b # r1 \<Rightarrow>
             if is_cont b then map_option (Cons ((a - 0xC0) * 64 + (b - 0x80))) (utf8_decode_nat r1)
             else None
         | _ \<Rightarrow> None)
      else if 0xE0 \<le> a \<and> a < 0xF0 then
        (case r of
           b # c # r2 \<Rightarrow>
             (let x = (a - 0xE0) * 4096 + (b - 0x80) * 64 + (c - 0x80) in
              if is_cont b \<and> is_cont c \<and> 0x800 \<le> x \<and> \<not> is_surrogate x
              then map_option (Cons x) (utf8_decode_nat r2) else None)
         | _ \<Rightarrow> None)
      else if 0xF0 \<le> a \<and> a < 0xF5 then
        (case r of
           b # c # d # r3 \<Rightarrow>
             (let x = (a - 0xF0) * 262144 + (b - 0x80) * 4096 + (c - 0x80) * 64 + (d - 0x80) in
              if is_cont b \<and> is_cont c \<and> is_cont d \<and> 0x10000 \<le> x \<and> x \<le> 0x10FFFF
              then map_option (Cons x) (utf8_decode_nat r3) else None)
         | _ \<Rightarrow> None)
      else None)"

definition utf8_decode :: "bytes \<Rightarrow> ustr res" where
  "utf8_decode bs =
     (case utf8_decode_nat (map unat bs) of
        None \<Rightarrow> Inl (UnicodeError ''invalid utf-8'') | Some s \<Rightarrow> Inr s)"


lemma is_scalar_cases:
  "is_scalar c \<Longrightarrow> c < 0x110000 \<and> (c < 0xD800 \<or> 0xE000 \<le> c)"
  by (auto simp: is_scalar_def is_surrogate_def)

lemma unat_bt [simp]: "n < 256 \<Longrightarrow> unat (bt n) = n"
  by (simp add: unat_of_nat)

lemma map_unat_bt: "list_all (\<lambda>n. n < 256) ns \<Longrightarrow> map unat (map bt ns) = ns"
  by (induction ns) auto

lemma utf8_units_byte: "is_scalar c \<Longrightarrow> list_all (\<lambda>n. n < 256) (utf8_units c)"
proof -
  assume "is_scalar c"
  from is_scalar_cases [OF this] have "c div 262144 < 5" by (simp add: less_mult_imp_div_less)
  moreover have "c < 0x10000 \<Longrightarrow> c div 4096 < 16" "c < 0x800 \<Longrightarrow> c div 64 < 32" by simp_all
  moreover have "x mod 64 < 128" for x :: nat by (rule less_trans [OF mod_less_divisor]) simp_all
  ultimately show ?thesis by (auto simp add: utf8_units_def)
qed

lemma split64:
  fixes c :: nat
  shows "c div 4096 * 4096 + c div 64 mod 64 * 64 + c mod 64 = c"
    and "c div 262144 * 262144 + c div 4096 mod 64 * 4096 + c div 64 mod 64 * 64 + c mod 64 = c"
proof -
  have a: "c div 64 * 64 + c mod 64 = c" by simp
  have b: "c div 4096 * 64 + c div 64 mod 64 = c div 64"
    using div_mult_mod_eq [of "c div 64" 64] by (simp add: div_mult2_eq [symmetric])
  have d: "c div 262144 * 64 + c div 4096 mod 64 = c div 4096"
    using div_mult_mod_eq [of "c div 4096" 64] by (simp add: div_mult2_eq [symmetric])
  show "c div 4096 * 4096 + c div 64 mod 64 * 64 + c mod 64 = c"
    using a b by linarith
  then show "c div 262144 * 262144 + c div 4096 mod 64 * 4096 + c div 64 mod 64 * 64 + c mod 64 = c"
    using d by linarith
qed

lemma utf8_decode_nat_units:
  assumes "is_scalar c"
  shows "utf8_decode_nat (utf8_units c @ r) = map_option (Cons c) (utf8_decode_nat r)"
proof -
  note b = is_scalar_cases [OF assms]
  consider "c < 0x80" | "0x80 \<le> c" "c < 0x800" | "0x800 \<le> c" "c < 0x10000" | "0x10000 \<le> c"
    by linarith
  then show ?thesis
  proof cases
    case 1
    then show ?thesis by (simp add: utf8_units_def)
  next
    case 2
    have "c div 64 * 64 + c mod 64 = c" by simp
    moreover from 2 have "2 \<le> c div 64" "c div 64 < 32" by simp_all
    ultimately show ?thesis using 2 by (simp add: utf8_units_def is_cont_def)
  next
    case 3
    have e: "c div 4096 * 4096 + c div 64 mod 64 * 64 + c mod 64 = c" by (rule split64)
    have s: "\<not> is_surrogate c" using assms by (simp add: is_scalar_def)
    from 3 have "c div 4096 < 16" by simp
    with 3 e s show ?thesis by (simp add: utf8_units_def is_cont_def Let_def)
  next
    case 4
    have e: "c div 262144 * 262144 + c div 4096 mod 64 * 4096 + c div 64 mod 64 * 64 + c mod 64 = c"
      by (rule split64)
    from b have "c div 262144 < 5" by (simp add: less_mult_imp_div_less)
    with 4 e b show ?thesis by (simp add: utf8_units_def is_cont_def Let_def)
  qed
qed

lemma utf8_decode_nat_char:
  "is_scalar c \<Longrightarrow>
     utf8_decode_nat (map unat (utf8_char c) @ r) = map_option (Cons c) (utf8_decode_nat r)"
  unfolding utf8_char_def by (simp only: map_unat_bt utf8_units_byte utf8_decode_nat_units)

lemma utf8_decode_encode:
  assumes "utf8_encode s = Inr bs"
  shows "utf8_decode bs = Inr s"
proof -
  from assms have sc: "scalars s" and bs: "bs = concat (map utf8_char s)"
    by (auto simp: utf8_encode_def split: if_splits)
  from sc have "utf8_decode_nat (map unat (concat (map utf8_char s))) = Some s"
    by (induction s) (simp_all add: utf8_decode_nat_char map_concat del: utf8_decode_nat.simps(2))
  with bs show ?thesis by (simp add: utf8_decode_def)
qed

lemma utf8_encode_inject:
  "utf8_encode s = Inr bs \<Longrightarrow> utf8_encode t = Inr bs \<Longrightarrow> s = t"
  by (metis utf8_decode_encode sum.inject(2))

text \<open>ASCII text is its own encoding, byte for byte.\<close>

definition ascii :: "ustr \<Rightarrow> bool" where
  "ascii s \<longleftrightarrow> list_all (\<lambda>c. c < 128) s"

lemma ascii_simps [simp]:
  "ascii []" "ascii (c # s) \<longleftrightarrow> c < 128 \<and> ascii s" "ascii (s @ t) \<longleftrightarrow> ascii s \<and> ascii t"
  by (simp_all add: ascii_def)

lemma ascii_scalars: "ascii s \<Longrightarrow> scalars s"
  by (induction s) (auto simp: is_scalar_def is_surrogate_def)

lemma utf8_encode_ascii: "ascii s \<Longrightarrow> utf8_encode s = Inr (map bt s)"
proof -
  assume a: "ascii s"
  then have "concat (map utf8_char s) = map bt s"
    by (induction s) (simp_all add: utf8_char_def utf8_units_def)
  with ascii_scalars [OF a] show ?thesis by (simp add: utf8_encode_def)
qed

section \<open>Decimal numerals\<close>

text \<open>\<^verbatim>\<open>str(n)\<close> and \<^verbatim>\<open>int(text)\<close> on decimal digits.\<close>

fun show_nat :: "nat \<Rightarrow> ustr" where
  "show_nat n = (if n < 10 then [48 + n] else show_nat (n div 10) @ [48 + n mod 10])"

declare show_nat.simps [simp del]

definition show_int :: "int \<Rightarrow> ustr" where
  "show_int i = (if i < 0 then 45 # show_nat (nat (- i)) else show_nat (nat i))"

definition is_digit :: "nat \<Rightarrow> bool" where
  "is_digit c \<longleftrightarrow> 48 \<le> c \<and> c \<le> 57"

definition read_nat :: "ustr \<Rightarrow> nat" where
  "read_nat s = foldl (\<lambda>acc c. acc * 10 + (c - 48)) 0 s"

lemma read_nat_snoc: "read_nat (s @ [c]) = read_nat s * 10 + (c - 48)"
  by (simp add: read_nat_def)

lemma read_show_nat [simp]: "read_nat (show_nat n) = n"
proof (induction n rule: show_nat.induct)
  case (1 n)
  show ?case
  proof (cases "n < 10")
    case True
    then show ?thesis by (subst show_nat.simps) (simp add: read_nat_def)
  next
    case False
    with "1.IH" have "read_nat (show_nat (n div 10)) = n div 10" by simp
    with False show ?thesis by (subst show_nat.simps) (simp add: read_nat_snoc)
  qed
qed

lemma show_nat_digits: "list_all is_digit (show_nat n)"
proof (induction n rule: show_nat.induct)
  case (1 n)
  have "is_digit (48 + m mod 10)" "m < 10 \<Longrightarrow> is_digit (48 + m)" for m :: nat
    by (auto simp: is_digit_def)
  with 1 show ?case by (subst show_nat.simps) auto
qed

lemma show_nat_nonempty [simp]: "show_nat n \<noteq> []"
  by (subst show_nat.simps) simp

lemma show_nat_hd: "0 < n \<Longrightarrow> hd (show_nat n) \<noteq> 48"
proof (induction n rule: show_nat.induct)
  case (1 n)
  show ?case
  proof (cases "n < 10")
    case True
    with "1.prems" show ?thesis by (subst show_nat.simps) simp
  next
    case False
    then have "hd (show_nat (n div 10)) \<noteq> 48" using "1.IH" by simp
    with False show ?thesis by (subst show_nat.simps) (simp add: hd_append)
  qed
qed

lemma show_nat_0: "show_nat 0 = [48]"
  by (subst show_nat.simps) simp

lemma ascii_show_nat: "ascii (show_nat n)"
proof -
  have "list_all is_digit s \<Longrightarrow> ascii s" for s
    by (induction s) (auto simp: is_digit_def)
  then show ?thesis using show_nat_digits by blast
qed

section \<open>Insertion-ordered dictionaries\<close>

text \<open>
  A Python dictionary is an association list with distinct keys: \<open>map_of\<close> is \<^verbatim>\<open>d.get\<close>,
  \<open>AList.update\<close> is \<^verbatim>\<open>d[k] = v\<close> (in place when the key is there, at the end when it is
  new) and \<open>AList.delete\<close> is \<^verbatim>\<open>d.pop(k, None)\<close>.
\<close>

abbreviation dset :: "'k \<Rightarrow> 'v \<Rightarrow> ('k \<times> 'v) list \<Rightarrow> ('k \<times> 'v) list" where
  "dset \<equiv> AList.update"

abbreviation ddel :: "'k \<Rightarrow> ('k \<times> 'v) list \<Rightarrow> ('k \<times> 'v) list" where
  "ddel \<equiv> AList.delete"

definition dict_ok :: "('k \<times> 'v) list \<Rightarrow> bool" where
  "dict_ok d \<longleftrightarrow> distinct (map fst d)"

lemma dict_ok_Nil [simp]: "dict_ok []"
  by (simp add: dict_ok_def)

lemma dict_ok_dset [simp]: "dict_ok d \<Longrightarrow> dict_ok (dset k v d)"
  by (simp add: dict_ok_def distinct_update)

lemma dict_ok_ddel [simp]: "dict_ok d \<Longrightarrow> dict_ok (ddel k d)"
  by (simp add: dict_ok_def distinct_delete)

lemma dset_new: "map_of d k = None \<Longrightarrow> dset k v d = d @ [(k, v)]"
  by (induction d) (auto split: if_splits)

lemma length_dset_new [simp]: "map_of d k = None \<Longrightarrow> length (dset k v d) = Suc (length d)"
  by (simp add: dset_new)

lemma length_dset_old [simp]: "map_of d k = Some w \<Longrightarrow> length (dset k v d) = length d"
  by (induction d) (auto split: if_splits)

lemma length_ddel_le: "length (ddel k d) \<le> length d"
  by (simp add: AList.delete_eq)

lemma ddel_absent: "map_of d k = None \<Longrightarrow> ddel k d = d"
  by (induction d) (auto simp: AList.delete_eq split: if_splits)

lemma length_ddel_old: "dict_ok d \<Longrightarrow> map_of d k = Some w \<Longrightarrow> Suc (length (ddel k d)) = length d"
proof (induction d)
  case Nil
  then show ?case by simp
next
  case (Cons p d)
  show ?case
  proof (cases "fst p = k")
    case True
    with Cons.prems have "map_of d k = None"
      by (auto simp: dict_ok_def map_of_eq_None_iff)
    with True show ?thesis by (cases p) (simp add: ddel_absent)
  next
    case False
    with Cons show ?thesis by (cases p) (auto simp: dict_ok_def)
  qed
qed

text \<open>A sum over the entries of a dictionary, under insertion, replacement and removal.\<close>

definition dsum :: "('v \<Rightarrow> 'n :: comm_monoid_add) \<Rightarrow> ('k \<times> 'v) list \<Rightarrow> 'n" where
  "dsum f d = sum_list (map (f \<circ> snd) d)"

lemma dsum_Nil [simp]: "dsum f [] = 0"
  by (simp add: dsum_def)

lemma dsum_Cons [simp]: "dsum f (p # d) = f (snd p) + dsum f d"
  by (simp add: dsum_def)

lemma dsum_append [simp]: "dsum f (d @ e) = dsum f d + dsum f e"
  by (simp add: dsum_def)

lemma dsum_new: "map_of d k = None \<Longrightarrow> dsum f (dset k v d) = dsum f d + f v"
  by (simp add: dset_new dsum_def)

lemma dsum_old: "map_of d k = Some w \<Longrightarrow> dsum f (dset k v d) + f w = dsum f d + f v"
  by (induction d) (auto split: if_splits simp: ac_simps)

lemma dsum_ddel: "dict_ok d \<Longrightarrow> map_of d k = Some w \<Longrightarrow> dsum f (ddel k d) + f w = dsum f d"
proof (induction d)
  case Nil
  then show ?case by simp
next
  case (Cons p d)
  show ?case
  proof (cases "fst p = k")
    case True
    with Cons.prems have "map_of d k = None"
      by (auto simp: dict_ok_def map_of_eq_None_iff)
    with True Cons.prems show ?thesis by (cases p) (simp add: ddel_absent add.commute)
  next
    case False
    with Cons show ?thesis by (cases p) (auto simp: dict_ok_def add.assoc)
  qed
qed

lemma dsum_ge:
  fixes f :: "'v \<Rightarrow> nat"
  shows "map_of d k = Some w \<Longrightarrow> f w \<le> dsum f d"
  by (induction d) (auto split: if_splits)

lemma dsum_nonneg:
  fixes f :: "'v \<Rightarrow> int"
  shows "\<forall>p \<in> set d. 0 \<le> f (snd p) \<Longrightarrow> 0 \<le> dsum f d"
  by (induction d) auto

lemma set_dset: "p \<in> set (dset k v d) \<Longrightarrow> p = (k, v) \<or> p \<in> set d"
  by (induction d) (auto split: if_splits)

lemma set_ddel: "p \<in> set (ddel k d) \<Longrightarrow> p \<in> set d \<and> fst p \<noteq> k"
  by (auto simp: AList.delete_eq)

lemma map_of_ddel: "map_of (ddel k d) j = (if j = k then None else map_of d j)"
  by (simp add: delete_conv')

lemma map_of_dset: "map_of (dset k v d) j = (if j = k then Some v else map_of d j)"
  by (simp add: update_conv')

end
