(* ===== verification/S6_Json.thy ===== *)
theory S6_Json
  imports S6_Prelude
begin

text \<open>
  JSON as the Python standard library reads and writes it: the values the components
  exchange, \<^verbatim>\<open>json.dumps(v, sort_keys=True, separators=(",",":"), ensure_ascii=True)\<close> and
  \<^verbatim>\<open>json.loads\<close> with its hooks. The main result is that a canonical text reads back as the
  value it was written from, so canonical bytes determine the document they sign.
\<close>

section \<open>Values\<close>

text \<open>
  A float is kept as its \<^verbatim>\<open>repr\<close>, which is all the writer uses of it; an object is an
  insertion-ordered dictionary.
\<close>

datatype pyval =
    JNull
  | JBool bool
  | JInt int
  | JFloat ustr
  | JStr ustr
  | JList "pyval list"
  | JObj "(ustr \<times> pyval) list"

definition is_str :: "pyval \<Rightarrow> bool" where
  "is_str v = (case v of JStr _ \<Rightarrow> True | _ \<Rightarrow> False)"

definition is_int :: "pyval \<Rightarrow> bool" where
  "is_int v = (case v of JInt _ \<Rightarrow> True | _ \<Rightarrow> False)"

text \<open>
  Python's \<open>==\<close> on these values: \<open>True == 1\<close> and \<open>False == 0\<close>, dictionaries compare as
  maps, and an integral float below \<open>10 ^ 16\<close> equals the integer its \<^verbatim>\<open>repr\<close> shows.
\<close>

definition num_of :: "pyval \<Rightarrow> int option" where
  "num_of v = (case v of JInt i \<Rightarrow> Some i | JBool b \<Rightarrow> Some (if b then 1 else 0) | _ \<Rightarrow> None)"

definition float_int_eq :: "ustr \<Rightarrow> int \<Rightarrow> bool" where
  "float_int_eq r i \<longleftrightarrow> r = show_int i @ [46, 48]"

function py_eq :: "pyval \<Rightarrow> pyval \<Rightarrow> bool" where
  "py_eq JNull w = (w = JNull)"
| "py_eq (JStr s) w = (w = JStr s)"
| "py_eq (JBool b) w =
     (case w of JFloat r \<Rightarrow> float_int_eq r (if b then 1 else 0)
      | _ \<Rightarrow> num_of w = Some (if b then 1 else 0))"
| "py_eq (JInt i) w = (case w of JFloat r \<Rightarrow> float_int_eq r i | _ \<Rightarrow> num_of w = Some i)"
| "py_eq (JFloat r) w =
     (case w of JFloat q \<Rightarrow> r = q \<and> r \<noteq> asc ''nan''
      | _ \<Rightarrow> (case num_of w of Some i \<Rightarrow> float_int_eq r i | None \<Rightarrow> False))"
| "py_eq (JList xs) w =
     (case w of JList ys \<Rightarrow> length xs = length ys \<and> list_all (\<lambda>(x, y). py_eq x y) (zip xs ys)
      | _ \<Rightarrow> False)"
| "py_eq (JObj d) w =
     (case w of JObj e \<Rightarrow>
        length d = length e \<and>
        list_all (\<lambda>(k, v). case map_of e k of Some u \<Rightarrow> py_eq v u | None \<Rightarrow> False) d
      | _ \<Rightarrow> False)"
  by pat_completeness auto
termination
proof (relation "measure (size \<circ> fst)", goal_cases)
  case (2 xs w ys z x y)
  then have "x \<in> set xs" by (auto dest: set_zip_leftD)
  then show ?case by (simp add: size_list_estimation' less_Suc_eq_le)
next
  case (3 d w e z k v u)
  then have "(k, v) \<in> set d" by simp
  then have "size v \<le> size_list (size_prod (\<lambda>x. 0) size) d"
    by (rule size_list_estimation') simp
  then show ?case by simp
qed simp

section \<open>Writing\<close>

definition hex_digit :: "nat \<Rightarrow> nat" where
  "hex_digit d = (if d < 10 then 48 + d else 87 + d)"

definition hex_quad :: "nat \<Rightarrow> ustr" where
  "hex_quad c =
     [hex_digit (c div 4096 mod 16), hex_digit (c div 256 mod 16),
      hex_digit (c div 16 mod 16), hex_digit (c mod 16)]"

definition u_escape :: "nat \<Rightarrow> ustr" where
  "u_escape c = 92 # 117 # hex_quad c"

definition json_char :: "nat \<Rightarrow> ustr" where
  "json_char c =
     (if c = 34 then [92, 34]
      else if c = 92 then [92, 92]
      else if c = 10 then [92, 110]
      else if c = 13 then [92, 114]
      else if c = 9 then [92, 116]
      else if c = 12 then [92, 102]
      else if c = 8 then [92, 98]
      else if 32 \<le> c \<and> c \<le> 126 then [c]
      else if c < 0x10000 then u_escape c
      else u_escape (0xD800 + (c - 0x10000) div 1024) @ u_escape (0xDC00 + (c - 0x10000) mod 1024))"

definition json_string :: "ustr \<Rightarrow> ustr" where
  "json_string s = 34 # concat (map json_char s) @ [34]"

fun commas :: "ustr list \<Rightarrow> ustr" where
  "commas [] = []"
| "commas [s] = s"
| "commas (s # ss) = s @ 44 # commas ss"

fun json_text :: "pyval \<Rightarrow> ustr" where
  "json_text JNull = asc ''null''"
| "json_text (JBool b) = (if b then asc ''true'' else asc ''false'')"
| "json_text (JInt i) = show_int i"
| "json_text (JFloat r) = r"
| "json_text (JStr s) = json_string s"
| "json_text (JList xs) = 91 # commas (map json_text xs) @ [93]"
| "json_text (JObj d) =
     123 # commas (map (\<lambda>(k, t). json_string k @ 58 # t)
       (sort_key fst (map (\<lambda>(k, v). (k, json_text v)) d))) @ [125]"

fun has_nonfinite :: "pyval \<Rightarrow> bool" where
  "has_nonfinite (JFloat r) = (r \<in> {asc ''nan'', asc ''inf'', asc ''-inf''})"
| "has_nonfinite (JList xs) = list_ex has_nonfinite xs"
| "has_nonfinite (JObj d) = list_ex (\<lambda>(k, v). has_nonfinite v) d"
| "has_nonfinite _ = False"

text \<open>\<^verbatim>\<open>json.dumps(..., allow_nan=False)\<close> and its \<^verbatim>\<open>.encode()\<close>: the text is ASCII.\<close>

definition json_dumps :: "pyval \<Rightarrow> ustr res" where
  "json_dumps v =
     (if has_nonfinite v then Inl (ValueError ''Out of range float values are not JSON compliant'')
      else Inr (json_text v))"

definition json_bytes :: "pyval \<Rightarrow> bytes res" where
  "json_bytes v = ebind (json_dumps v) (\<lambda>t. Inr (map bt t))"

section \<open>Reading\<close>

fun skip_ws :: "ustr \<Rightarrow> ustr" where
  "skip_ws [] = []"
| "skip_ws (c # s) = (if c = 32 \<or> c = 9 \<or> c = 10 \<or> c = 13 then skip_ws s else c # s)"

definition hex_value :: "nat \<Rightarrow> nat option" where
  "hex_value c =
     (if 48 \<le> c \<and> c \<le> 57 then Some (c - 48)
      else if 97 \<le> c \<and> c \<le> 102 then Some (c - 87)
      else if 65 \<le> c \<and> c \<le> 70 then Some (c - 55)
      else None)"

fun hex4 :: "ustr \<Rightarrow> nat option" where
  "hex4 (a # b # c # d # _) =
     (case (hex_value a, hex_value b, hex_value c, hex_value d) of
        (Some w, Some x, Some y, Some z) \<Rightarrow> Some (((w * 16 + x) * 16 + y) * 16 + z)
      | _ \<Rightarrow> None)"
| "hex4 _ = None"

definition simple_escape :: "nat \<Rightarrow> nat option" where
  "simple_escape e =
     (if e = 34 then Some 34 else if e = 92 then Some 92 else if e = 47 then Some 47
      else if e = 98 then Some 8 else if e = 102 then Some 12 else if e = 110 then Some 10
      else if e = 114 then Some 13 else if e = 116 then Some 9 else None)"

definition is_high :: "nat \<Rightarrow> bool" where
  "is_high c \<longleftrightarrow> 0xD800 \<le> c \<and> c \<le> 0xDBFF"

definition is_low :: "nat \<Rightarrow> bool" where
  "is_low c \<longleftrightarrow> 0xDC00 \<le> c \<and> c \<le> 0xDFFF"

definition join_pair :: "nat \<Rightarrow> nat \<Rightarrow> nat" where
  "join_pair h l = 0x10000 + (h - 0xD800) * 1024 + (l - 0xDC00)"

text \<open>\<^verbatim>\<open>scanstring\<close> from just after the opening quote: the text and what follows the closing quote.\<close>

function scan_string :: "ustr \<Rightarrow> (ustr \<times> ustr) option" where
  "scan_string [] = None"
| "scan_string (c # r) =
     (if c = 34 then Some ([], r)
      else if c < 32 then None
      else if c \<noteq> 92 then map_option (apfst (Cons c)) (scan_string r)
      else
        (case r of
           [] \<Rightarrow> None
         | e # r1 \<Rightarrow>
             if e \<noteq> 117 then
               (case simple_escape e of
                  None \<Rightarrow> None
                | Some x \<Rightarrow> map_option (apfst (Cons x)) (scan_string r1))
             else
               (case hex4 r1 of
                  None \<Rightarrow> None
                | Some u \<Rightarrow>
                    if is_high u \<and> take 2 (drop 4 r1) = [92, 117] then
                      (case hex4 (drop 6 r1) of
                         None \<Rightarrow> None
                       | Some l \<Rightarrow>
                           if is_low l
                           then map_option (apfst (Cons (join_pair u l))) (scan_string (drop 10 r1))
                           else map_option (apfst (Cons u)) (scan_string (drop 4 r1)))
                    else map_option (apfst (Cons u)) (scan_string (drop 4 r1)))))"
  by pat_completeness auto
termination
  by (relation "measure length") auto

text \<open>
  The hooks of \<^verbatim>\<open>json.loads\<close>: \<^verbatim>\<open>parse_int\<close> (on the value), \<^verbatim>\<open>parse_float\<close> and
  \<^verbatim>\<open>parse_constant\<close> (on the text) and \<^verbatim>\<open>object_pairs_hook\<close>.
\<close>

record hooks =
  h_int :: "int \<Rightarrow> pyval"
  h_float :: "ustr \<Rightarrow> pyval res"
  h_const :: "ustr \<Rightarrow> pyval res"
  h_pairs :: "(ustr \<times> pyval) list \<Rightarrow> pyval res"

text \<open>The parts of a number: integer digits, fraction, exponent, rest.\<close>

definition int_part :: "ustr \<Rightarrow> ustr \<times> ustr" where
  "int_part s =
     (if s \<noteq> [] \<and> hd s = 48 then ([48], tl s) else (takeWhile is_digit s, dropWhile is_digit s))"

definition frac_part :: "ustr \<Rightarrow> ustr \<times> ustr" where
  "frac_part s =
     (case s of
        p # d # r \<Rightarrow>
          if p = 46 \<and> is_digit d then (46 # takeWhile is_digit (d # r), dropWhile is_digit (d # r))
          else ([], s)
      | _ \<Rightarrow> ([], s))"

definition exp_part :: "ustr \<Rightarrow> ustr \<times> ustr" where
  "exp_part s =
     (case s of
        [] \<Rightarrow> ([], s)
      | e # r \<Rightarrow>
          if e = 101 \<or> e = 69 then
            (let (sg, r1) = (case r of c # t \<Rightarrow> if c = 43 \<or> c = 45 then ([c], t) else ([], r) | [] \<Rightarrow> ([], r))
             in if r1 \<noteq> [] \<and> is_digit (hd r1)
                then (e # sg @ takeWhile is_digit r1, dropWhile is_digit r1)
                else ([], s))
          else ([], s))"

text \<open>\<^verbatim>\<open>int()\<close> refuses more than 4300 digits.\<close>

definition p_number :: "hooks \<Rightarrow> ustr \<Rightarrow> (pyval \<times> ustr) res" where
  "p_number h s =
     (let neg = (s \<noteq> [] \<and> hd s = 45);
          s1 = (if neg then tl s else s)
      in if s1 = [] \<or> \<not> is_digit (hd s1) then Inl JSONDecodeError
         else
           (let (ip, r1) = int_part s1; (fp, r2) = frac_part r1; (ep, r3) = exp_part r2
            in if fp = [] \<and> ep = [] then
                 (if 4300 < length ip then Inl (ValueError ''Exceeds the limit for integer string conversion'')
                  else Inr (h_int h ((if neg then - 1 else 1) * int (read_nat ip)), r3))
               else ebind (h_float h ((if neg then [45] else []) @ ip @ fp @ ep)) (\<lambda>v. Inr (v, r3))))"

text \<open>
  The scanner. Every call spends one unit of fuel; \<open>json_loads\<close> gives twice the length of
  the text and more, which \<open>p_fuel_enough\<close> shows is never exhausted.
\<close>

fun p_value :: "hooks \<Rightarrow> nat \<Rightarrow> ustr \<Rightarrow> (pyval \<times> ustr) res"
and p_elems :: "hooks \<Rightarrow> nat \<Rightarrow> pyval list \<Rightarrow> ustr \<Rightarrow> (pyval \<times> ustr) res"
and p_members :: "hooks \<Rightarrow> nat \<Rightarrow> (ustr \<times> pyval) list \<Rightarrow> ustr \<Rightarrow> (pyval \<times> ustr) res" where
  "p_value h 0 s = Inl JSONDecodeError"
| "p_value h (Suc n) s =
     (case s of
        [] \<Rightarrow> Inl JSONDecodeError
      | c # r \<Rightarrow>
          if c = 34 then
            (case scan_string r of None \<Rightarrow> Inl JSONDecodeError | Some (t, r1) \<Rightarrow> Inr (JStr t, r1))
          else if c = 123 then
            (let r1 = skip_ws r in
             if r1 \<noteq> [] \<and> hd r1 = 125 then ebind (h_pairs h []) (\<lambda>v. Inr (v, tl r1))
             else p_members h n [] r1)
          else if c = 91 then
            (let r1 = skip_ws r in
             if r1 \<noteq> [] \<and> hd r1 = 93 then Inr (JList [], tl r1) else p_elems h n [] r1)
          else if take 4 s = asc ''null'' then Inr (JNull, drop 4 s)
          else if take 4 s = asc ''true'' then Inr (JBool True, drop 4 s)
          else if take 5 s = asc ''false'' then Inr (JBool False, drop 5 s)
          else if take 3 s = asc ''NaN'' then ebind (h_const h (take 3 s)) (\<lambda>v. Inr (v, drop 3 s))
          else if take 8 s = asc ''Infinity'' then ebind (h_const h (take 8 s)) (\<lambda>v. Inr (v, drop 8 s))
          else if take 9 s = asc ''-Infinity'' then ebind (h_const h (take 9 s)) (\<lambda>v. Inr (v, drop 9 s))
          else p_number h s)"
| "p_elems h 0 acc s = Inl JSONDecodeError"
| "p_elems h (Suc n) acc s =
     ebind (p_value h n s) (\<lambda>(v, r).
       let r1 = skip_ws r in
       if r1 = [] then Inl JSONDecodeError
       else if hd r1 = 93 then Inr (JList (acc @ [v]), tl r1)
       else if hd r1 = 44 then p_elems h n (acc @ [v]) (skip_ws (tl r1))
       else Inl JSONDecodeError)"
| "p_members h 0 acc s = Inl JSONDecodeError"
| "p_members h (Suc n) acc s =
     (if s = [] \<or> hd s \<noteq> 34 then Inl JSONDecodeError
      else
        (case scan_string (tl s) of
           None \<Rightarrow> Inl JSONDecodeError
         | Some (k, r) \<Rightarrow>
             (let r1 = skip_ws r in
              if r1 = [] \<or> hd r1 \<noteq> 58 then Inl JSONDecodeError
              else
                ebind (p_value h n (skip_ws (tl r1))) (\<lambda>(v, r2).
                  let r3 = skip_ws r2 in
                  if r3 = [] then Inl JSONDecodeError
                  else if hd r3 = 125 then ebind (h_pairs h (acc @ [(k, v)])) (\<lambda>w. Inr (w, tl r3))
                  else if hd r3 = 44 then p_members h n (acc @ [(k, v)]) (skip_ws (tl r3))
                  else Inl JSONDecodeError))))"

definition json_loads :: "hooks \<Rightarrow> ustr \<Rightarrow> pyval res" where
  "json_loads h text =
     (if text \<noteq> [] \<and> hd text = 0xFEFF then Inl JSONDecodeError
      else
        ebind (p_value h (2 * length text + 2) (skip_ws text)) (\<lambda>(v, r).
          if skip_ws r = [] then Inr v else Inl JSONDecodeError))"


section \<open>Strings read back\<close>

lemma hex_value_digit [simp]: "d < 16 \<Longrightarrow> hex_value (hex_digit d) = Some d"
  by (auto simp: hex_value_def hex_digit_def)

lemma split16: "c < 65536 \<Longrightarrow>
    ((c div 4096 mod 16 * 16 + c div 256 mod 16) * 16 + c div 16 mod 16) * 16 + c mod 16 = (c :: nat)"
proof -
  assume "c < 65536"
  then have a: "c div 4096 mod 16 = c div 4096" by (simp add: less_mult_imp_div_less)
  have b: "c div 4096 * 16 + c div 256 mod 16 = c div 256"
    using div_mult_mod_eq [of "c div 256" 16] by (simp add: div_mult2_eq [symmetric])
  have d: "c div 256 * 16 + c div 16 mod 16 = c div 16"
    using div_mult_mod_eq [of "c div 16" 16] by (simp add: div_mult2_eq [symmetric])
  show ?thesis unfolding a b d by simp
qed

lemma hex4_quad [simp]: "c < 65536 \<Longrightarrow> hex4 (hex_quad c @ r) = Some c"
proof -
  assume c: "c < 65536"
  have "hex4 (hex_quad c @ r) =
    Some (((c div 4096 mod 16 * 16 + c div 256 mod 16) * 16 + c div 16 mod 16) * 16 + c mod 16)"
    unfolding hex_quad_def append.simps hex4.simps by (subst hex_value_digit, simp)+ simp
  then show ?thesis by (simp only: split16 [OF c])
qed

lemma length_hex_quad [simp]: "length (hex_quad c) = 4"
  by (simp add: hex_quad_def)

lemma scan_escape:
  assumes "c < 65536" "\<not> is_surrogate c"
  shows "scan_string (u_escape c @ r) = map_option (apfst (Cons c)) (scan_string r)"
proof -
  have "\<not> is_high c" using assms(2) by (auto simp: is_high_def is_surrogate_def)
  with assms(1) show ?thesis by (simp add: u_escape_def)
qed

lemma scan_escape_pair:
  assumes "0x10000 \<le> c" "c \<le> 0x10FFFF"
  shows "scan_string (u_escape (0xD800 + (c - 0x10000) div 1024) @
           u_escape (0xDC00 + (c - 0x10000) mod 1024) @ r) =
         map_option (apfst (Cons c)) (scan_string r)"
proof -
  define h where "h = 0xD800 + (c - 0x10000) div 1024"
  define l where "l = 0xDC00 + (c - 0x10000) mod 1024"
  have "(c - 0x10000) div 1024 < 1024" using assms by (simp add: less_mult_imp_div_less)
  then have h: "h < 65536" "is_high h" by (simp_all add: h_def is_high_def)
  have "(c - 0x10000) mod 1024 < 1024" by simp
  then have l: "l < 65536" "is_low l" unfolding l_def is_low_def by linarith+
  have j: "join_pair h l = c"
    using assms by (simp add: join_pair_def h_def l_def)
  show ?thesis
    unfolding h_def [symmetric] l_def [symmetric]
    using h l j by (simp add: u_escape_def)
qed

lemma scan_char:
  assumes "is_scalar c"
  shows "scan_string (json_char c @ r) = map_option (apfst (Cons c)) (scan_string r)"
proof (cases "c < 65536")
  case True
  then show ?thesis
    using assms scan_escape [of c r]
    by (simp add: json_char_def simple_escape_def is_scalar_def)
next
  case False
  with assms scan_escape_pair [of c r] show ?thesis
    by (simp add: json_char_def is_scalar_def del: scan_string.simps)
qed

lemma scan_json_string:
  "scalars s \<Longrightarrow> scan_string (concat (map json_char s) @ 34 # r) = Some (s, r)"
  by (induction s) (simp_all add: scan_char del: scan_string.simps(2), simp)


section \<open>Numbers read back\<close>

text \<open>What may follow a value in canonical text: nothing, a comma or a closing bracket.\<close>

definition ends_value :: "ustr \<Rightarrow> bool" where
  "ends_value r \<longleftrightarrow> r = [] \<or> hd r \<in> {44, 93, 125}"

lemma ends_value_simps [simp]:
  "ends_value []" "ends_value (44 # r)" "ends_value (93 # r)" "ends_value (125 # r)"
  by (simp_all add: ends_value_def)

lemma take_drop_digits:
  "list_all is_digit s \<Longrightarrow> ends_value r \<Longrightarrow>
     takeWhile is_digit (s @ r) = s \<and> dropWhile is_digit (s @ r) = r"
proof (induction s)
  case Nil
  then show ?case by (cases r) (auto simp: ends_value_def is_digit_def)
qed auto

lemma no_fraction: "ends_value r \<Longrightarrow> frac_part r = ([], r) \<and> exp_part r = ([], r)"
  by (cases r) (auto simp: ends_value_def frac_part_def exp_part_def split: list.splits)

lemma int_part_show:
  assumes "ends_value r"
  shows "int_part (show_nat n @ r) = (show_nat n, r)"
proof (cases "n = 0")
  case True
  then show ?thesis by (simp add: int_part_def show_nat_0)
next
  case False
  then have "hd (show_nat n @ r) \<noteq> 48" using show_nat_hd [of n] by (simp add: hd_append)
  with take_drop_digits [OF show_nat_digits assms] show ?thesis by (simp add: int_part_def)
qed

lemma hd_show_nat: "is_digit (hd (show_nat n))"
  using show_nat_digits [of n] by (cases "show_nat n") auto

lemma p_number_show:
  assumes "ends_value r" and "length (show_nat (nat \<bar>i\<bar>)) \<le> 4300"
  shows "p_number h (show_int i @ r) = Inr (h_int h i, r)"
proof -
  have d: "hd (show_nat m @ r) \<noteq> 45" "is_digit (hd (show_nat m @ r))" for m
    using hd_show_nat [of m] by (auto simp: hd_append is_digit_def)
  show ?thesis
  proof (cases "i < 0")
    case True
    then show ?thesis
      using assms d [of "nat (- i)"] no_fraction [OF assms(1)]
      by (simp add: p_number_def show_int_def int_part_show)
  next
    case False
    then show ?thesis
      using assms d [of "nat i"] no_fraction [OF assms(1)]
      by (simp add: p_number_def show_int_def int_part_show)
  qed
qed


section \<open>Values read back\<close>

text \<open>
  The values whose canonical text reads back: encodable strings, distinct keys, no float,
  and integers short enough for \<^verbatim>\<open>int()\<close>. \<open>jnorm\<close> sorts every object by key, which leaves
  the value equal to itself for Python.
\<close>

fun jv_ok :: "pyval \<Rightarrow> bool" where
  "jv_ok JNull = True"
| "jv_ok (JBool b) = True"
| "jv_ok (JInt i) = (length (show_nat (nat \<bar>i\<bar>)) \<le> 4300)"
| "jv_ok (JFloat r) = False"
| "jv_ok (JStr s) = scalars s"
| "jv_ok (JList xs) = list_all jv_ok xs"
| "jv_ok (JObj d) = (distinct (map fst d) \<and> list_all (\<lambda>(k, v). scalars k \<and> jv_ok v) d)"

fun jnorm :: "pyval \<Rightarrow> pyval" where
  "jnorm (JList xs) = JList (map jnorm xs)"
| "jnorm (JObj d) = JObj (sort_key fst (map (\<lambda>(k, v). (k, jnorm v)) d))"
| "jnorm v = v"

lemma insort_key_map:
  "insort_key fst (k, f v) (map (\<lambda>(k, v). (k, f v)) d) =
   map (\<lambda>(k, v). (k, f v)) (insort_key fst (k, v) d)"
  by (induction d) auto

lemma map_fst_value: "map fst (map (\<lambda>(k, v). (k, f v)) d) = map fst d"
  by (induction d) auto

lemma sort_key_map:
  "sort_key fst (map (\<lambda>(k, v). (k, f v)) d) = map (\<lambda>(k, v). (k, f v)) (sort_key fst d)"
  by (induction d) (auto simp: insort_key_map)

definition member_text :: "ustr \<times> pyval \<Rightarrow> ustr" where
  "member_text p = json_string (fst p) @ 58 # json_text (snd p)"

lemma json_text_obj:
  "json_text (JObj d) = 123 # commas (map member_text (sort_key fst d)) @ [125]"
  by (simp add: sort_key_map member_text_def [abs_def] comp_def case_prod_beta)

lemma commas_Cons: "xs \<noteq> [] \<Longrightarrow> commas (x # xs) = x @ 44 # commas xs"
  by (cases xs) auto

definition opens_value :: "ustr \<Rightarrow> bool" where
  "opens_value s \<longleftrightarrow> s \<noteq> [] \<and> hd s \<notin> {32, 9, 10, 13, 44, 93, 125}"

lemma opens_show_int: "opens_value (show_int i)"
  using hd_show_nat [of "nat i"]
  by (auto simp: opens_value_def show_int_def is_digit_def)

lemma opens_text: "jv_ok v \<Longrightarrow> opens_value (json_text v)"
  by (cases v) (simp_all add: opens_show_int, simp_all add: opens_value_def asc_def json_string_def)

lemma skip_ws_opens [simp]: "opens_value s \<Longrightarrow> skip_ws (s @ r) = s @ r"
  by (cases s) (auto simp: opens_value_def)

text \<open>What the hooks of a strict reader do with the values the writer produces.\<close>

definition plain_hooks :: "hooks \<Rightarrow> bool" where
  "plain_hooks h \<longleftrightarrow>
     h_int h = JInt \<and> (\<forall>d. distinct (map fst d) \<longrightarrow> h_pairs h d = Inr (JObj d))"

definition reads_back :: "hooks \<Rightarrow> pyval \<Rightarrow> bool" where
  "reads_back h v \<longleftrightarrow>
     (\<forall>n r. ends_value r \<longrightarrow> 2 * length (json_text v) < n \<longrightarrow>
        p_value h n (json_text v @ r) = Inr (jnorm v, r))"

lemma reads_backD:
  "reads_back h v \<Longrightarrow> ends_value r \<Longrightarrow> 2 * length (json_text v) < n \<Longrightarrow>
     p_value h n (json_text v @ r) = Inr (jnorm v, r)"
  by (simp add: reads_back_def)

lemma p_elems_text:
  assumes "xs \<noteq> []" and "\<forall>x \<in> set xs. jv_ok x \<and> reads_back h x"
    and "2 * length (commas (map json_text xs)) + 1 < n"
  shows "p_elems h n acc (commas (map json_text xs) @ 93 # r) = Inr (JList (acc @ map jnorm xs), r)"
  using assms
proof (induction xs arbitrary: acc n)
  case Nil
  then show ?case by simp
next
  case (Cons x xs)
  then obtain m where n: "n = Suc m" by (cases n) auto
  have rb: "reads_back h x" using Cons.prems by simp
  show ?case
  proof (cases "xs = []")
    case True
    have "2 * length (json_text x) < m" using Cons.prems(3) True n by simp
    with True n show ?thesis
      using reads_backD [OF rb, of "93 # r" m] by simp
  next
    case False
    let ?rest = "commas (map json_text xs) @ 93 # r"
    have m: "2 * length (json_text x) < m" "2 * length (commas (map json_text xs)) + 1 < m"
      using Cons.prems(3) False n by (simp_all add: commas_Cons)
    have hd: "opens_value (commas (map json_text xs))"
      using False Cons.prems(2) opens_text [of "hd xs"]
      by (cases xs; cases "tl xs") (auto simp: opens_value_def commas_Cons hd_append)
    have "p_elems h m (acc @ [jnorm x]) ?rest = Inr (JList ((acc @ [jnorm x]) @ map jnorm xs), r)"
      using Cons.IH [OF False _ m(2)] Cons.prems(2) by simp
    with False n m(1) hd show ?thesis
      using reads_backD [OF rb, of "44 # ?rest" m] by (simp add: commas_Cons)
  qed
qed

lemma json_string_scan:
  "scalars k \<Longrightarrow> scan_string (tl (json_string k @ r)) = Some (k, r)"
  by (simp add: json_string_def scan_json_string)

lemma p_members_text:
  assumes "d \<noteq> []" and "\<forall>(k, v) \<in> set d. scalars k \<and> jv_ok v \<and> reads_back h v"
    and "2 * length (commas (map member_text d)) + 1 < n"
  shows "p_members h n acc (commas (map member_text d) @ 125 # r) =
           ebind (h_pairs h (acc @ map (\<lambda>(k, v). (k, jnorm v)) d)) (\<lambda>w. Inr (w, r))"
  using assms
proof (induction d arbitrary: acc n)
  case Nil
  then show ?case by simp
next
  case (Cons p d)
  obtain k v where p: "p = (k, v)" by (cases p)
  have mt: "member_text (k, v) = json_string k @ 58 # json_text v" by (simp add: member_text_def)
  from Cons.prems obtain m where n: "n = Suc m" by (cases n) auto
  have k: "scalars k" and v: "jv_ok v" and rb: "reads_back h v" using Cons.prems p by auto
  have q: "hd (json_string k @ s) = 34" "json_string k @ s \<noteq> []" for s
    by (simp_all add: json_string_def)
  have sk: "skip_ws (58 # s) = 58 # s" for s by simp
  note step = json_string_scan [OF k] q skip_ws_opens [OF opens_text [OF v]]
  show ?case
  proof (cases "d = []")
    case True
    have "2 * length (json_text v) < m" using Cons.prems(3) True n p mt by simp
    with True n p mt show ?thesis
      using reads_backD [OF rb, of "125 # r" m] by (simp add: mt step)
  next
    case False
    let ?rest = "commas (map member_text d) @ 125 # r"
    have m: "2 * length (json_text v) < m" "2 * length (commas (map member_text d)) + 1 < m"
      using Cons.prems(3) False n p mt by (simp_all add: commas_Cons)
    have hd: "opens_value (commas (map member_text d))"
      using False
      by (cases d; cases "tl d") (auto simp: opens_value_def commas_Cons member_text_def json_string_def)
    have "p_members h m (acc @ [(k, jnorm v)]) ?rest =
        ebind (h_pairs h ((acc @ [(k, jnorm v)]) @ map (\<lambda>(k, v). (k, jnorm v)) d)) (\<lambda>w. Inr (w, r))"
      using Cons.IH [OF False _ m(2)] Cons.prems(2) by simp
    with False n m(1) hd p show ?thesis
      using reads_backD [OF rb, of "44 # ?rest" m] by (simp add: commas_Cons mt step)
  qed
qed


lemma p_value_const:
  assumes "0 < n"
  shows "p_value h n (asc ''null'' @ r) = Inr (JNull, r)"
    and "p_value h n (asc ''true'' @ r) = Inr (JBool True, r)"
    and "p_value h n (asc ''false'' @ r) = Inr (JBool False, r)"
  using assms by (cases n; simp add: asc_def)+

lemma show_int_cases:
  obtains c s where "show_int i = c # s" "c = 45 \<or> is_digit c"
    "c = 45 \<longrightarrow> s \<noteq> [] \<and> is_digit (hd s)"
proof (cases "i < 0")
  case True
  then show thesis
    using that [of 45 "show_nat (nat (- i))"] hd_show_nat by (simp add: show_int_def)
next
  case False
  obtain c s where cs: "show_nat (nat i) = c # s" by (cases "show_nat (nat i)") auto
  then have "is_digit c" using hd_show_nat [of "nat i"] by simp
  with False cs show thesis
    using that [of c s] by (simp add: show_int_def is_digit_def)
qed

lemma json_text_reads_back:
  assumes "plain_hooks h"
  shows "jv_ok v \<Longrightarrow> reads_back h v"
proof (induction v)
  case (JInt i)
  have o: "opens_value (show_int i)" by (rule opens_show_int)
  have "p_value h n (show_int i @ r) = Inr (JInt i, r)" if e: "ends_value r" and p: "0 < n" for n r
  proof -
    obtain m where n: "n = Suc m" using p by (cases n) auto
    have pn: "p_number h (show_int i @ r) = Inr (JInt i, r)"
      using assms JInt e by (simp add: p_number_show plain_hooks_def)
    obtain c s where cs: "show_int i = c # s" "c = 45 \<or> is_digit c" "c = 45 \<longrightarrow> s \<noteq> [] \<and> is_digit (hd s)"
      by (rule show_int_cases)
    have "take 9 (c # s @ r) \<noteq> asc ''-Infinity''"
      using cs by (cases s) (auto simp: asc_def is_digit_def)
    moreover have "c \<noteq> 34" "c \<noteq> 123" "c \<noteq> 91" "c \<noteq> 110" "c \<noteq> 116" "c \<noteq> 102" "c \<noteq> 78" "c \<noteq> 73"
      using cs by (auto simp: is_digit_def)
    ultimately show ?thesis using pn by (auto simp: n cs asc_def)
  qed
  then show ?case by (auto simp: reads_back_def)
next
  case (JList xs)
  have "p_value h n (json_text (JList xs) @ r) = Inr (jnorm (JList xs), r)"
    if n: "2 * length (json_text (JList xs)) < n" for n r
  proof -
    obtain m where m: "n = Suc m" using n by (cases n) auto
    show ?thesis
    proof (cases "xs = []")
      case True
      then show ?thesis using m by simp
    next
      case False
      have ok: "\<forall>x \<in> set xs. jv_ok x \<and> reads_back h x"
        using JList by (auto simp: list_all_iff)
      have o: "opens_value (commas (map json_text xs))"
        using False ok opens_text [of "hd xs"]
        by (cases xs; cases "tl xs") (auto simp: opens_value_def commas_Cons hd_append)
      then have "hd (commas (map json_text xs) @ 93 # r) \<noteq> 93"
        by (auto simp: opens_value_def hd_append)
      moreover have "p_elems h m [] (commas (map json_text xs) @ 93 # r) = Inr (JList (map jnorm xs), r)"
        using p_elems_text [OF False ok, of m "[]" r] n m by simp
      ultimately show ?thesis using o m by (simp add: Let_def)
    qed
  qed
  then show ?case by (simp add: reads_back_def)
next
  case (JObj d)
  let ?d = "sort_key fst d"
  have "distinct (map fst ?d)" using JObj.prems by (simp add: distinct_map)
  then have dist: "distinct (map fst (map (\<lambda>(k, v). (k, jnorm v)) ?d))"
    by (simp only: map_fst_value)
  have hp: "h_pairs h (map (\<lambda>(k, v). (k, jnorm v)) ?d) = Inr (jnorm (JObj d))"
    using assms dist by (simp add: plain_hooks_def sort_key_map)
  have "p_value h n (json_text (JObj d) @ r) = Inr (jnorm (JObj d), r)"
    if n: "2 * length (json_text (JObj d)) < n" for n r
  proof -
    obtain m where m: "n = Suc m" using n by (cases n) auto
    show ?thesis
    proof (cases "d = []")
      case True
      then show ?thesis using m assms by (simp add: plain_hooks_def)
    next
      case False
      then have ne: "?d \<noteq> []" by (metis set_empty set_sort)
      have ok: "\<forall>(k, v) \<in> set ?d. scalars k \<and> jv_ok v \<and> reads_back h v"
        using JObj by (fastforce simp: list_all_iff)
      have o: "opens_value (commas (map member_text ?d))"
        using ne
        by (cases ?d; cases "tl ?d") (auto simp: opens_value_def commas_Cons member_text_def json_string_def)
      then have "hd (commas (map member_text ?d) @ 125 # r) \<noteq> 125"
        by (auto simp: opens_value_def hd_append)
      moreover have "p_members h m [] (commas (map member_text ?d) @ 125 # r) = Inr (jnorm (JObj d), r)"
        using p_members_text [OF ne ok, of m "[]" r] n m hp
        by (simp add: json_text_obj del: json_text.simps jnorm.simps)
      ultimately show ?thesis using o m
        by (simp add: json_text_obj Let_def del: json_text.simps jnorm.simps)
    qed
  qed
  then show ?case by (simp add: reads_back_def del: json_text.simps jnorm.simps)
next
  case (JStr s)
  have "p_value h n (json_string s @ r) = Inr (JStr s, r)" if "0 < n" for n r
    using that JStr by (cases n) (simp_all add: json_string_def scan_json_string)
  then show ?case by (auto simp: reads_back_def)
next
  case JNull
  then show ?case by (auto simp: reads_back_def p_value_const)
next
  case (JBool b)
  then show ?case by (auto simp: reads_back_def p_value_const)
qed simp

lemma ascii_concat: "ascii (concat ss) \<longleftrightarrow> list_all ascii ss"
  by (induction ss) auto

lemma ascii_commas: "list_all ascii ss \<Longrightarrow> ascii (commas ss)"
  by (induction ss rule: commas.induct) auto

lemma ascii_escape: "ascii (u_escape c)"
proof -
  have "hex_digit (n mod 16) < 128" for n
    using mod_less_divisor [of 16 n] by (simp add: hex_digit_def del: mod_less_divisor)
  then show ?thesis by (simp add: u_escape_def hex_quad_def)
qed

lemma ascii_json_string: "ascii (json_string s)"
proof -
  have "ascii (json_char c)" for c by (simp add: json_char_def ascii_escape)
  then show ?thesis by (simp add: json_string_def ascii_concat list_all_iff)
qed

text \<open>Canonical text is ASCII, so its bytes are its code points.\<close>

lemma ascii_json_text: "jv_ok v \<Longrightarrow> ascii (json_text v)"
proof (induction v)
  case (JList xs)
  then show ?case by (auto simp: list_all_iff intro!: ascii_commas)
next
  case (JObj d)
  have "ascii (member_text p)" if "p \<in> set d" for p
    using JObj that by (cases p) (fastforce simp: member_text_def ascii_json_string list_all_iff)
  then have "ascii (commas (map member_text (sort_key fst d)))"
    by (auto simp: list_all_iff intro!: ascii_commas)
  then show ?case by (simp add: json_text_obj del: json_text.simps)
qed (simp_all add: ascii_show_nat show_int_def ascii_json_string, simp_all add: asc_def)

theorem json_loads_text:
  assumes "plain_hooks h" and "jv_ok v"
  shows "json_loads h (json_text v) = Inr (jnorm v)"
proof -
  have o: "opens_value (json_text v)" using assms(2) by (rule opens_text)
  have "json_text v = [] \<or> hd (json_text v) \<noteq> 0xFEFF"
    using ascii_json_text [OF assms(2)] by (cases "json_text v") auto
  moreover have "p_value h (2 * length (json_text v) + 2) (json_text v @ []) = Inr (jnorm v, [])"
    by (rule reads_backD [OF json_text_reads_back [OF assms]]) simp_all
  moreover have "skip_ws (json_text v @ []) = json_text v @ []" using o by (rule skip_ws_opens)
  ultimately show ?thesis by (simp add: json_loads_def del: p_value.simps)
qed


section \<open>Canonical text determines the document\<close>

lemma sorted_map_jnorm:
  "map fst (sort_key fst (map (\<lambda>(k, v). (k, jnorm v)) d)) = map fst (sort_key fst d)"
  by (simp add: sort_key_map comp_def case_prod_beta)

lemma json_text_jnorm [simp]: "json_text (jnorm v) = json_text v"
proof (induction v)
  case (JList xs)
  then show ?case by (simp add: comp_def cong: map_cong)
next
  case (JObj d)
  let ?s = "sort_key fst (map (\<lambda>(k, v). (k, jnorm v)) d)"
  have "sort_key fst ?s = ?s" by (simp add: sort_key_id_if_sorted sorted_sort_key)
  then have "json_text (jnorm (JObj d)) = 123 # commas (map member_text ?s) @ [125]"
    by (simp only: jnorm.simps json_text_obj)
  also have "map member_text ?s = map member_text (sort_key fst d)"
    using JObj by (auto simp: sort_key_map member_text_def)
  finally show ?case by (simp only: json_text_obj)
qed simp_all

lemma json_text_inject:
  assumes "jv_ok v" "jv_ok w" "json_text v = json_text w"
  shows "jnorm v = jnorm w"
proof -
  define h where "h = \<lparr>h_int = JInt, h_float = (\<lambda>_. Inl JSONDecodeError),
    h_const = (\<lambda>_. Inl JSONDecodeError), h_pairs = (\<lambda>d. Inr (JObj d))\<rparr>"
  have "plain_hooks h" by (simp add: plain_hooks_def h_def)
  then show ?thesis using assms json_loads_text by (metis sum.inject(2))
qed

lemma jv_ok_jnorm [simp]: "jv_ok (jnorm v) = jv_ok v"
proof (induction v)
  case (JList xs)
  then show ?case by (simp add: list_all_iff)
next
  case (JObj d)
  have "distinct (map fst (sort_key fst d)) = distinct (map fst d)"
    by (simp add: distinct_map)
  moreover have "(\<forall>(k, v) \<in> set d. scalars k \<and> jv_ok (jnorm v)) = (\<forall>(k, v) \<in> set d. scalars k \<and> jv_ok v)"
    using JObj by fastforce
  ultimately show ?case
    by (simp add: sort_key_map list_all_iff comp_def case_prod_beta)
qed simp_all


section \<open>The fuel of the scanner is enough\<close>

lemma length_skip_ws: "length (skip_ws s) \<le> length s"
  by (induction s) auto

lemma length_tl_skip_ws: "skip_ws s \<noteq> [] \<Longrightarrow> length (tl (skip_ws s)) < length s"
  using length_skip_ws [of s] by (cases "skip_ws s") auto

lemma scan_string_shorter: "scan_string s = Some (t, r) \<Longrightarrow> length r < length s"
proof (induction s arbitrary: t rule: scan_string.induct)
  case 1
  then show ?case by simp
next
  case (2 c s)
  then show ?case
    by (auto split: if_splits list.splits option.splits) (force dest: less_imp_le_nat)+
qed

lemma length_dropWhile_tl: "s \<noteq> [] \<Longrightarrow> P (hd s) \<Longrightarrow> length (dropWhile P s) < length s"
  using length_dropWhile_le [of P "tl s"] by (cases s) auto

lemma int_part_shorter:
  "int_part s = (a, r) \<Longrightarrow> s \<noteq> [] \<Longrightarrow> is_digit (hd s) \<Longrightarrow> length r < length s"
  using length_dropWhile_tl [of s is_digit]
  by (cases s) (auto simp: int_part_def split: if_splits)

lemma frac_part_shorter: "frac_part s = (a, r) \<Longrightarrow> length r \<le> length s"
  using length_dropWhile_le [of is_digit]
  by (auto simp: frac_part_def le_Suc_eq split: list.splits if_splits intro: le_SucI)

lemma exp_part_shorter: "exp_part s = (a, r) \<Longrightarrow> length r \<le> length s"
  using length_dropWhile_le [of is_digit]
  by (auto simp: exp_part_def Let_def split: list.splits if_splits intro: le_SucI)

lemma p_number_shorter: "p_number h s = Inr (v, r) \<Longrightarrow> length r < length s"
  by (auto simp: p_number_def Let_def split: if_splits prod.splits
      dest!: int_part_shorter frac_part_shorter exp_part_shorter)


lemma p_shorter:
  shows "p_value h n s = Inr (v, r) \<Longrightarrow> length r < length s"
    and "p_elems h n acc s = Inr (v, r) \<Longrightarrow> length r < length s"
    and "p_members h n ms s = Inr (v, r) \<Longrightarrow> length r < length s"
proof (induction n arbitrary: s v r acc ms)
  case 0
  {
    case 1
    then show ?case by simp
  next
    case 2
    then show ?case by simp
  next
    case 3
    then show ?case by simp
  }
next
  case (Suc n)
  {
    case 1
    then obtain c t where s: "s = c # t" by (cases s) auto
    have "length (skip_ws t) \<le> length t" by (rule length_skip_ws)
    then show ?case
      using 1 Suc.IH(2) [of "[]" "skip_ws t" v r] Suc.IH(3) [of "[]" "skip_ws t" v r]
        length_tl_skip_ws [of t] p_number_shorter [of h s v r]
      by (auto simp: s Let_def dest: scan_string_shorter split: if_splits option.splits)
  next
    case 2
    then obtain x q where q: "p_value h n s = Inr (x, q)" "skip_ws q \<noteq> []"
      by (auto simp: Let_def split: if_splits)
    have l: "length q < length s" by (rule Suc.IH(1) [OF q(1)])
    have t: "length (tl (skip_ws q)) < length q" using q(2) by (rule length_tl_skip_ws)
    show ?case
      using 2 q l t Suc.IH(2) [of "acc @ [x]" "skip_ws (tl (skip_ws q))" v r]
        length_skip_ws [of "tl (skip_ws q)"]
      by (auto simp: Let_def split: if_splits)
  next
    case 3
    then obtain k q where k: "s \<noteq> []" "scan_string (tl s) = Some (k, q)" "skip_ws q \<noteq> []"
      by (auto simp: Let_def split: if_splits option.splits)
    let ?q = "skip_ws (tl (skip_ws q))"
    obtain x p where x: "p_value h n ?q = Inr (x, p)" "skip_ws p \<noteq> []"
      using 3 k by (auto simp: Let_def split: if_splits)
    have a: "length q < length s"
      using scan_string_shorter [OF k(2)] by simp
    have b: "length ?q < length q"
      using length_skip_ws [of "tl (skip_ws q)"] length_tl_skip_ws [OF k(3)] by linarith
    have c: "length p < length ?q" by (rule Suc.IH(1) [OF x(1)])
    have d: "length (tl (skip_ws p)) < length p" using x(2) by (rule length_tl_skip_ws)
    show ?case
      using 3 k x a b c d Suc.IH(3) [of "ms @ [(k, x)]" "skip_ws (tl (skip_ws p))" v r]
        length_skip_ws [of "tl (skip_ws p)"]
      by (auto simp: Let_def split: if_splits)
  }
qed

declare p_value.simps(2) [simp del] p_elems.simps(2) [simp del] p_members.simps(2) [simp del]

lemma p_fuel_step:
  shows "2 * length s < n \<Longrightarrow> p_value h (Suc n) s = p_value h n s"
    and "2 * length s + 1 < n \<Longrightarrow> p_elems h (Suc n) acc s = p_elems h n acc s"
    and "2 * length s + 1 < n \<Longrightarrow> p_members h (Suc n) ms s = p_members h n ms s"
proof (induction n arbitrary: s acc ms)
  case 0
  {
    case 1
    then show ?case by simp
  next
    case 2
    then show ?case by simp
  next
    case 3
    then show ?case by simp
  }
next
  case (Suc n)
  {
    case 1
    show ?case
    proof (cases s)
      case Nil
      then show ?thesis by (simp add: p_value.simps(2))
    next
      case (Cons c t)
      then have "2 * length (skip_ws t) + 1 < n"
        using 1 length_skip_ws [of t] by simp
      then have "p_elems h (Suc n) [] (skip_ws t) = p_elems h n [] (skip_ws t)"
        "p_members h (Suc n) [] (skip_ws t) = p_members h n [] (skip_ws t)"
        using Suc.IH(2,3) by blast+
      then show ?thesis
        unfolding p_value.simps(2) [of h "Suc n" s] p_value.simps(2) [of h n s]
        by (auto simp add: Cons Let_def simp del: p_elems.simps p_members.simps)
    qed
  next
    case 2
    then have v: "p_value h (Suc n) s = p_value h n s" by (intro Suc.IH(1)) simp
    have e: "p_elems h (Suc n) (acc @ [x]) (skip_ws (tl (skip_ws q))) =
             p_elems h n (acc @ [x]) (skip_ws (tl (skip_ws q)))"
      if "p_value h n s = Inr (x, q)" "skip_ws q \<noteq> []" for x q
      using p_shorter(1) [OF that(1)] length_tl_skip_ws [OF that(2)]
        length_skip_ws [of "tl (skip_ws q)"] 2
      by (intro Suc.IH(2)) linarith
    show ?case
      unfolding p_elems.simps(2) [of h "Suc n" acc s] p_elems.simps(2) [of h n acc s] v
      by (rule ebind_cong [OF refl]) (auto simp: Let_def e)
  next
    case 3
    have v: "p_value h (Suc n) (skip_ws (tl (skip_ws q))) = p_value h n (skip_ws (tl (skip_ws q)))"
      if "s \<noteq> []" "scan_string (tl s) = Some (k, q)" "skip_ws q \<noteq> []" for k q
      using that scan_string_shorter [OF that(2)] length_tl_skip_ws [OF that(3)]
        length_skip_ws [of "tl (skip_ws q)"] 3
      by (intro Suc.IH(1)) simp
    have e: "p_members h (Suc n) (ms @ [(k, x)]) (skip_ws (tl (skip_ws p))) =
             p_members h n (ms @ [(k, x)]) (skip_ws (tl (skip_ws p)))"
      if "s \<noteq> []" "scan_string (tl s) = Some (k, q)" "skip_ws q \<noteq> []"
        "p_value h n (skip_ws (tl (skip_ws q))) = Inr (x, p)" "skip_ws p \<noteq> []" for k q x p
      using that scan_string_shorter [OF that(2)] length_tl_skip_ws [OF that(3)]
        length_skip_ws [of "tl (skip_ws q)"] p_shorter(1) [OF that(4)]
        length_tl_skip_ws [OF that(5)] length_skip_ws [of "tl (skip_ws p)"] 3
      by (intro Suc.IH(3)) simp
    show ?case
      unfolding p_members.simps(2) [of h "Suc n" ms s] p_members.simps(2) [of h n ms s]
      using v e by (auto simp: Let_def split: option.splits intro!: ebind_cong)
  }
qed

lemma p_fuel_enough: "2 * length s < n \<Longrightarrow> p_value h (n + k) s = p_value h n s"
proof (induction k)
  case (Suc k)
  then show ?case using p_fuel_step(1) [of s "n + k" h] by (simp del: p_value.simps)
qed simp

text \<open>Any amount of fuel above the one \<open>json_loads\<close> chooses reads the same value.\<close>

theorem json_loads_fuel:
  assumes "2 * length text + 2 \<le> n"
  shows "json_loads h text =
     (if text \<noteq> [] \<and> hd text = 0xFEFF then Inl JSONDecodeError
      else ebind (p_value h n (skip_ws text)) (\<lambda>(v, r). if skip_ws r = [] then Inr v else Inl JSONDecodeError))"
proof -
  let ?m = "2 * length text + 2"
  have "p_value h (?m + (n - ?m)) (skip_ws text) = p_value h ?m (skip_ws text)"
    using length_skip_ws [of "text"] by (intro p_fuel_enough) linarith
  then have "p_value h n (skip_ws text) = p_value h ?m (skip_ws text)"
    using assms by (simp only: le_add_diff_inverse)
  then show ?thesis by (simp only: json_loads_def)
qed


section \<open>What the scanner can return\<close>

text \<open>
  A property of values that the hooks establish and lists keep holds of everything the
  scanner returns; a property of exceptions that the scanner's own and the hooks' have holds
  of everything it raises.
\<close>

definition hooks_give :: "(pyval \<Rightarrow> bool) \<Rightarrow> hooks \<Rightarrow> bool" where
  "hooks_give Q h \<longleftrightarrow>
     (\<forall>i. Q (h_int h i)) \<and> (\<forall>t v. h_float h t = Inr v \<longrightarrow> Q v) \<and> (\<forall>t v. h_const h t = Inr v \<longrightarrow> Q v) \<and>
     (\<forall>d v. (\<forall>(k, x) \<in> set d. Q x) \<longrightarrow> h_pairs h d = Inr v \<longrightarrow> Q v)"

lemma p_number_gives: "hooks_give Q h \<Longrightarrow> p_number h s = Inr (v, r) \<Longrightarrow> Q v"
  by (auto simp: p_number_def hooks_give_def Let_def split: if_splits prod.splits)

lemma p_gives:
  assumes h: "hooks_give Q h"
    and Q: "Q JNull" "\<And>b. Q (JBool b)" "\<And>s. Q (JStr s)" "\<And>xs. \<forall>x \<in> set xs. Q x \<Longrightarrow> Q (JList xs)"
  shows "p_value h n s = Inr (v, r) \<Longrightarrow> Q v"
    and "p_elems h n acc s = Inr (v, r) \<Longrightarrow> \<forall>x \<in> set acc. Q x \<Longrightarrow> Q v"
    and "p_members h n ms s = Inr (v, r) \<Longrightarrow> \<forall>(k, x) \<in> set ms. Q x \<Longrightarrow> Q v"
proof (induction n arbitrary: s v r acc ms)
  case 0
  {
    case 1
    then show ?case by simp
  next
    case 2
    then show ?case by simp
  next
    case 3
    then show ?case by simp
  }
next
  case (Suc n)
  {
    case 1
    have "h_const h t = Inr v \<Longrightarrow> Q v" for t
      using h by (auto simp: hooks_give_def)
    moreover have "h_pairs h [] = Inr v \<Longrightarrow> Q v"
      using h unfolding hooks_give_def by (metis empty_iff list.set(1))
    ultimately have "h_pairs h [] = Inr v \<Longrightarrow> Q v" "h_const h t = Inr v \<Longrightarrow> Q v" for t
      by blast+
    with 1 Q Suc.IH(2) [of "[]"] Suc.IH(3) [of "[]"] p_number_gives [OF h] show ?case
      by (auto simp: p_value.simps(2) Let_def split: if_splits option.splits list.splits)
  next
    case 2
    then obtain x q where "p_value h n s = Inr (x, q)"
      by (auto simp: p_elems.simps(2) Let_def split: if_splits)
    with 2 Q(4) Suc.IH(1) Suc.IH(2) [of "acc @ [x]"] show ?case
      by (auto simp: p_elems.simps(2) Let_def split: if_splits)
  next
    case 3
    then obtain k q x p where x: "scan_string (tl s) = Some (k, q)"
      "p_value h n (skip_ws (tl (skip_ws q))) = Inr (x, p)"
      by (auto simp: p_members.simps(2) Let_def split: if_splits option.splits)
    have ms: "\<forall>(k, x) \<in> set (ms @ [(k, x)]). Q x"
      using 3(2) Suc.IH(1) [OF x(2)] by auto
    have "h_pairs h (ms @ [(k, x)]) = Inr v \<Longrightarrow> Q v"
      using h ms unfolding hooks_give_def by blast
    with 3(1) x Suc.IH(3) [OF _ ms] show ?case
      by (auto simp: p_members.simps(2) Let_def split: if_splits)
  }
qed

lemma json_loads_gives:
  assumes "hooks_give Q h" and "Q JNull" "\<And>b. Q (JBool b)" "\<And>s. Q (JStr s)"
    "\<And>xs. \<forall>x \<in> set xs. Q x \<Longrightarrow> Q (JList xs)" and "json_loads h t = Inr v"
  shows "Q v"
proof -
  from assms(6) obtain r where "p_value h (2 * length t + 2) (skip_ws t) = Inr (v, r)"
    by (auto simp: json_loads_def split: if_splits)
  then show ?thesis using p_gives(1) [where Q = Q, OF assms(1-5)] by blast
qed

definition hooks_raise :: "(exn \<Rightarrow> bool) \<Rightarrow> hooks \<Rightarrow> bool" where
  "hooks_raise E h \<longleftrightarrow>
     E JSONDecodeError \<and> (\<forall>m. E (ValueError m)) \<and> (\<forall>t e. h_float h t = Inl e \<longrightarrow> E e) \<and>
     (\<forall>t e. h_const h t = Inl e \<longrightarrow> E e) \<and> (\<forall>d e. h_pairs h d = Inl e \<longrightarrow> E e)"

lemma p_number_raises: "hooks_raise E h \<Longrightarrow> p_number h s = Inl e \<Longrightarrow> E e"
  by (auto simp: p_number_def hooks_raise_def Let_def ebind_Inl split: if_splits prod.splits)

lemma p_raises:
  assumes h: "hooks_raise E h"
  shows "p_value h n s = Inl e \<Longrightarrow> E e"
    and "p_elems h n acc s = Inl e \<Longrightarrow> E e"
    and "p_members h n ms s = Inl e \<Longrightarrow> E e"
proof (induction n arbitrary: s acc ms)
  case 0
  {
    case 1
    then show ?case using h by (simp add: hooks_raise_def)
  next
    case 2
    then show ?case using h by (simp add: hooks_raise_def)
  next
    case 3
    then show ?case using h by (simp add: hooks_raise_def)
  }
next
  case (Suc n)
  have E: "E JSONDecodeError" "h_pairs h d = Inl e \<Longrightarrow> E e" "h_const h t = Inl e \<Longrightarrow> E e" for d t
    using h by (auto simp: hooks_raise_def)
  {
    case 1
    with E Suc.IH(2,3) p_number_raises [OF h] show ?case
      by (auto simp: p_value.simps(2) Let_def ebind_Inl split: if_splits option.splits list.splits)
  next
    case 2
    with E Suc.IH(1,2) show ?case
      by (auto simp: p_elems.simps(2) Let_def ebind_Inl split: if_splits)
  next
    case 3
    with E Suc.IH(1,3) show ?case
      by (auto simp: p_members.simps(2) Let_def ebind_Inl split: if_splits option.splits)
  }
qed

lemma json_loads_raises:
  assumes "hooks_raise E h" and "json_loads h t = Inl e"
  shows "E e"
  using assms p_raises(1) [OF assms(1), of "2 * length t + 2" "skip_ws t" e]
  by (auto simp: json_loads_def ebind_Inl hooks_raise_def split: if_splits prod.splits)

end
