(* ===== verification/S6_Storage.thy ===== *)
theory S6_Storage
  imports S6_Json
begin

text \<open>
  \<^verbatim>\<open>Deployment/service_storage.py\<close>: the bounded JSON reader that every component uses at its
  trust boundary, and the guarded reads and writes of private files. \<open>nfc\<close> stands for
  \<^verbatim>\<open>unicodedata.normalize('NFC', s)\<close> and \<open>flt\<close> for \<^verbatim>\<open>float(text)\<close>, shown by its \<^verbatim>\<open>repr\<close>,
  \<open>None\<close> when it is not finite.
\<close>

section \<open>The strict reader\<close>

datatype jinput = TextIn ustr | BytesIn bytes | OtherIn

definition max_portable :: int where
  "max_portable = 2 ^ 53 - 1"

text \<open>The scan that bounds container depth before anything is parsed; \<open>False\<close> is the raise.\<close>

fun depth_scan :: "int \<Rightarrow> bool \<Rightarrow> bool \<Rightarrow> ustr \<Rightarrow> bool" where
  "depth_scan depth quoted escaped [] = True"
| "depth_scan depth quoted escaped (c # s) =
     (if quoted then
        (if escaped then depth_scan depth quoted False s
         else if c = 92 then depth_scan depth quoted True s
         else if c = 34 then depth_scan depth False escaped s
         else depth_scan depth quoted escaped s)
      else if c = 34 then depth_scan depth True escaped s
      else if c = 91 \<or> c = 123 then
        (if 17 < depth + 1 then False else depth_scan (depth + 1) quoted escaped s)
      else if c = 93 \<or> c = 125 then depth_scan (depth - 1) quoted escaped s
      else depth_scan depth quoted escaped s)"

definition strict_pairs :: "(ustr \<times> pyval) list \<Rightarrow> pyval res" where
  "strict_pairs items =
     ebind (efold (\<lambda>(k, v) result.
              if map_of result k \<noteq> None then Inl (ValueError ''duplicate JSON field'')
              else Inr (dset k v result)) items [])
       (\<lambda>d. Inr (JObj d))"

definition reject :: "ustr \<Rightarrow> pyval res" where
  "reject raw = Inl (ValueError ''noninteger JSON number'')"

definition measurement :: "(ustr \<Rightarrow> ustr option) \<Rightarrow> ustr \<Rightarrow> pyval res" where
  "measurement flt raw =
     (case flt raw of None \<Rightarrow> Inl (ValueError ''nonfinite JSON measurement'') | Some r \<Rightarrow> Inr (JFloat r))"

definition measurement_integer :: "int \<Rightarrow> pyval" where
  "measurement_integer v = (if 2 ^ 53 \<le> v \<and> v \<le> 2 ^ 64 - 1 then JStr (show_int v) else JInt v)"

definition strict_hooks :: "(ustr \<Rightarrow> ustr option) \<Rightarrow> bool \<Rightarrow> bool \<Rightarrow> hooks" where
  "strict_hooks flt floats uint64 =
     \<lparr>h_int = (if uint64 then measurement_integer else JInt),
      h_float = (if floats then measurement flt else reject),
      h_const = reject,
      h_pairs = strict_pairs\<rparr>"

definition bounded_str :: "(ustr \<Rightarrow> ustr) \<Rightarrow> nat \<Rightarrow> ustr \<Rightarrow> unit res" where
  "bounded_str nfc string_limit s =
     ebind (utf8_encode s) (\<lambda>b.
       raise_if (length b > string_limit \<or> 0 \<in> set s \<or> nfc s \<noteq> s) (ValueError ''JSON string limit''))"

text \<open>The nested function \<^verbatim>\<open>bounded\<close>; a key is visited like a string one level down.\<close>

fun bounded :: "(ustr \<Rightarrow> ustr) \<Rightarrow> nat \<Rightarrow> nat \<Rightarrow> pyval \<Rightarrow> unit res" where
  "bounded nfc string_limit depth v =
     (if 16 < depth then Inl (ValueError ''JSON nesting limit'')
      else
        (case v of
           JInt i \<Rightarrow> raise_if (\<not> (- max_portable \<le> i \<and> i \<le> max_portable)) (ValueError ''JSON integer limit'')
         | JStr s \<Rightarrow> bounded_str nfc string_limit s
         | JObj d \<Rightarrow>
             each (\<lambda>(k, child).
               ebind (if 16 < depth + 1 then Inl (ValueError ''JSON nesting limit'')
                      else bounded_str nfc string_limit k)
                 (\<lambda>_. bounded nfc string_limit (depth + 1) child)) d
         | JList xs \<Rightarrow> each (bounded nfc string_limit (depth + 1)) xs
         | _ \<Rightarrow> Inr ()))"

declare bounded.simps [simp del]

definition catch_unicode :: "'a res \<Rightarrow> string \<Rightarrow> 'a res" where
  "catch_unicode m msg = (case m of Inl (UnicodeError _) \<Rightarrow> Inl (ValueError msg) | _ \<Rightarrow> m)"

lemma catch_unicode_Inr [simp]: "catch_unicode m msg = Inr x \<longleftrightarrow> m = Inr x"
  by (auto simp: catch_unicode_def split: sum.splits exn.splits)

lemma catch_unicode_Inl:
  "catch_unicode m msg = Inl e \<Longrightarrow> e = ValueError msg \<or> (m = Inl e \<and> (\<forall>u. e \<noteq> UnicodeError u))"
  by (auto simp: catch_unicode_def split: sum.splits exn.splits)

definition strict_json ::
  "(ustr \<Rightarrow> ustr) \<Rightarrow> (ustr \<Rightarrow> ustr option) \<Rightarrow> int \<Rightarrow> int \<Rightarrow> bool \<Rightarrow> bool \<Rightarrow> jinput \<Rightarrow> pyval res" where
  "strict_json nfc flt limit string_limit floats uint64 data =
     ebind (raise_if (data = OtherIn) (ValueError ''JSON input must be text or bytes'')) (\<lambda>_.
     ebind (raise_if (limit < 1) (ValueError ''invalid JSON input limit'')) (\<lambda>_.
     ebind (raise_if (\<not> (1 \<le> string_limit \<and> string_limit \<le> 16 * 1024 * 1024))
             (ValueError ''invalid JSON string limit'')) (\<lambda>_.
     ebind (raise_if (uint64 \<and> \<not> floats)
             (ValueError ''uint64 string conversion requires explicit measurement policy'')) (\<lambda>_.
     ebind (catch_unicode
             (case data of TextIn t \<Rightarrow> ebind (utf8_encode t) (\<lambda>b. Inr (length b))
              | BytesIn b \<Rightarrow> Inr (length b) | OtherIn \<Rightarrow> Inr 0)
             ''invalid bounded JSON'') (\<lambda>size.
     ebind (raise_if (limit < int size) (ValueError ''JSON input size limit'')) (\<lambda>_.
     ebind (catch_unicode
             (case data of TextIn t \<Rightarrow> Inr t | BytesIn b \<Rightarrow> utf8_decode b | OtherIn \<Rightarrow> Inr [])
             ''JSON must be UTF-8'') (\<lambda>t.
     ebind (raise_if (\<not> depth_scan 0 False False t) (ValueError ''JSON nesting limit'')) (\<lambda>_.
     catch_unicode
       (ebind (json_loads (strict_hooks flt floats uint64) t) (\<lambda>value.
          ebind (bounded nfc (nat string_limit) 0 value) (\<lambda>_. Inr value)))
       ''invalid bounded JSON''))))))))"


text \<open>\<^verbatim>\<open>portable_json(data, limit=...)\<close>, the form every other component imports.\<close>

definition portable_json :: "(ustr \<Rightarrow> ustr) \<Rightarrow> int \<Rightarrow> jinput \<Rightarrow> pyval res" where
  "portable_json nfc limit data = strict_json nfc (\<lambda>_. None) limit 65536 False False data"

section \<open>What the reader accepts\<close>

text \<open>A document: no float, and every object with distinct keys.\<close>

fun json_doc :: "pyval \<Rightarrow> bool" where
  "json_doc (JFloat r) = False"
| "json_doc (JList xs) = list_all json_doc xs"
| "json_doc (JObj d) = (distinct (map fst d) \<and> list_all (\<lambda>(k, v). json_doc v) d)"
| "json_doc _ = True"

lemma bounded_list:
  "bounded nfc sl k (JList xs) = Inr () \<longleftrightarrow> k \<le> 16 \<and> (\<forall>x \<in> set xs. bounded nfc sl (k + 1) x = Inr ())"
  by (subst bounded.simps) auto

lemma bounded_obj:
  "bounded nfc sl k (JObj d) = Inr () \<longleftrightarrow>
     k \<le> 16 \<and> (\<forall>(key, v) \<in> set d. k < 16 \<and> bounded_str nfc sl key = Inr () \<and> bounded nfc sl (k + 1) v = Inr ())"
  by (subst bounded.simps) (auto simp: case_prod_beta split: if_splits)

lemma bounded_atoms:
  "bounded nfc sl k (JInt i) = Inr () \<longleftrightarrow> k \<le> 16 \<and> - max_portable \<le> i \<and> i \<le> max_portable"
  "bounded nfc sl k (JStr s) = Inr () \<longleftrightarrow> k \<le> 16 \<and> bounded_str nfc sl s = Inr ()"
  "bounded nfc sl k JNull = Inr () \<longleftrightarrow> k \<le> 16"
  "bounded nfc sl k (JBool b) = Inr () \<longleftrightarrow> k \<le> 16"
  "bounded nfc sl k (JFloat r) = Inr () \<longleftrightarrow> k \<le> 16"
  by (simp_all add: bounded.simps [of nfc sl k "JInt i"] bounded.simps [of nfc sl k "JStr s"]
      bounded.simps [of nfc sl k JNull] bounded.simps [of nfc sl k "JBool b"]
      bounded.simps [of nfc sl k "JFloat r"] not_less)

lemmas bounded_iff = bounded_list bounded_obj bounded_atoms

lemma bounded_str_scalars: "bounded_str nfc sl s = Inr u \<Longrightarrow> scalars s"
  by (auto simp: bounded_str_def utf8_encode_def split: if_splits)

lemma length_show_nat: "n < 10 ^ k \<Longrightarrow> 0 < k \<Longrightarrow> length (show_nat n) \<le> k"
proof (induction n arbitrary: k rule: show_nat.induct)
  case (1 n)
  show ?case
  proof (cases "n < 10")
    case True
    with "1.prems" show ?thesis by (subst show_nat.simps) simp
  next
    case False
    with "1.prems" obtain j where k: "k = Suc j" "0 < j"
      by (cases k; cases "k - 1") auto
    have "n div 10 < 10 ^ j"
      using "1.prems" k by (simp add: less_mult_imp_div_less mult.commute)
    with "1.IH" [OF False] k(2) have "length (show_nat (n div 10)) \<le> j" by blast
    with False k show ?thesis by (subst show_nat.simps) simp
  qed
qed

lemma portable_int_short:
  assumes "- max_portable \<le> i" "i \<le> max_portable"
  shows "length (show_nat (nat \<bar>i\<bar>)) \<le> 4300"
proof -
  have "nat \<bar>i\<bar> < 10 ^ 16"
    using assms by (auto simp: max_portable_def)
  then have "length (show_nat (nat \<bar>i\<bar>)) \<le> 16" by (rule length_show_nat) simp
  then show ?thesis by simp
qed

lemma bounded_jv_ok: "json_doc v \<Longrightarrow> bounded nfc sl k v = Inr () \<Longrightarrow> jv_ok v"
proof (induction v arbitrary: k)
  case (JInt i)
  then show ?case by (simp add: bounded_iff portable_int_short)
next
  case (JStr s)
  then show ?case by (auto simp: bounded_iff dest: bounded_str_scalars)
next
  case (JList xs)
  then show ?case by (auto simp: bounded_iff list_all_iff)
next
  case (JObj d)
  then show ?case by (fastforce simp: bounded_iff list_all_iff dest: bounded_str_scalars)
qed simp_all

lemma bounded_jnorm: "bounded nfc sl k (jnorm v) = Inr () \<longleftrightarrow> bounded nfc sl k v = Inr ()"
proof (induction v arbitrary: k)
  case (JObj d)
  then show ?case by (fastforce simp: bounded_iff sort_key_map)
qed (auto simp: bounded_iff)

section \<open>The depth scan passes canonical text\<close>

fun cdepth :: "pyval \<Rightarrow> nat" where
  "cdepth (JList xs) = Suc (fold max (map cdepth xs) 0)"
| "cdepth (JObj d) = Suc (fold max (map (\<lambda>(k, v). cdepth v) d) 0)"
| "cdepth _ = 0"

lemma fold_max_le: "fold max ns (m :: nat) \<le> b \<longleftrightarrow> m \<le> b \<and> (\<forall>n \<in> set ns. n \<le> b)"
  by (induction ns arbitrary: m) auto

lemma bounded_cdepth: "bounded nfc sl k v = Inr () \<Longrightarrow> k + cdepth v \<le> 17"
proof (induction v arbitrary: k)
  case (JList xs)
  have "cdepth x \<le> 16 - k" if "x \<in> set xs" for x
  proof -
    have "k + 1 + cdepth x \<le> 17"
      using JList.IH [OF that, of "k + 1"] JList.prems that by (auto simp: bounded_iff)
    then show ?thesis by linarith
  qed
  moreover have "k \<le> 16" using JList.prems by (simp add: bounded_iff)
  ultimately show ?case using fold_max_le [of "map cdepth xs" 0 "16 - k"] by auto
next
  case (JObj d)
  have "cdepth v \<le> 16 - k" if "(key, v) \<in> set d" for key v
  proof -
    have "k + 1 + cdepth v \<le> 17"
      using JObj.IH [OF that, of v "k + 1"] JObj.prems that by (auto simp: bounded_iff)
    then show ?thesis by linarith
  qed
  moreover have "k \<le> 16" using JObj.prems by (simp add: bounded_iff)
  ultimately show ?case using fold_max_le [of "map (\<lambda>(k, v). cdepth v) d" 0 "16 - k"] by auto
qed (simp_all add: bounded_iff)


lemma depth_scan_plain:
  "\<forall>c \<in> set s. c \<notin> {34, 91, 93, 123, 125} \<Longrightarrow> depth_scan d False e (s @ r) = depth_scan d False e r"
  by (induction s) auto

lemma depth_scan_quoted_plain:
  "\<forall>c \<in> set s. c \<notin> {34, 92} \<Longrightarrow> depth_scan d True False (s @ r) = depth_scan d True False r"
  by (induction s) auto

lemma depth_scan_escape: "depth_scan d True False (u_escape c @ r) = depth_scan d True False r"
proof -
  have "hex_digit n \<noteq> 34" "hex_digit n \<noteq> 92" if "n < 16" for n
    using that by (auto simp: hex_digit_def)
  then have q: "\<forall>x \<in> set (hex_quad c). x \<notin> {34, 92}" by (auto simp: hex_quad_def)
  show ?thesis using depth_scan_quoted_plain [OF q, of d r] by (simp add: u_escape_def)
qed

lemma depth_scan_char: "depth_scan d True False (json_char c @ r) = depth_scan d True False r"
  by (simp add: json_char_def depth_scan_escape)

lemma depth_scan_string: "depth_scan d False False (json_string s @ r) = depth_scan d False False r"
proof -
  have "depth_scan d True False (concat (map json_char s) @ t) = depth_scan d True False t" for t
    by (induction s) (simp_all add: depth_scan_char)
  then show ?thesis by (simp add: json_string_def)
qed

lemma depth_scan_commas:
  assumes "\<forall>s \<in> set ss. \<forall>r. depth_scan d False False (s @ r) = depth_scan d False False r"
  shows "depth_scan d False False (commas ss @ r) = depth_scan d False False r"
  using assms by (induction ss rule: commas.induct) auto

lemma depth_scan_text:
  "jv_ok v \<Longrightarrow> d + int (cdepth v) \<le> 17 \<Longrightarrow>
     depth_scan d False False (json_text v @ r) = depth_scan d False False r"
proof (induction v arbitrary: d r)
  case (JInt i)
  have "c \<noteq> 34 \<and> c \<notin> {91, 93, 123, 125}" if "c \<in> set (show_int i)" for c
    using that show_nat_digits [of "nat i"] show_nat_digits [of "nat (- i)"]
    by (auto simp: show_int_def is_digit_def list_all_iff split: if_splits)
  then show ?case using depth_scan_plain [of "show_int i"] by auto
next
  case (JList xs)
  have b: "\<forall>x \<in> set xs. d + 1 + int (cdepth x) \<le> 17" and d: "d + 1 \<le> 17"
    using JList.prems(2) fold_max_le [of "map cdepth xs" 0 "fold max (map cdepth xs) 0"] by force+
  have "depth_scan (d + 1) False False (json_text x @ r) = depth_scan (d + 1) False False r"
    if "x \<in> set xs" for x r
    using JList that b by (auto simp: list_all_iff)
  then have "depth_scan (d + 1) False False (commas (map json_text xs) @ t) = depth_scan (d + 1) False False t" for t
    by (intro depth_scan_commas) auto
  with d show ?case by simp
next
  case (JObj kvs)
  let ?ms = "map member_text (sort_key fst kvs)"
  have b: "\<forall>(k, v) \<in> set kvs. d + 1 + int (cdepth v) \<le> 17" and d: "d + 1 \<le> 17"
    using JObj.prems(2) fold_max_le [of "map (\<lambda>(k, v). cdepth v) kvs" 0 "fold max (map (\<lambda>(k, v). cdepth v) kvs) 0"]
    by force+
  have "depth_scan (d + 1) False False (json_text v @ r) = depth_scan (d + 1) False False r"
    if "(k, v) \<in> set kvs" for k v r
    using JObj.IH [OF that, of v "d + 1" r] JObj.prems that b by (auto simp: list_all_iff)
  then have "depth_scan (d + 1) False False (member_text p @ r) = depth_scan (d + 1) False False r"
    if "p \<in> set kvs" for p r
    using that by (cases p) (simp add: member_text_def depth_scan_string)
  then have "depth_scan (d + 1) False False (commas ?ms @ t) = depth_scan (d + 1) False False t" for t
    by (intro depth_scan_commas) auto
  with d show ?case by (simp add: json_text_obj del: json_text.simps)
next
  case (JStr s)
  then show ?case by (simp add: depth_scan_string)
qed (auto simp: asc_def)

section \<open>Round trip\<close>

lemma strict_pairs_distinct: "distinct (map fst d) \<Longrightarrow> strict_pairs d = Inr (JObj d)"
proof -
  let ?f = "\<lambda>(k, v) result. if map_of result k \<noteq> None then Inl (ValueError ''duplicate JSON field'')
                         else Inr (dset k v result)"
  have "efold ?f d acc = Inr (acc @ d)" if "distinct (map fst (acc @ d))" for acc
    using that
  proof (induction d arbitrary: acc)
    case (Cons p d)
    then have "map_of acc (fst p) = None" by (auto simp: map_of_eq_None_iff)
    with Cons.IH [of "acc @ [p]"] Cons.prems show ?case
      by (cases p) (auto simp: dset_new)
  qed simp
  from this [of "[]"] show "distinct (map fst d) \<Longrightarrow> strict_pairs d = Inr (JObj d)"
    by (simp add: strict_pairs_def)
qed

lemma plain_strict_hooks: "plain_hooks (strict_hooks flt floats False)"
  by (simp add: plain_hooks_def strict_hooks_def strict_pairs_distinct)

lemma strict_json_roundtrip:
  assumes "json_doc v" and "bounded nfc (nat sl) 0 v = Inr ()"
    and "int (length (json_text v)) \<le> limit" and "1 \<le> limit" and "1 \<le> sl" and "sl \<le> 16777216"
  shows "strict_json nfc flt limit sl False False (BytesIn (map bt (json_text v))) = Inr (jnorm v)"
proof -
  have ok: "jv_ok v" using assms(1,2) by (rule bounded_jv_ok)
  have a: "ascii (json_text v)" using ok by (rule ascii_json_text)
  have dec: "utf8_decode (map bt (json_text v)) = Inr (json_text v)"
    using utf8_encode_ascii [OF a] by (rule utf8_decode_encode)
  have "0 + int (cdepth v) \<le> 17" using bounded_cdepth [OF assms(2)] by simp
  from depth_scan_text [OF ok this, of "[]"] have sc: "depth_scan 0 False False (json_text v)" by simp
  have ld: "json_loads (strict_hooks flt False False) (json_text v) = Inr (jnorm v)"
    using plain_strict_hooks ok by (rule json_loads_text)
  have bd: "bounded nfc (nat sl) 0 (jnorm v) = Inr ()" using assms(2) by (simp add: bounded_jnorm)
  show ?thesis
    using assms(3-6) by (simp add: strict_json_def catch_unicode_def dec sc ld bd)
qed


section \<open>The contract of the reader\<close>

lemma strict_pairs_gives:
  assumes "strict_pairs items = Inr v" and "\<forall>p \<in> set items. json_doc (snd p)"
  shows "json_doc v"
proof -
  let ?f = "\<lambda>(k, v) result. if map_of result k \<noteq> None then Inl (ValueError ''duplicate JSON field'')
                         else Inr (dset k v result)"
  let ?I = "\<lambda>d. dict_ok d \<and> (\<forall>p \<in> set d. json_doc (snd p))"
  obtain d where d: "efold ?f items [] = Inr d" and v: "v = JObj d"
    using assms(1) by (auto simp: strict_pairs_def)
  have step: "?I t" if "p \<in> set items" "?I s" "?f p s = Inr t" for p s t
  proof -
    obtain k x where p: "p = (k, x)" by (cases p)
    with that assms(2) have "json_doc x" "map_of s k = None" "t = s @ [(k, x)]"
      by (auto simp: dset_new split: if_splits)
    with that(2) show ?thesis by (auto simp: dict_ok_def map_of_eq_None_iff)
  qed
  have "?I d" by (rule efold_invariant [OF d]) (simp, rule step)
  then show ?thesis using v by (auto simp: dict_ok_def list_all_iff)
qed

lemma hooks_give_doc: "hooks_give json_doc (strict_hooks flt False False)"
  using strict_pairs_gives by (fastforce simp: hooks_give_def strict_hooks_def reject_def)

lemma strict_pairs_raises: "strict_pairs items = Inl e \<Longrightarrow> is_value_error e"
proof -
  have "efold (\<lambda>(k, v) result.
              if map_of result k \<noteq> None then Inl (ValueError ''duplicate JSON field'')
              else Inr (dset k v result)) items acc = Inl e \<Longrightarrow> is_value_error e" for acc
    by (induction items arbitrary: acc) (auto simp: ebind_Inl split: if_splits)
  then show "strict_pairs items = Inl e \<Longrightarrow> is_value_error e"
    by (auto simp: strict_pairs_def ebind_Inl)
qed

lemma hooks_raise_value_error: "hooks_raise is_value_error (strict_hooks flt floats uint64)"
  using strict_pairs_raises
  by (auto simp: hooks_raise_def strict_hooks_def reject_def measurement_def split: option.splits)

lemma bounded_str_raises: "bounded_str nfc sl s = Inl e \<Longrightarrow> is_value_error e"
  by (auto simp: bounded_str_def ebind_Inl utf8_encode_def split: if_splits)

lemma each_Inl: "each f xs = Inl e \<Longrightarrow> \<exists>x \<in> set xs. f x = Inl e"
  by (induction xs) (auto simp: ebind_Inl)

lemma bounded_raises: "bounded nfc sl k v = Inl e \<Longrightarrow> is_value_error e"
proof (induction v arbitrary: k)
  case (JList xs)
  then show ?case
    by (subst (asm) (2) bounded.simps) (auto dest!: each_Inl split: if_splits)
next
  case (JObj d)
  then show ?case
    by (subst (asm) (2) bounded.simps)
       (fastforce dest!: each_Inl bounded_str_raises simp: ebind_Inl split: if_splits)
qed (subst (asm) bounded.simps, auto dest: bounded_str_raises split: if_splits)+

lemma strict_json_accepts:
  assumes "strict_json nfc flt limit sl False False data = Inr v"
  shows "json_doc v \<and> bounded nfc (nat sl) 0 v = Inr ()"
proof -
  from assms obtain t where t: "json_loads (strict_hooks flt False False) t = Inr v"
    and b: "bounded nfc (nat sl) 0 v = Inr ()"
    by (auto simp: strict_json_def)
  have "json_doc v"
    by (rule json_loads_gives [OF hooks_give_doc _ _ _ _ t]) (auto simp: list_all_iff)
  with b show ?thesis by simp
qed

lemma strict_json_value_error:
  assumes "strict_json nfc flt limit sl floats uint64 data = Inl e"
  shows "is_value_error e"
proof -
  have u: "utf8_encode s = Inl x \<Longrightarrow> is_value_error x" "utf8_decode bs = Inl x \<Longrightarrow> is_value_error x"
    for s bs x
    by (auto simp: utf8_encode_def utf8_decode_def split: if_splits option.splits)
  have c: "catch_unicode m msg = Inl x \<Longrightarrow> (\<And>y. m = Inl y \<Longrightarrow> is_value_error y) \<Longrightarrow> is_value_error x"
    for m :: "'a res" and msg x
    by (auto dest: catch_unicode_Inl)
  from assms show ?thesis
    unfolding strict_json_def ebind_Inl raise_if_Inl
    by (elim disjE exE conjE)
       (auto elim!: c u json_loads_raises [OF hooks_raise_value_error] bounded_raises
         simp: ebind_Inl split: jinput.splits)
qed

section \<open>Properties\<close>

text \<open>C11. A document within the reader's bounds, written in canonical JSON, is read back as itself with
  its objects sorted by key.\<close>

theorem strict_reader_roundtrip:
  assumes "json_doc v" "bounded nfc (nat sl) 0 v = Inr ()" "int (length (json_text v)) \<le> limit"
    and "1 \<le> limit" "1 \<le> sl" "sl \<le> 16777216"
  shows "strict_json nfc flt limit sl False False (BytesIn (map bt (json_text v))) = Inr (jnorm v)"
  using assms by (rule strict_json_roundtrip)

theorem strict_reader_roundtrip_witness:
  "strict_json id (\<lambda>_. None) 100 65536 False False (BytesIn (map bt (json_text (JObj [([98], JInt 1), ([97], JNull)])))) =
     Inr (JObj [([97], JNull), ([98], JInt 1)])"
proof -
  have "bounded id (nat 65536) 0 (JObj [([98], JInt 1), ([97], JNull)]) = Inr ()"
    by (simp add: bounded_iff bounded_str_def utf8_encode_def is_scalar_def is_surrogate_def utf8_char_def utf8_units_def
        max_portable_def raise_if_def)
  then show ?thesis
    using strict_reader_roundtrip [of "JObj [([98], JInt 1), ([97], JNull)]" id 65536 100 "\<lambda>_. None"]
    by (simp add: json_string_def json_char_def show_int_def show_nat.simps)
qed


end
