(* ===== verification/S6_Files.thy ===== *)
theory S6_Files
  imports S6_Prelude
begin

text \<open>
  The guarded reads of configuration and key files, and the atomic replacement of state
  files. A call's view of the file system is the list of results its system calls return:
  \<open>lstat\<close> before the open, \<open>fstat\<close> after it, further \<open>lstat\<close> calls, the bytes of each
  \<^verbatim>\<open>os.read\<close> and the closing \<open>fstat\<close>. Sources: \<^verbatim>\<open>Deployment/service_storage.py\<close>
  (\<open>private_read\<close>, \<open>private_directory\<close>, \<open>atomic_write\<close>),
  \<^verbatim>\<open>Network-Adapter/shadow6_network.py\<close> (\<open>bounded_owned_text\<close>, \<open>load_key\<close>),
  \<^verbatim>\<open>Public6/virtual_broker.py\<close> (\<open>bounded_file\<close>) and \<^verbatim>\<open>Public6/join_code.py\<close>
  (\<open>private_file\<close>).
\<close>

section \<open>File status\<close>

record fstat =
  st_dev :: nat
  st_ino :: nat
  st_mode :: nat
  st_uid :: nat
  st_nlink :: nat
  st_size :: nat
  st_mtime_ns :: nat
  st_ctime_ns :: nat

definition s_isreg :: "fstat \<Rightarrow> bool" where
  "s_isreg s \<longleftrightarrow> st_mode s div 4096 mod 16 = 8"

definition s_isdir :: "fstat \<Rightarrow> bool" where
  "s_isdir s \<longleftrightarrow> st_mode s div 4096 mod 16 = 4"

definition s_islnk :: "fstat \<Rightarrow> bool" where
  "s_islnk s \<longleftrightarrow> st_mode s div 4096 mod 16 = 10"

definition s_imode :: "fstat \<Rightarrow> nat" where
  "s_imode s = st_mode s mod 4096"

text \<open>\<open>0o600\<close>: read and write for the owner, nothing else.\<close>

abbreviation owner_rw :: nat where
  "owner_rw \<equiv> 384"

text \<open>
  What one guarded read sees. \<open>os_read off n\<close> is the result of an \<^verbatim>\<open>os.read(fd, n)\<close> at
  offset \<open>off\<close>: at most \<open>n\<close> bytes, none at the end of the file.
\<close>

record fview =
  before :: fstat
  opened :: fstat
  relinked :: fstat
  os_read :: "nat \<Rightarrow> nat \<Rightarrow> bytes"
  after :: fstat
  final :: fstat

section \<open>The five guarded reads\<close>

text \<open>\<^verbatim>\<open>private_read\<close>: the read loop asks for at most 64 KiB at a time until the end of the file or one byte past the limit.\<close>

function read_loop :: "(nat \<Rightarrow> nat \<Rightarrow> bytes) \<Rightarrow> nat \<Rightarrow> bytes \<Rightarrow> bytes" where
  "read_loop rd limit data =
     (if length data \<le> limit then
        (let part = rd (length data) (min 65536 (limit + 1 - length data)) in
         if part = [] then data else read_loop rd limit (data @ part))
      else data)"
  by pat_completeness auto
termination
  by (relation "measure (\<lambda>(rd, limit, data). Suc limit - length data)")
     (auto simp: Let_def intro: diff_less_mono2)

declare read_loop.simps [simp del]

definition private_read :: "nat \<Rightarrow> nat \<Rightarrow> fview \<Rightarrow> bytes res" where
  "private_read euid limit v =
     (if \<not> s_isreg (opened v) \<or> before v \<noteq> opened v \<or> relinked v \<noteq> opened v
         \<or> st_uid (opened v) \<noteq> euid \<or> s_imode (opened v) \<noteq> owner_rw
         \<or> st_nlink (opened v) \<noteq> 1 \<or> limit < st_size (opened v)
      then Inl (ValueError ''private file requires stable owner-controlled regular file, mode 0600 and bounded size'')
      else
        (let data = read_loop (os_read v) limit [] in
         if limit < length data \<or> length data \<noteq> st_size (opened v) \<or> opened v \<noteq> after v \<or> opened v \<noteq> final v
         then Inl (ValueError ''private file changed or exceeded limit'')
         else Inr data))"

definition bounded_owned_bytes :: "nat \<Rightarrow> nat \<Rightarrow> fview \<Rightarrow> bytes res" where
  "bounded_owned_bytes euid maximum v =
     (if \<not> s_isreg (before v) \<or> s_islnk (before v) \<or> st_uid (before v) \<noteq> euid \<or> maximum < st_size (before v)
      then Inl (ValueError ''configuration must be a bounded owned regular file'')
      else
        (let data = os_read v 0 (maximum + 1) in
         if before v \<noteq> opened v \<or> opened v \<noteq> after v \<or> maximum < length data
         then Inl (ValueError ''configuration changed while reading'')
         else Inr data))"

definition bounded_owned_text :: "nat \<Rightarrow> nat \<Rightarrow> fview \<Rightarrow> ustr res" where
  "bounded_owned_text euid maximum v = ebind (bounded_owned_bytes euid maximum v) utf8_decode"

definition load_key :: "nat \<Rightarrow> fview \<Rightarrow> bytes res" where
  "load_key euid v =
     (if \<not> s_isreg (before v) \<or> s_islnk (before v) \<or> st_uid (before v) \<noteq> euid
         \<or> s_imode (before v) \<noteq> owner_rw \<or> st_size (before v) \<noteq> 32
      then Inl (PermissionError ''adapter key must be an owned 32-byte mode-0600 regular file'')
      else
        (let data = os_read v 0 33 in
         if opened v \<noteq> before v \<or> after v \<noteq> opened v \<or> length data \<noteq> 32
         then Inl (PermissionError ''adapter key changed while reading'')
         else Inr data))"

definition bounded_file :: "nat \<Rightarrow> nat \<Rightarrow> bool \<Rightarrow> fview \<Rightarrow> bytes res" where
  "bounded_file euid maximum secret v =
     (if \<not> s_isreg (before v) \<or> s_islnk (before v) \<or> st_uid (before v) \<noteq> euid
         \<or> maximum < st_size (before v) \<or> (secret \<and> s_imode (before v) \<noteq> owner_rw)
      then Inl (ValueError ''unsafe configuration or secret file'')
      else
        (let data = os_read v 0 (maximum + 1) in
         if before v \<noteq> opened v \<or> opened v \<noteq> after v \<or> maximum < length data
         then Inl (ValueError ''file changed while reading'')
         else Inr data))"

definition private_file :: "nat \<Rightarrow> nat \<Rightarrow> fview \<Rightarrow> bytes res" where
  "private_file euid limit v =
     (if \<not> s_isreg (before v) \<or> st_nlink (before v) \<noteq> 1 \<or> st_uid (before v) \<noteq> euid
         \<or> s_imode (before v) \<noteq> owner_rw \<or> limit < st_size (before v)
      then Inl (ValueError ''profile must be an owner-only regular file'')
      else
        (let data = os_read v 0 (limit + 1) in
         if before v \<noteq> opened v \<or> opened v \<noteq> after v \<or> limit < length data
         then Inl (ValueError ''profile changed while reading'')
         else Inr data))"

section \<open>The contract of a guarded read\<close>

text \<open>
  What every caller relies on: the bytes come from a regular file of the effective user that
  was the same file, unchanged, from the first \<open>lstat\<close> to the last \<open>fstat\<close>, and they are
  within the bound.
\<close>

locale guarded_read =
  fixes rd :: "nat \<Rightarrow> fview \<Rightarrow> bytes res" and limit :: nat
  assumes rd_regular: "rd euid v = Inr data \<Longrightarrow> s_isreg (opened v)"
    and rd_owner: "rd euid v = Inr data \<Longrightarrow> st_uid (opened v) = euid"
    and rd_stable: "rd euid v = Inr data \<Longrightarrow> before v = opened v \<and> after v = opened v"
    and rd_bounded: "rd euid v = Inr data \<Longrightarrow> length data \<le> limit"
begin

lemma not_symlink: "rd euid v = Inr data \<Longrightarrow> \<not> s_islnk (before v)"
  using rd_regular rd_stable by (force simp: s_isreg_def s_islnk_def)

lemma same_inode:
  "rd euid v = Inr data \<Longrightarrow>
     st_dev (before v) = st_dev (after v) \<and> st_ino (before v) = st_ino (after v)"
  using rd_stable by metis

lemma foreign_refused: "st_uid (opened v) \<noteq> euid \<Longrightarrow> \<exists>e. rd euid v = Inl e"
  using rd_owner by (cases "rd euid v") auto

lemma swapped_refused: "before v \<noteq> after v \<Longrightarrow> \<exists>e. rd euid v = Inl e"
  using rd_stable by (cases "rd euid v") auto

end

interpretation private_rd: guarded_read "\<lambda>euid v. private_read euid limit v" limit for limit
  by unfold_locales (auto simp: private_read_def Let_def split: if_splits)

interpretation owned_rd: guarded_read "\<lambda>euid v. bounded_owned_bytes euid limit v" limit for limit
  by unfold_locales (auto simp: bounded_owned_bytes_def Let_def split: if_splits)

interpretation key_rd: guarded_read load_key 32
  by unfold_locales (auto simp: load_key_def Let_def split: if_splits)

interpretation broker_rd: guarded_read "\<lambda>euid v. bounded_file euid limit secret v" limit
  for limit secret
  by unfold_locales (auto simp: bounded_file_def Let_def split: if_splits)

interpretation profile_rd: guarded_read "\<lambda>euid v. private_file euid limit v" limit for limit
  by unfold_locales (auto simp: private_file_def Let_def split: if_splits)

lemma read_loop_bound:
  assumes "\<And>off n. length (rd off n) \<le> n" and "length data \<le> limit + 1"
  shows "length (read_loop rd limit data) \<le> limit + 1"
  using assms
proof (induction rd limit data rule: read_loop.induct)
  case (1 rd limit data)
  let ?part = "rd (length data) (min 65536 (limit + 1 - length data))"
  show ?case
  proof (cases "length data \<le> limit \<and> ?part \<noteq> []")
    case True
    have "length ?part \<le> limit + 1 - length data"
      using "1.prems"(1) [of "length data" "min 65536 (limit + 1 - length data)"] by simp
    with True have "length data + length ?part \<le> limit + 1" by linarith
    with True "1.IH" "1.prems" show ?thesis
      by (subst read_loop.simps) (simp add: Let_def)
  next
    case False
    with "1.prems" show ?thesis by (subst read_loop.simps) (auto simp: Let_def)
  qed
qed

text \<open>
  On a file whose content does not change, any sequence of short reads collects exactly the
  content, as long as it fits.
\<close>

lemma read_loop_content:
  assumes short: "\<And>off n. off < length c \<Longrightarrow> 0 < n \<Longrightarrow> \<exists>m. 0 < m \<and> m \<le> n \<and> rd off n = take m (drop off c)"
    and eof: "\<And>off n. length c \<le> off \<Longrightarrow> rd off n = []"
    and "length c \<le> limit" and "k \<le> length c"
  shows "read_loop rd limit (take k c) = c"
  using assms(4)
proof (induction "length c - k" arbitrary: k rule: less_induct)
  case less
  show ?case
  proof (cases "k = length c")
    case True
    with eof [of "length c"] assms(3) show ?thesis
      by (subst read_loop.simps) simp
  next
    case False
    with less.prems have k: "k < length c" by simp
    let ?n = "min 65536 (limit + 1 - k)"
    obtain m where m: "0 < m" "rd k ?n = take m (drop k c)"
      using short [OF k, of ?n] k assms(3) by auto
    let ?k = "min (k + m) (length c)"
    have app: "take k c @ take m (drop k c) = take ?k c"
      by (simp add: take_add [symmetric] min_def)
    have "read_loop rd limit (take ?k c) = c"
      using m k by (intro less.hyps) auto
    moreover have "take m (drop k c) \<noteq> []" using m(1) k by simp
    ultimately show ?thesis
      using k assms(3) m app by (subst read_loop.simps) (simp add: Let_def min_absorb2)
  qed
qed

section \<open>Directories and atomic replacement\<close>

text \<open>\<^verbatim>\<open>info.st_mode & 0o022\<close>: writable by group or others.\<close>

definition group_other_writable :: "fstat \<Rightarrow> bool" where
  "group_other_writable s \<longleftrightarrow> st_mode s div 16 mod 2 = 1 \<or> st_mode s div 2 mod 2 = 1"

definition private_directory :: "nat \<Rightarrow> fstat \<Rightarrow> unit res" where
  "private_directory euid info =
     raise_if (\<not> s_isdir info \<or> st_uid info \<noteq> euid \<or> group_other_writable info)
       (ValueError ''state directory must be owner-controlled and not a symlink'')"

text \<open>
  The file system as one replacement sees it: the target, the temporary file and whether
  each is on stable storage.
\<close>

record wstate =
  target :: "bytes option"
  temp :: "bytes option"
  temp_synced :: bool
  dir_synced :: bool

datatype wop = CreateTemp | WriteTemp bytes | SyncTemp | Replace | DropTempDir | SyncDir

fun wstep :: "wop \<Rightarrow> wstate \<Rightarrow> wstate" where
  "wstep CreateTemp s = s\<lparr>temp := Some [], temp_synced := False\<rparr>"
| "wstep (WriteTemp d) s = s\<lparr>temp := map_option (\<lambda>t. t @ d) (temp s), temp_synced := False\<rparr>"
| "wstep SyncTemp s = s\<lparr>temp_synced := True\<rparr>"
| "wstep Replace s = s\<lparr>target := temp s, temp := None, dir_synced := False\<rparr>"
| "wstep DropTempDir s = s\<lparr>temp := None\<rparr>"
| "wstep SyncDir s = s\<lparr>dir_synced := True\<rparr>"

definition write_ops :: "bytes \<Rightarrow> wop list" where
  "write_ops data = [CreateTemp, WriteTemp data, SyncTemp, Replace, DropTempDir, SyncDir]"

text \<open>
  \<^verbatim>\<open>atomic_write\<close>: the checks, then the operations; an existing target must itself pass
  \<open>private_read\<close>. The result is the list of operations the call performs.
\<close>

definition atomic_write :: "nat \<Rightarrow> int \<Rightarrow> bytes \<Rightarrow> fstat \<Rightarrow> bool \<Rightarrow> fview \<Rightarrow> wop list res" where
  "atomic_write euid limit data parent there v =
     ebind (raise_if (limit < 1 \<or> limit < int (length data)) (ValueError ''state size limit'')) (\<lambda>_.
     ebind (private_directory euid parent) (\<lambda>_.
     ebind (if there then ebind (private_read euid (nat limit) v) (\<lambda>_. Inr ()) else Inr ()) (\<lambda>_.
     Inr (write_ops data))))"

lemma atomic_write_checked:
  "atomic_write euid limit data parent there v = Inr ops \<Longrightarrow>
     ops = write_ops data \<and> int (length data) \<le> limit \<and> s_isdir parent \<and> st_uid parent = euid"
  by (auto simp: atomic_write_def private_directory_def)

text \<open>Stopping after any number of operations leaves the old file or the whole new one.\<close>

lemma write_ops_atomic:
  "target (fold wstep (take n (write_ops data)) s) \<in> {target s, Some data}"
proof -
  have "n = 0 \<or> n = 1 \<or> n = 2 \<or> n = 3 \<or> n = 4 \<or> n = 5 \<or> 6 \<le> n" by arith
  then show ?thesis by (elim disjE) (simp_all add: write_ops_def numeral_eq_Suc)
qed

lemma write_ops_complete:
  "target (fold wstep (write_ops data) s) = Some data"
  "temp (fold wstep (write_ops data) s) = None"
  "dir_synced (fold wstep (write_ops data) s)"
  by (simp_all add: write_ops_def)

text \<open>The content is on stable storage before the name points to it.\<close>

lemma write_ops_synced_first:
  "take 3 (write_ops data) = [CreateTemp, WriteTemp data, SyncTemp] \<and>
   temp_synced (fold wstep (take 3 (write_ops data)) s)"
  by (simp add: write_ops_def)

section \<open>Properties\<close>

text \<open>C13. A private file that stays as it is through the call is returned whole, however the system
  splits the reads.\<close>

theorem private_read_exact:
  assumes "s_isreg st" "st_uid st = euid" "s_imode st = owner_rw" "st_nlink st = 1" "st_size st = length c" "length c \<le> limit"
    and "before v = st" "opened v = st" "relinked v = st" "after v = st" "final v = st"
    and "\<And>off n. off < length c \<Longrightarrow> 0 < n \<Longrightarrow> \<exists>m. 0 < m \<and> m \<le> n \<and> os_read v off n = take m (drop off c)"
    and "\<And>off n. length c \<le> off \<Longrightarrow> os_read v off n = []"
  shows "private_read euid limit v = Inr c"
  using assms(1-11) read_loop_content [of c "os_read v" limit 0, OF assms(12,13)]
  by (simp add: private_read_def)

definition sample_stat :: fstat where
  "sample_stat =
     \<lparr>st_dev = 1, st_ino = 2, st_mode = 33152, st_uid = 7, st_nlink = 1, st_size = 3, st_mtime_ns = 0, st_ctime_ns = 0\<rparr>"

definition sample_view :: fview where
  "sample_view =
     \<lparr>before = sample_stat, opened = sample_stat, relinked = sample_stat,
      os_read = (\<lambda>off n. take (min n 2) (drop off [1, 2, 3])), after = sample_stat, final = sample_stat\<rparr>"

theorem private_read_exact_witness: "private_read 7 10 sample_view = Inr [1, 2, 3]"
proof (rule private_read_exact [where st = sample_stat])
  show "\<exists>m. 0 < m \<and> m \<le> n \<and> os_read sample_view off n = take m (drop off [1, 2, 3])" if "0 < n" for off n
    using that by (intro exI [of _ "min n 2"]) (simp add: sample_view_def)
qed (simp_all add: sample_view_def sample_stat_def s_isreg_def s_imode_def)

text \<open>C14. A private read returns bytes only from a regular file, not a symbolic link, of the
  effective user, with mode 0600 and a single link, that was the same unchanged file before,
  during and after the read, and never more than the limit.\<close>

theorem private_read_guarded:
  assumes "private_read euid limit v = Inr data"
  shows "s_isreg (opened v) \<and> \<not> s_islnk (before v) \<and> st_uid (opened v) = euid \<and> s_imode (opened v) = owner_rw \<and>
    st_nlink (opened v) = 1 \<and> before v = opened v \<and> relinked v = opened v \<and> after v = opened v \<and> final v = opened v \<and>
    length data = st_size (opened v) \<and> length data \<le> limit"
proof -
  have "relinked v = opened v \<and> s_imode (opened v) = owner_rw \<and> st_nlink (opened v) = 1 \<and> final v = opened v \<and>
      length data = st_size (opened v)"
    using assms unfolding private_read_def Let_def by (simp split: if_splits)
  then show ?thesis
    using private_rd.not_symlink [OF assms] private_rd.rd_regular [OF assms] private_rd.rd_owner [OF assms]
      private_rd.rd_stable [OF assms] private_rd.rd_bounded [OF assms]
    by blast
qed

theorem private_read_guarded_witness:
  "private_read 7 10 sample_view = Inr [1, 2, 3] \<and> \<not> s_islnk (before sample_view) \<and> st_nlink (opened sample_view) = 1"
proof -
  have "read_loop (os_read sample_view) 10 (take 0 [1, 2, 3]) = [1, 2, 3]"
  proof (rule read_loop_content)
    show "\<exists>m. 0 < m \<and> m \<le> n \<and> os_read sample_view off n = take m (drop off [1, 2, 3])" if "0 < n" for off n
      using that by (intro exI [of _ "min n 2"]) (simp add: sample_view_def)
  qed (simp_all add: sample_view_def)
  then have r: "private_read 7 10 sample_view = Inr [1, 2, 3]"
    by (simp add: private_read_def Let_def) (simp add: sample_view_def sample_stat_def s_isreg_def s_imode_def)
  show ?thesis
    using r private_read_guarded [OF r] by blast
qed



end
