(* ===== verification/S6_Digest.thy ===== *)
theory S6_Digest
  imports S6_Prelude
begin

text \<open>
  The digests the components take from Python's \<^verbatim>\<open>hashlib\<close> and \<^verbatim>\<open>hmac\<close>: SHA-256
  (FIPS 180-4) and HMAC-SHA-256, and the hexadecimal rendering of byte strings.
\<close>

unbundle bit_operations_syntax

section \<open>SHA-256\<close>

type_synonym w32 = "32 word"

definition sha_k :: "w32 list" where
  "sha_k =
     [0x428A2F98, 0x71374491, 0xB5C0FBCF, 0xE9B5DBA5, 0x3956C25B, 0x59F111F1, 0x923F82A4, 0xAB1C5ED5,
      0xD807AA98, 0x12835B01, 0x243185BE, 0x550C7DC3, 0x72BE5D74, 0x80DEB1FE, 0x9BDC06A7, 0xC19BF174,
      0xE49B69C1, 0xEFBE4786, 0x0FC19DC6, 0x240CA1CC, 0x2DE92C6F, 0x4A7484AA, 0x5CB0A9DC, 0x76F988DA,
      0x983E5152, 0xA831C66D, 0xB00327C8, 0xBF597FC7, 0xC6E00BF3, 0xD5A79147, 0x06CA6351, 0x14292967,
      0x27B70A85, 0x2E1B2138, 0x4D2C6DFC, 0x53380D13, 0x650A7354, 0x766A0ABB, 0x81C2C92E, 0x92722C85,
      0xA2BFE8A1, 0xA81A664B, 0xC24B8B70, 0xC76C51A3, 0xD192E819, 0xD6990624, 0xF40E3585, 0x106AA070,
      0x19A4C116, 0x1E376C08, 0x2748774C, 0x34B0BCB5, 0x391C0CB3, 0x4ED8AA4A, 0x5B9CCA4F, 0x682E6FF3,
      0x748F82EE, 0x78A5636F, 0x84C87814, 0x8CC70208, 0x90BEFFFA, 0xA4506CEB, 0xBEF9A3F7, 0xC67178F2]"

definition sha_h0 :: "w32 list" where
  "sha_h0 =
     [0x6A09E667, 0xBB67AE85, 0x3C6EF372, 0xA54FF53A, 0x510E527F, 0x9B05688C, 0x1F83D9AB, 0x5BE0CD19]"

definition rotr :: "nat \<Rightarrow> w32 \<Rightarrow> w32" where
  "rotr n w = drop_bit n w OR push_bit (32 - n) w"

definition sha_schedule_step :: "w32 list \<Rightarrow> w32 list" where
  "sha_schedule_step w =
     (let t = length w; x = w ! (t - 15); y = w ! (t - 2);
          s0 = rotr 7 x XOR rotr 18 x XOR drop_bit 3 x;
          s1 = rotr 17 y XOR rotr 19 y XOR drop_bit 10 y
      in w @ [w ! (t - 16) + s0 + w ! (t - 7) + s1])"

definition sha_schedule :: "w32 list \<Rightarrow> w32 list" where
  "sha_schedule w = (sha_schedule_step ^^ 48) w"

fun sha_round :: "w32 \<times> w32 \<Rightarrow> w32 list \<Rightarrow> w32 list" where
  "sha_round (k, w) [a, b, c, d, e, f, g, h] =
     (let s1 = rotr 6 e XOR rotr 11 e XOR rotr 25 e;
          ch = (e AND f) XOR (NOT e AND g);
          t1 = h + s1 + ch + k + w;
          s0 = rotr 2 a XOR rotr 13 a XOR rotr 22 a;
          maj = (a AND b) XOR (a AND c) XOR (b AND c)
      in [t1 + s0 + maj, a, b, c, d + t1, e, f, g])"
| "sha_round kw s = s"

definition sha_compress :: "w32 list \<Rightarrow> w32 list \<Rightarrow> w32 list" where
  "sha_compress block s = map2 (+) s (fold sha_round (zip sha_k (sha_schedule block)) s)"

text \<open>Cutting a list into pieces of \<open>k\<close>; the last one may be shorter.\<close>

function pieces :: "nat \<Rightarrow> 'a list \<Rightarrow> 'a list list" where
  "pieces k xs = (if xs = [] \<or> k = 0 then [] else take k xs # pieces k (drop k xs))"
  by pat_completeness auto
termination
  by (relation "measure (\<lambda>(k, xs). length xs)") auto

declare pieces.simps [simp del]

definition sha_pad :: "bytes \<Rightarrow> bytes" where
  "sha_pad m = m @ [0x80] @ replicate ((119 - length m mod 64) mod 64) 0 @ be_encode 8 (8 * length m)"

definition w32_of_bytes :: "bytes \<Rightarrow> w32" where
  "w32_of_bytes bs = word_of_nat (be_decode bs)"

definition sha256 :: "bytes \<Rightarrow> bytes" where
  "sha256 m =
     concat (map (\<lambda>w. be_encode 4 (unat w))
       (fold sha_compress (map (\<lambda>b. map w32_of_bytes (pieces 4 b)) (pieces 64 (sha_pad m))) sha_h0))"

section \<open>HMAC-SHA-256\<close>

definition hmac_key :: "bytes \<Rightarrow> bytes" where
  "hmac_key k = (let k' = (if 64 < length k then sha256 k else k) in k' @ replicate (64 - length k') 0)"

definition hmac_sha256 :: "bytes \<Rightarrow> bytes \<Rightarrow> bytes" where
  "hmac_sha256 key msg =
     sha256 (map (\<lambda>b. b XOR 0x5C) (hmac_key key) @
       sha256 (map (\<lambda>b. b XOR 0x36) (hmac_key key) @ msg))"

section \<open>Hexadecimal\<close>

definition hexd :: "nat \<Rightarrow> nat" where
  "hexd d = (if d < 10 then 48 + d else 87 + d)"

definition to_hex :: "bytes \<Rightarrow> ustr" where
  "to_hex bs = concat (map (\<lambda>b. [hexd (unat b div 16), hexd (unat b mod 16)]) bs)"

definition sha256_hex :: "bytes \<Rightarrow> ustr" where
  "sha256_hex m = to_hex (sha256 m)"

section \<open>Sizes\<close>

lemma length_sha_round [simp]: "length (sha_round kw s) = length s"
  by (induction kw s rule: sha_round.induct) (simp_all add: Let_def)

lemma length_fold_round: "length (fold sha_round kws s) = length s"
  by (induction kws arbitrary: s) simp_all

lemma length_sha_compress [simp]: "length (sha_compress b s) = length s"
  by (simp add: sha_compress_def length_fold_round)

lemma length_fold_compress: "length (fold sha_compress bs s) = length s"
  by (induction bs arbitrary: s) simp_all

lemma length_sha256 [simp, s6_len]: "length (sha256 m) = 32"
proof -
  have "length (concat (map (\<lambda>w. be_encode 4 (unat w)) ws)) = 4 * length ws" for ws :: "w32 list"
    by (induction ws) simp_all
  then show ?thesis by (simp add: sha256_def length_fold_compress sha_h0_def)
qed

lemma length_hmac_sha256 [simp, s6_len]: "length (hmac_sha256 k m) = 32"
  by (simp add: hmac_sha256_def)

lemma length_to_hex [simp]: "length (to_hex bs) = 2 * length bs"
  by (induction bs) (simp_all add: to_hex_def)

lemma hexd_inject: "a < 16 \<Longrightarrow> b < 16 \<Longrightarrow> hexd a = hexd b \<longleftrightarrow> a = b"
  by (auto simp: hexd_def split: if_splits)

lemma to_hex_inject [simp]: "to_hex a = to_hex b \<longleftrightarrow> a = b"
proof
  show "to_hex a = to_hex b \<Longrightarrow> a = b"
  proof (induction a arbitrary: b)
    case Nil
    then show ?case by (cases b) (simp_all add: to_hex_def)
  next
    case (Cons x a)
    from Cons.prems obtain y b' where b: "b = y # b'"
      by (cases b) (simp_all add: to_hex_def)
    have lt: "unat x div 16 < 16" "unat y div 16 < 16"
      using unat_byte_less [of x] unat_byte_less [of y] by (simp_all add: less_mult_imp_div_less)
    from Cons.prems b lt have "unat x div 16 = unat y div 16" "unat x mod 16 = unat y mod 16"
      and rest: "to_hex a = to_hex b'"
      by (simp_all add: to_hex_def hexd_inject)
    then have "unat x = unat y" by (metis div_mult_mod_eq)
    then have "x = y" by (rule unsigned_word_eqI)
    with Cons.IH [OF rest] b show ?case by simp
  qed
qed simp

end
