(* ===== verification/S6_Codec.thy ===== *)
theory S6_Codec
  imports S6_Storage S6_Files S6_Digest Complex_Main
begin

text \<open>
  The first half of \<^verbatim>\<open>Network-Adapter/shadow6_network.py\<close>: the S6NA limits and core profiles,
  the portable extension payloads and the authenticated frame codec. The AEAD cipher comes from
  the third-party \<^verbatim>\<open>cryptography\<close> package and is a parameter; the key derivation and the nonce
  use the concrete HMAC and SHA-256 of \<^verbatim>\<open>S6_Digest\<close>.
\<close>

section \<open>Limits\<close>

record limits =
  max_message :: int
  max_streams :: int
  max_inflight :: int
  max_window :: int
  reassembly_seconds :: int
  max_extensions :: int
  payload_bytes :: int
  window_frames :: int

definition default_limits :: limits where
  "default_limits =
     \<lparr>max_message = 16777216, max_streams = 64, max_inflight = 16777216, max_window = 64,
      reassembly_seconds = 30, max_extensions = 16, payload_bytes = 0, window_frames = 0\<rparr>"

text \<open>Name, default, low and high, in the order of the dataclass.\<close>

definition limit_table :: "(string \<times> int \<times> int \<times> int) list" where
  "limit_table =
     [(''max_message'', 16777216, 1024, 268435456),
      (''max_streams'', 64, 1, 4096),
      (''max_inflight'', 16777216, 1024, 536870912),
      (''max_window'', 64, 1, 4096),
      (''reassembly_seconds'', 30, 1, 300),
      (''max_extensions'', 16, 0, 128),
      (''payload_bytes'', 0, 0, 65536),
      (''window_frames'', 0, 0, 4096)]"

definition limit_value :: "(ustr \<times> pyval) list \<Rightarrow> string \<times> int \<times> int \<times> int \<Rightarrow> int res" where
  "limit_value kw row =
     (case row of (name, dflt, low, high) \<Rightarrow>
        (case (case map_of kw (asc name) of None \<Rightarrow> JInt dflt | Some v \<Rightarrow> v) of
           JInt i \<Rightarrow>
             if low \<le> i \<and> i \<le> high then Inr i else Inl (ValueError (name @ '' is outside safe bounds''))
         | _ \<Rightarrow> Inl (ValueError (name @ '' is outside safe bounds''))))"

fun limit_values :: "(ustr \<times> pyval) list \<Rightarrow> (string \<times> int \<times> int \<times> int) list \<Rightarrow> int list res" where
  "limit_values kw [] = Inr []"
| "limit_values kw (row # rows) =
     ebind (limit_value kw row) (\<lambda>i. ebind (limit_values kw rows) (\<lambda>is. Inr (i # is)))"

definition limits_of :: "int list \<Rightarrow> limits" where
  "limits_of xs =
     \<lparr>max_message = xs ! 0, max_streams = xs ! 1, max_inflight = xs ! 2, max_window = xs ! 3,
      reassembly_seconds = xs ! 4, max_extensions = xs ! 5, payload_bytes = xs ! 6,
      window_frames = xs ! 7\<rparr>"

text \<open>\<^verbatim>\<open>Limits(**kw)\<close> with its \<^verbatim>\<open>__post_init__\<close>.\<close>

definition limits_init :: "(ustr \<times> pyval) list \<Rightarrow> limits res" where
  "limits_init kw =
     ebind (raise_if (\<not> set (map fst kw) \<subseteq> set (map (asc \<circ> fst) limit_table))
             (TypeError ''unexpected keyword argument'')) (\<lambda>_.
     ebind (limit_values kw limit_table) (\<lambda>xs.
       let l = limits_of xs in
       ebind (raise_if (max_inflight l < max_message l) (ValueError ''max_inflight must cover max_message'')) (\<lambda>_.
       ebind (raise_if (payload_bytes l \<noteq> 0 \<and> payload_bytes l < 64)
               (ValueError ''payload_bytes is outside safe bounds'')) (\<lambda>_.
       Inr l))))"

definition limits_of_json :: "pyval \<Rightarrow> limits res" where
  "limits_of_json value =
     (case value of
        JObj d \<Rightarrow>
          if set (map fst d) \<noteq> {asc ''schema'', asc ''limits''}
             \<or> map_of d (asc ''schema'') \<noteq> Some (JStr (asc ''shadow6.s6na-limits.v1''))
          then Inl (ValueError ''unknown S6NA limits schema or field'')
          else
            (case map_of d (asc ''limits'') of
               Some (JObj l) \<Rightarrow>
                 if set (map fst l) \<subseteq> set (map (asc \<circ> fst) limit_table) then limits_init l
                 else Inl (ValueError ''unknown S6NA limit'')
             | _ \<Rightarrow> Inl (ValueError ''unknown S6NA limit''))
      | _ \<Rightarrow> Inl (ValueError ''unknown S6NA limits schema or field''))"

definition load_limits :: "(ustr \<Rightarrow> ustr) \<Rightarrow> nat \<Rightarrow> fview option \<Rightarrow> limits res" where
  "load_limits nfc euid source =
     (case source of
        None \<Rightarrow> Inr default_limits
      | Some v \<Rightarrow>
          ebind (case ebind (bounded_owned_text euid 16384 v) (\<lambda>t. portable_json nfc 65536 (TextIn t)) of
                   Inl (UnicodeError _) \<Rightarrow> Inl (ValueError ''invalid S6NA limits JSON'')
                 | Inl JSONDecodeError \<Rightarrow> Inl (ValueError ''invalid S6NA limits JSON'')
                 | r \<Rightarrow> r)
            limits_of_json)"

text \<open>What a constructed \<open>Limits\<close> object guarantees.\<close>

definition limits_ok :: "limits \<Rightarrow> bool" where
  "limits_ok l \<longleftrightarrow>
     1024 \<le> max_message l \<and> max_message l \<le> 268435456 \<and> 1 \<le> max_streams l \<and> max_streams l \<le> 4096 \<and>
     1024 \<le> max_inflight l \<and> max_inflight l \<le> 536870912 \<and> 1 \<le> max_window l \<and> max_window l \<le> 4096 \<and>
     1 \<le> reassembly_seconds l \<and> reassembly_seconds l \<le> 300 \<and> 0 \<le> max_extensions l \<and>
     max_extensions l \<le> 128 \<and> 0 \<le> payload_bytes l \<and> payload_bytes l \<le> 65536 \<and>
     0 \<le> window_frames l \<and> window_frames l \<le> 4096 \<and> max_message l \<le> max_inflight l \<and>
     (payload_bytes l = 0 \<or> 64 \<le> payload_bytes l)"

section \<open>Profiles\<close>

record policy =
  pmode :: string
  ppayload :: int
  pwindow :: int
  preason :: string

definition policies :: "(string \<times> policy) list" where
  "policies =
     [(''go'', \<lparr>pmode = ''native'', ppayload = 65536, pwindow = 64,
        preason = ''KCP stack already presents a stream''\<rparr>),
      (''rust'', \<lparr>pmode = ''native'', ppayload = 65536, pwindow = 64,
        preason = ''QUIC stack already presents a stream''\<rparr>),
      (''zig'', \<lparr>pmode = ''native'', ppayload = 32768, pwindow = 64,
        preason = ''ENet provides reliable fragmentation''\<rparr>),
      (''ada'', \<lparr>pmode = ''native'', ppayload = 448, pwindow = 32,
        preason = ''native authenticated cell relay is independently deployable''\<rparr>),
      (''d'', \<lparr>pmode = ''native'', ppayload = 1200, pwindow = 32,
        preason = ''native authenticated broker/agent/client secure stream''\<rparr>),
      (''nim'', \<lparr>pmode = ''native'', ppayload = 16384, pwindow = 64,
        preason = ''WebRTC data channel provides message transport''\<rparr>),
      (''cpp'', \<lparr>pmode = ''native'', ppayload = 32768, pwindow = 64,
        preason = ''SCTP provides ordered reliable delivery''\<rparr>),
      (''pony'', \<lparr>pmode = ''native'', ppayload = 960, pwindow = 32,
        preason = ''native bounded authenticated datagrams are independently deployable''\<rparr>),
      (''hare'', \<lparr>pmode = ''native'', ppayload = 896, pwindow = 16,
        preason = ''native bounded authenticated proxy is independently deployable''\<rparr>),
      (''carp'', \<lparr>pmode = ''native'', ppayload = 960, pwindow = 16,
        preason = ''native bounded authenticated UDP path is independently deployable''\<rparr>),
      (''gleam'', \<lparr>pmode = ''native'', ppayload = 4096, pwindow = 32,
        preason = ''native authenticated broker/agent/client secure stream''\<rparr>),
      (''idris'', \<lparr>pmode = ''native'', ppayload = 1024, pwindow = 32,
        preason = ''native authenticated UDP agent/client relay''\<rparr>)]"

definition profiles :: "(string \<times> policy) list" where
  "profiles = policies @ [(''gleam-mux'', \<lparr>pmode = ''companion'', ppayload = 1100, pwindow = 64,
        preason = ''Micro-Mux UDP: bounded ACK/retry, deduplication and reassembly; no availability guarantee''\<rparr>)]"

definition profile_name :: "string \<Rightarrow> string option \<Rightarrow> string res" where
  "profile_name core transport =
     (case transport of
        None \<Rightarrow> Inr core
      | Some t \<Rightarrow>
          if core \<notin> {''gleam'', ''gleam-mux''} \<or> t \<notin> {''secure-stream'', ''micro-mux''}
          then Inl (ValueError ''unsupported core transport selection'')
          else if core = ''gleam-mux'' \<and> t \<noteq> ''micro-mux''
          then Inl (ValueError ''conflicting Gleam mode'')
          else Inr (if t = ''micro-mux'' then ''gleam-mux'' else ''gleam''))"

section \<open>Extension payloads\<close>

text \<open>\<^verbatim>\<open>_portable\<close>: the nested \<^verbatim>\<open>validate\<close>, then the canonical bytes.\<close>

definition portable_str :: "ustr \<Rightarrow> unit res" where
  "portable_str s =
     ebind (utf8_encode s) (\<lambda>b. raise_if (1024 < length b) (ValueError ''extension string is oversized''))"

fun portable_value :: "nat \<Rightarrow> pyval \<Rightarrow> unit res" where
  "portable_value depth item =
     (if 8 < depth then Inl (ValueError ''extension nesting exceeds 8'')
      else
        (case item of
           JNull \<Rightarrow> Inr ()
         | JBool _ \<Rightarrow> Inr ()
         | JStr s \<Rightarrow> portable_str s
         | JInt i \<Rightarrow>
             raise_if (\<not> (- max_portable \<le> i \<and> i \<le> max_portable))
               (ValueError ''extension integer is not portable'')
         | JList xs \<Rightarrow>
             if 64 < length xs then Inl (ValueError ''extension array is oversized'')
             else each (portable_value (depth + 1)) xs
         | JObj d \<Rightarrow>
             if 64 < length d then Inl (ValueError ''extension object is invalid'')
             else
               each (\<lambda>(k, child).
                 ebind (if 8 < depth + 1 then Inl (ValueError ''extension nesting exceeds 8'') else portable_str k)
                   (\<lambda>_. portable_value (depth + 1) child)) d
         | JFloat _ \<Rightarrow> Inl (ValueError ''extension contains a nonportable value'')))"

declare portable_value.simps [simp del]

definition portable_payload :: "pyval \<Rightarrow> bytes res" where
  "portable_payload value =
     ebind (portable_value 0 value) (\<lambda>_.
     ebind (json_bytes value) (\<lambda>raw.
     if 4096 < length raw then Inl (ValueError ''extension payload exceeds 4 KiB'') else Inr raw))"

section \<open>The frame codec\<close>

record aead =
  aead_encrypt :: "bytes \<Rightarrow> bytes \<Rightarrow> bytes \<Rightarrow> bytes \<Rightarrow> bytes"
  aead_decrypt :: "bytes \<Rightarrow> bytes \<Rightarrow> bytes \<Rightarrow> bytes \<Rightarrow> bytes option"

text \<open>
  What the cipher's documentation promises of key, nonce, text and associated data:
  decryption inverts encryption, accepts nothing else, and the tag adds 16 bytes.
\<close>

definition aead_ok :: "aead \<Rightarrow> bool" where
  "aead_ok a \<longleftrightarrow>
     (\<forall>k n p ad. aead_decrypt a k n (aead_encrypt a k n p ad) ad = Some p) \<and>
     (\<forall>k n c p ad. aead_decrypt a k n c ad = Some p \<longrightarrow> c = aead_encrypt a k n p ad) \<and>
     (\<forall>k n p ad. length (aead_encrypt a k n p ad) = length p + 16)"

datatype kind = DATA | ACK | EXTENSION

definition kind_byte :: "kind \<Rightarrow> nat" where
  "kind_byte k = (case k of DATA \<Rightarrow> 1 | ACK \<Rightarrow> 2 | EXTENSION \<Rightarrow> 3)"

definition byte_kind :: "nat \<Rightarrow> kind option" where
  "byte_kind b = (if b = 1 then Some DATA else if b = 2 then Some ACK else if b = 3 then Some EXTENSION else None)"

record codec =
  tx :: bytes
  rx :: bytes
  cpayload :: nat
  cstreams :: nat

record frame =
  fkind :: kind
  fstream :: nat
  fmessage :: nat
  findex :: nat
  fcount :: nat
  fpayload :: bytes

definition derive :: "bytes \<Rightarrow> nat \<Rightarrow> bytes" where
  "derive key direction = hmac_sha256 key (map bt (asc ''shadow6-network-v1:'') @ [bt direction])"

definition codec_init :: "bytes \<Rightarrow> int \<Rightarrow> nat \<Rightarrow> int \<Rightarrow> codec res" where
  "codec_init key pl side ms =
     ebind (raise_if (length key \<noteq> 32) (ValueError ''adapter key must be 32 bytes'')) (\<lambda>_.
     ebind (raise_if (\<not> (64 \<le> pl \<and> pl \<le> 65536)) (ValueError ''invalid adapter payload'')) (\<lambda>_.
     ebind (raise_if (side \<notin> {0, 1}) (ValueError ''adapter side must be 0 or 1'')) (\<lambda>_.
     ebind (raise_if (\<not> (1 \<le> ms \<and> ms \<le> 4096)) (ValueError ''invalid stream limit'')) (\<lambda>_.
     Inr \<lparr>tx = derive key side, rx = derive key (1 - side), cpayload = nat pl, cstreams = nat ms\<rparr>))))"

definition frame_nonce :: "bytes \<Rightarrow> bytes" where
  "frame_nonce header = take 12 (sha256 (map bt (asc ''shadow6-network-nonce-v1'') @ header))"

definition magic :: bytes where
  "magic = [0x53, 0x36, 0x4E, 0x41]"

text \<open>\<^verbatim>\<open>HEADER.pack\<close> of \<^verbatim>\<open>"!4sBBHQQHHI"\<close>: 32 bytes.\<close>

definition pack_header :: "nat \<Rightarrow> nat \<Rightarrow> nat \<Rightarrow> nat \<Rightarrow> nat \<Rightarrow> nat \<Rightarrow> bytes" where
  "pack_header knd stream message index count len =
     magic @ be_encode 1 1 @ be_encode 1 knd @ be_encode 2 0 @ be_encode 8 stream @
     be_encode 8 message @ be_encode 2 index @ be_encode 2 count @ be_encode 4 len"

definition encode_frame :: "aead \<Rightarrow> codec \<Rightarrow> frame \<Rightarrow> bytes res" where
  "encode_frame a c f =
     (if \<not> (fstream f < cstreams c) \<or> \<not> (fmessage f < 2 ^ 64)
      then Inl (ValueError ''invalid frame identity'')
      else if cpayload c < length (fpayload f) \<or> \<not> (1 \<le> fcount f \<and> fcount f \<le> 65535) \<or> \<not> findex f < fcount f
      then Inl (ValueError ''invalid frame bounds'')
      else
        (let header = pack_header (kind_byte (fkind f)) (fstream f) (fmessage f) (findex f) (fcount f)
                        (length (fpayload f))
         in Inr (header @ aead_encrypt a (tx c) (frame_nonce header) (fpayload f) header)))"

definition field :: "nat \<Rightarrow> nat \<Rightarrow> bytes \<Rightarrow> nat" where
  "field off n bs = be_decode (take n (drop off bs))"

definition decode_frame :: "aead \<Rightarrow> codec \<Rightarrow> bytes \<Rightarrow> frame res" where
  "decode_frame a c wire =
     (if \<not> (32 + 16 \<le> length wire \<and> length wire \<le> 32 + cpayload c + 16)
      then Inl (ValueError ''invalid frame size'')
      else
        (let header = take 32 wire; ciphertext = drop 32 wire;
             version = field 4 1 header; knd = byte_kind (field 5 1 header); reserved = field 6 2 header;
             stream = field 8 8 header; message = field 16 8 header; index = field 24 2 header;
             count = field 26 2 header; len = field 28 4 header
         in if take 4 header \<noteq> magic \<or> version \<noteq> 1 \<or> reserved \<noteq> 0 \<or> knd = None \<or> len \<noteq> length ciphertext - 16
            then Inl (ValueError ''invalid frame header'')
            else if cstreams c \<le> stream \<or> count < 1 \<or> count \<le> index
            then Inl (ValueError ''invalid frame fields'')
            else
              (case aead_decrypt a (rx c) (frame_nonce header) ciphertext header of
                 None \<Rightarrow> Inl (ValueError ''frame authentication failed'')
               | Some p \<Rightarrow>
                   if knd = Some ACK \<and> p \<noteq> [] then Inl (ValueError ''invalid acknowledgment'')
                   else Inr \<lparr>fkind = the knd, fstream = stream, fmessage = message, findex = index,
                             fcount = count, fpayload = p\<rparr>)))"

section \<open>Limits are within their absolute caps\<close>

lemma limit_value_bounds:
  "limit_value kw (n, d, lo, hi) = Inr i \<Longrightarrow> lo \<le> i \<and> i \<le> hi"
  by (auto simp: limit_value_def split: pyval.splits option.splits if_splits)

lemma limits_init_ok:
  assumes "limits_init kw = Inr l"
  shows "limits_ok l"
  using assms
  by (auto simp: limits_init_def limit_table_def Let_def limits_of_def limits_ok_def
      dest!: limit_value_bounds)

lemma default_limits_init: "limits_init [] = Inr default_limits"
  by (simp add: limits_init_def limit_table_def limit_value_def limits_of_def default_limits_def raise_if_def)

lemma default_limits_ok: "limits_ok default_limits"
  by (simp add: limits_ok_def default_limits_def)

lemma limits_of_json_ok: "limits_of_json value = Inr l \<Longrightarrow> limits_ok l"
  by (auto simp: limits_of_json_def intro: limits_init_ok
      split: pyval.splits option.splits if_splits)

lemma load_limits_ok:
  assumes "load_limits nfc euid source = Inr l"
  shows "limits_ok l"
proof (cases source)
  case None
  then show ?thesis
    using assms default_limits_ok by (simp add: load_limits_def)
next
  case (Some v)
  then obtain js where "limits_of_json js = Inr l"
    using assms by (auto simp: load_limits_def)
  then show ?thesis
    by (rule limits_of_json_ok)
qed

section \<open>Frames on the wire\<close>

lemma length_magic [simp]: "length magic = 4"
  by (simp add: magic_def)

lemma length_pack_header [simp]: "length (pack_header k s m i c l) = 32"
  by (simp add: pack_header_def)

lemma field_here: "length pre = off \<Longrightarrow> length mid = n \<Longrightarrow> field off n (pre @ mid @ post) = be_decode mid"
  by (simp add: field_def)

definition mirror :: "codec \<Rightarrow> codec \<Rightarrow> bool" where
  "mirror c d \<longleftrightarrow> rx d = tx c \<and> cpayload d = cpayload c \<and> cstreams d = cstreams c \<and>
     cpayload c \<le> 65536 \<and> cstreams c \<le> 4096"

definition frame_ok :: "frame \<Rightarrow> bool" where
  "frame_ok f \<longleftrightarrow> (fkind f = ACK \<longrightarrow> fpayload f = [])"

lemma codec_init_mirror:
  assumes "codec_init key p s m = Inr c" and "codec_init key p (1 - s) m = Inr d"
  shows "mirror c d \<and> mirror d c"
  using assms by (auto simp: codec_init_def mirror_def)

lemma byte_kind_byte [simp]: "byte_kind (kind_byte k) = Some k"
  by (cases k) (auto simp: byte_kind_def kind_byte_def)

lemma byte_kind_Some: "byte_kind b = Some k \<longleftrightarrow> b = kind_byte k"
  by (cases k) (auto simp: byte_kind_def kind_byte_def split: if_splits)

lemma kind_byte_less: "kind_byte k < 256"
  by (cases k) (auto simp: kind_byte_def)

lemma be_decode_single [simp]: "be_decode [b] = unat b"
  using be_decode_snoc [of "[]" b] by simp

lemma pack_header_fields:
  assumes "k < 256" "s < 2 ^ 64" "m < 2 ^ 64" "i < 65536" "c < 65536" "l < 2 ^ 32"
  defines "h \<equiv> pack_header k s m i c l"
  shows "take 4 h = magic" "field 4 1 h = 1" "field 5 1 h = k" "field 6 2 h = 0" "field 8 8 h = s"
    "field 16 8 h = m" "field 24 2 h = i" "field 26 2 h = c" "field 28 4 h = l"
  using assms by (simp_all add: pack_header_def field_def be_decode_encode unat_of_nat)

lemma pack_header_unpack:
  assumes "length h = 32" "take 4 h = magic" "field 4 1 h = 1" "field 6 2 h = 0"
  shows "h = pack_header (field 5 1 h) (field 8 8 h) (field 16 8 h) (field 24 2 h) (field 26 2 h) (field 28 4 h)"
proof -
  have enc: "off + n \<le> 32 \<Longrightarrow> be_encode n (field off n h) = take n (drop off h)" for off n
    using assms(1) by (simp add: field_def be_encode_decode)
  have cut: "take n (drop off h) @ drop (off + n) h = drop off h" for off n
    by (metis append_take_drop_id drop_drop add.commute)
  have "h = take 4 h @ drop 4 h" by simp
  also have "drop 4 h = take 1 (drop 4 h) @ take 1 (drop 5 h) @ take 2 (drop 6 h) @ take 8 (drop 8 h) @
      take 8 (drop 16 h) @ take 2 (drop 24 h) @ take 2 (drop 26 h) @ take 4 (drop 28 h)"
    using cut [of 1 4] cut [of 1 5] cut [of 2 6] cut [of 8 8] cut [of 8 16] cut [of 2 24] cut [of 2 26] assms(1)
    by simp
  finally show ?thesis
    using assms enc [of 4 1] enc [of 5 1] enc [of 6 2] enc [of 8 8] enc [of 16 8] enc [of 24 2] enc [of 26 2] enc [of 28 4]
    by (simp add: pack_header_def)
qed

lemma decode_encode_frame:
  assumes "aead_ok ci" "mirror c d" "frame_ok f" "encode_frame ci c f = Inr w"
  shows "decode_frame ci d w = Inr f"
proof -
  define h where "h = pack_header (kind_byte (fkind f)) (fstream f) (fmessage f) (findex f) (fcount f) (length (fpayload f))"
  have b: "fstream f < cstreams c" "fmessage f < 2 ^ 64" "length (fpayload f) \<le> cpayload c"
    "1 \<le> fcount f" "fcount f \<le> 65535" "findex f < fcount f"
    and w: "w = h @ aead_encrypt ci (tx c) (frame_nonce h) (fpayload f) h"
    using assms(4) by (auto simp: encode_frame_def h_def Let_def split: if_splits)
  have m: "rx d = tx c" "cpayload d = cpayload c" "cstreams d = cstreams c" "cpayload c \<le> 65536" "cstreams c \<le> 4096"
    using assms(2) by (auto simp: mirror_def)
  have f: "take 4 h = magic" "field 4 1 h = 1" "field 5 1 h = kind_byte (fkind f)" "field 6 2 h = 0"
    "field 8 8 h = fstream f" "field 16 8 h = fmessage f" "field 24 2 h = findex f" "field 26 2 h = fcount f"
    "field 28 4 h = length (fpayload f)"
    unfolding h_def by (rule pack_header_fields; use b m kind_byte_less in simp)+
  have a: "aead_decrypt ci (tx c) (frame_nonce h) (aead_encrypt ci (tx c) (frame_nonce h) (fpayload f) h) h = Some (fpayload f)"
    "length (aead_encrypt ci (tx c) (frame_nonce h) (fpayload f) h) = length (fpayload f) + 16"
    using assms(1) by (auto simp: aead_ok_def)
  have l: "length h = 32" by (simp add: h_def)
  show ?thesis
    using b m f a l assms(3) by (simp add: decode_frame_def w Let_def frame_ok_def)
qed

lemma encode_decode_frame:
  assumes "aead_ok ci" "mirror c d" "decode_frame ci d w = Inr f"
  shows "encode_frame ci c f = Inr w \<and> frame_ok f"
proof -
  define h ct where "h = take 32 w" and "ct = drop 32 w"
  have l: "length h = 32" "length ct \<le> cpayload d + 16" "16 \<le> length ct" and w: "w = h @ ct"
    using assms(3) by (auto simp: decode_frame_def h_def ct_def split: if_splits)
  have g: "take 4 h = magic" "field 4 1 h = 1" "field 6 2 h = 0"
    "field 28 4 h = length ct - 16" "field 8 8 h < cstreams d" "1 \<le> field 26 2 h" "field 24 2 h < field 26 2 h"
    and k: "field 5 1 h = kind_byte (fkind f)" and ok: "frame_ok f"
    and fs: "fstream f = field 8 8 h" "fmessage f = field 16 8 h" "findex f = field 24 2 h" "fcount f = field 26 2 h"
    and dec: "aead_decrypt ci (rx d) (frame_nonce h) ct h = Some (fpayload f)"
    using assms(3)
    by (auto simp: decode_frame_def Let_def frame_ok_def byte_kind_Some simp flip: h_def ct_def
        split: if_splits option.splits)
  have ct: "ct = aead_encrypt ci (rx d) (frame_nonce h) (fpayload f) h"
    using assms(1) dec unfolding aead_ok_def by blast
  have lp: "length ct = length (fpayload f) + 16"
    unfolding ct using assms(1) by (simp add: aead_ok_def)
  have lt: "field off n h < 256 ^ n" if "off + n \<le> 32" for off n
    using be_decode_less [of "take n (drop off h)"] that l(1) by (simp add: field_def)
  have h: "h = pack_header (kind_byte (fkind f)) (fstream f) (fmessage f) (findex f) (fcount f) (length (fpayload f))"
    using pack_header_unpack [OF l(1) g(1-3)] fs k g(4) lp by simp
  have "fstream f < cstreams c" "fmessage f < 2 ^ 64" "length (fpayload f) \<le> cpayload c"
    "1 \<le> fcount f" "fcount f \<le> 65535" "findex f < fcount f"
    using g fs lt [of 16 8] lt [of 26 2] l(2) lp assms(2) by (simp_all add: mirror_def)
  then have "encode_frame ci c f = Inr (h @ aead_encrypt ci (tx c) (frame_nonce h) (fpayload f) h)"
    by (simp add: encode_frame_def Let_def flip: h)
  then show ?thesis
    using ok ct w assms(2) by (simp add: mirror_def)
qed

section \<open>The contract of a wire codec\<close>

text \<open>
  What a sender and a receiver rely on, whatever the format: the decoder inverts the encoder,
  and accepts nothing but the encoder's output. \<open>trusted\<close> is what the pair assumes of its
  setting (keys that match, a cipher that keeps its promise).
\<close>

locale wire_codec =
  fixes trusted :: bool and ok :: "'m \<Rightarrow> bool"
    and enc :: "'m \<Rightarrow> bytes res" and dec :: "bytes \<Rightarrow> 'm res"
  assumes dec_enc: "trusted \<Longrightarrow> ok m \<Longrightarrow> enc m = Inr w \<Longrightarrow> dec w = Inr m"
    and enc_dec: "trusted \<Longrightarrow> dec w = Inr m \<Longrightarrow> enc m = Inr w \<and> ok m"
begin

lemma enc_inject: "trusted \<Longrightarrow> ok m \<Longrightarrow> ok n \<Longrightarrow> enc m = Inr w \<Longrightarrow> enc n = Inr w \<Longrightarrow> m = n"
  by (metis dec_enc sum.inject(2))

lemma dec_inject: "trusted \<Longrightarrow> dec v = Inr m \<Longrightarrow> dec w = Inr m \<Longrightarrow> v = w"
  by (metis enc_dec sum.inject(2))

lemma dec_iff: "trusted \<Longrightarrow> dec w = Inr m \<longleftrightarrow> ok m \<and> enc m = Inr w"
  using dec_enc enc_dec by blast

end

interpretation s6na: wire_codec "aead_ok ci \<and> mirror c d" frame_ok "encode_frame ci c" "decode_frame ci d"
  for ci c d
  by unfold_locales (blast intro: decode_encode_frame, blast dest: encode_decode_frame)

lemma encode_frame_total:
  assumes "fstream f < cstreams c" "fmessage f < 2 ^ 64" "length (fpayload f) \<le> cpayload c"
    "1 \<le> fcount f" "fcount f \<le> 65535" "findex f < fcount f"
  shows "\<exists>w. encode_frame ci c f = Inr w"
  using assms by (simp add: encode_frame_def Let_def)

lemma decode_frame_bounds:
  assumes "decode_frame ci c w = Inr f"
  shows "fstream f < cstreams c" "fmessage f < 2 ^ 64" "1 \<le> fcount f" "fcount f \<le> 65535" "findex f < fcount f"
proof -
  define h where "h = take 32 w"
  have l: "length h = 32"
    using assms by (auto simp: decode_frame_def h_def split: if_splits)
  have lt: "field off n h < 256 ^ n" if "off + n \<le> 32" for off n
    using be_decode_less [of "take n (drop off h)"] that l by (simp add: field_def)
  have "fstream f < cstreams c \<and> fmessage f = field 16 8 h \<and> 1 \<le> fcount f \<and> fcount f = field 26 2 h
      \<and> findex f < fcount f"
    using assms by (auto simp: decode_frame_def Let_def simp flip: h_def split: if_splits option.splits)
  then show "fstream f < cstreams c" "fmessage f < 2 ^ 64" "1 \<le> fcount f" "fcount f \<le> 65535" "findex f < fcount f"
    using lt [of 16 8] lt [of 26 2] by simp_all
qed

lemma ack_encodes:
  assumes "decode_frame ci c w = Inr f"
  shows "\<exists>v. encode_frame ci c (f\<lparr>fkind := ACK, fpayload := []\<rparr>) = Inr v"
  using decode_frame_bounds [OF assms] by (intro encode_frame_total) simp_all

end
