(* ===== verification/S6_Adapter.thy ===== *)
theory S6_Adapter
  imports S6_Codec
begin

text \<open>
  The second half of \<^verbatim>\<open>Network-Adapter/shadow6_network.py\<close>: \<open>ReliableAdapter\<close> and the packet
  loop of \<open>DatagramEndpoint\<close>. An operation takes the adapter and the value \<^verbatim>\<open>self.clock()\<close> returns
  during the call, and gives its result or exception together with the adapter it leaves behind,
  so the state after a raise is visible. Times are exact rationals in seconds. The lock of
  \<^verbatim>\<open>_synchronized\<close> makes every operation one step.
\<close>

section \<open>State\<close>

record sent_frame =
  swire :: bytes
  sdeadline :: rat
  sattempts :: nat
  ssize :: nat
  ssent :: rat
  sretried :: bool

record queued =
  qmessage :: nat
  qdata :: bytes
  qindex :: nat
  qcount :: nat

record reassembly =
  rcount :: nat
  rparts :: "(nat \<times> bytes) list"
  rbytes :: int
  rdeadline :: rat

record adapter =
  alimits :: limits
  apolicy :: policy
  acodec :: codec
  extensions :: "ustr list"
  next_message :: "nat list"
  pending :: "((nat \<times> nat \<times> nat) \<times> sent_frame) list"
  queues :: "queued list list"
  active_streams :: "nat list"
  incoming :: "((nat \<times> nat) \<times> reassembly) list"
  incoming_bytes :: int
  buffered :: int
  completed :: "(nat \<times> nat) set"
  completed_order :: "(nat \<times> nat) list"
  outgoing :: "((nat \<times> nat) \<times> int \<times> int) list"
  srtt :: "(rat \<times> rat) option"
  rto :: rat
  closed :: bool

definition adapter_init ::
  "string \<Rightarrow> bytes \<Rightarrow> nat \<Rightarrow> ustr list \<Rightarrow> limits option \<Rightarrow> string option \<Rightarrow> adapter res" where
  "adapter_init core key side exts lims transport =
     ebind (profile_name core transport) (\<lambda>core.
     (case map_of profiles core of
        None \<Rightarrow> Inl (ValueError ''core has no safely established adapter profile'')
      | Some pol \<Rightarrow>
          let l = (case lims of None \<Rightarrow> default_limits | Some l \<Rightarrow> l) in
          ebind (raise_if (core = ''gleam-mux'' \<and> ppayload pol < payload_bytes l)
                  (ValueError ''Micro-Mux payload exceeds conservative MTU profile'')) (\<lambda>_.
          ebind (codec_init key (if payload_bytes l = 0 then ppayload pol else payload_bytes l) side (max_streams l)) (\<lambda>c.
          ebind (raise_if (max_extensions l < int (length (remdups exts))
                           \<or> list_ex (\<lambda>x. x = [] \<or> 64 < length x) exts)
                  (ValueError ''invalid extension allowlist'')) (\<lambda>_.
          Inr \<lparr>alimits = l, apolicy = pol, acodec = c, extensions = remdups exts,
               next_message = replicate (nat (max_streams l)) 0, pending = [],
               queues = replicate (nat (max_streams l)) [], active_streams = [], incoming = [],
               incoming_bytes = 0, buffered = 0, completed = {}, completed_order = [], outgoing = [],
               srtt = None, rto = 1 / 5, closed = False\<rparr>)))))"

lemma adapter_init_Inr:
  assumes "adapter_init core key side exts lims transport = Inr a"
  obtains core' pol l c where "map_of profiles core' = Some pol"
    "l = (case lims of None \<Rightarrow> default_limits | Some l \<Rightarrow> l)"
    "codec_init key (if payload_bytes l = 0 then ppayload pol else payload_bytes l) side (max_streams l) = Inr c"
    "a = \<lparr>alimits = l, apolicy = pol, acodec = c, extensions = remdups exts,
               next_message = replicate (nat (max_streams l)) 0, pending = [],
               queues = replicate (nat (max_streams l)) [], active_streams = [], incoming = [],
               incoming_bytes = 0, buffered = 0, completed = {}, completed_order = [], outgoing = [],
               srtt = None, rto = 1 / 5, closed = False\<rparr>"
  using assms by (auto simp: adapter_init_def Let_def split: option.splits)

definition ensure_open :: "adapter \<Rightarrow> unit res" where
  "ensure_open a = raise_if (closed a) (AdapterClosed ''S6NA adapter is closed'')"

definition remember :: "nat \<times> nat \<Rightarrow> adapter \<Rightarrow> adapter" where
  "remember key a =
     (let done = insert key (completed a); order = completed_order a @ [key] in
      if 4096 < length order
      then a\<lparr>completed := done - {hd order}, completed_order := tl order\<rparr>
      else a\<lparr>completed := done, completed_order := order\<rparr>)"

text \<open>\<^verbatim>\<open>min(limits.window_frames or policy.window, limits.max_window)\<close>.\<close>

definition window :: "adapter \<Rightarrow> int" where
  "window a =
     min (if window_frames (alimits a) = 0 then pwindow (apolicy a) else window_frames (alimits a))
       (max_window (alimits a))"

section \<open>Sending\<close>

definition chunk :: "nat \<Rightarrow> bytes \<Rightarrow> nat \<Rightarrow> bytes" where
  "chunk pl data index = take pl (drop (index * pl) data)"

definition chunk_count :: "nat \<Rightarrow> bytes \<Rightarrow> nat" where
  "chunk_count pl data = (length data + pl - 1) div pl"

definition data_frame :: "nat \<Rightarrow> nat \<Rightarrow> queued \<Rightarrow> frame" where
  "data_frame pl stream q =
     \<lparr>fkind = DATA, fstream = stream, fmessage = qmessage q, findex = qindex q, fcount = qcount q,
      fpayload = chunk pl (qdata q) (qindex q)\<rparr>"

text \<open>The number of frames the queues still hold: what every turn of the loop makes smaller.\<close>

definition unsent :: "queued list list \<Rightarrow> nat" where
  "unsent qs = sum_list (map (\<lambda>q. sum_list (map (\<lambda>i. qcount i - qindex i) q)) qs)"

text \<open>One turn of the \<^verbatim>\<open>while\<close> of \<open>outbound\<close>, after \<^verbatim>\<open>active_streams.popleft()\<close>.\<close>

definition emit :: "aead \<Rightarrow> rat \<Rightarrow> nat \<Rightarrow> adapter \<Rightarrow> bytes res \<times> adapter" where
  "emit ci now stream a =
     (if length (queues a) \<le> stream \<or> queues a ! stream = [] then (Inl (IndexError ''deque index out of range''), a)
      else
        (let q = hd (queues a ! stream); rest = tl (queues a ! stream); pl = cpayload (acodec a) in
         case encode_frame ci (acodec a) (data_frame pl stream q) of
           Inl e \<Rightarrow> (Inl e, a)
         | Inr w \<Rightarrow>
             (let item = \<lparr>swire = w, sdeadline = now + rto a, sattempts = 0,
                          ssize = length (chunk pl (qdata q) (qindex q)), ssent = now, sretried = False\<rparr>;
                  queue = (if qindex q + 1 = qcount q then rest else q\<lparr>qindex := qindex q + 1\<rparr> # rest)
              in (Inr w,
                  a\<lparr>pending := dset (stream, qmessage q, qindex q) item (pending a),
                    queues := (queues a)[stream := queue],
                    active_streams := (if queue = [] then active_streams a else active_streams a @ [stream])\<rparr>))))"

lemma sum_list_update_nat:
  fixes f :: "'a \<Rightarrow> nat"
  shows "i < length xs \<Longrightarrow> sum_list (map f (xs[i := x])) + f (xs ! i) = sum_list (map f xs) + f x"
  by (induction xs arbitrary: i) (auto split: nat.splits)

lemma emit_unsent:
  assumes "emit ci now stream a = (Inr w, a')"
  shows "Suc (unsent (queues a')) = unsent (queues a)"
proof -
  obtain q rest where s: "stream < length (queues a)" and q: "queues a ! stream = q # rest"
    using assms by (cases "queues a ! stream") (auto simp: emit_def split: if_splits)
  have lt: "qindex q < qcount q"
    using assms s q by (auto simp: emit_def encode_frame_def data_frame_def Let_def split: if_splits sum.splits)
  have a': "queues a' = (queues a)[stream := (if qindex q + 1 = qcount q then rest else q\<lparr>qindex := qindex q + 1\<rparr> # rest)]"
    using assms s q by (auto simp: emit_def Let_def split: if_splits sum.splits)
  show ?thesis
    using sum_list_update_nat [OF s, of "\<lambda>q. sum_list (map (\<lambda>i. qcount i - qindex i) q)"
        "if qindex q + 1 = qcount q then rest else q\<lparr>qindex := qindex q + 1\<rparr> # rest"] lt q
    by (auto simp: unsent_def a' split: if_splits)
qed

function outbound_loop :: "aead \<Rightarrow> rat \<Rightarrow> adapter \<Rightarrow> bytes list \<Rightarrow> bytes list res \<times> adapter" where
  "outbound_loop ci now a frames =
     (if int (length (pending a)) < window a \<and> active_streams a \<noteq> [] then
        (case emit ci now (hd (active_streams a)) (a\<lparr>active_streams := tl (active_streams a)\<rparr>) of
           (Inl e, a') \<Rightarrow> (Inl e, a')
         | (Inr w, a') \<Rightarrow> outbound_loop ci now a' (frames @ [w]))
      else (Inr frames, a))"
  by pat_completeness auto
termination
proof (relation "measure (\<lambda>(ci, now, a, frames). unsent (queues a))", goal_cases)
  case 1
  show ?case by simp
next
  case (2 ci now a frames x a' y)
  then show ?case
    using emit_unsent [of ci now "hd (active_streams a)" "a\<lparr>active_streams := tl (active_streams a)\<rparr>" y a']
    by simp
qed

declare outbound_loop.simps [simp del]

definition outbound :: "aead \<Rightarrow> rat \<Rightarrow> adapter \<Rightarrow> bytes list res \<times> adapter" where
  "outbound ci now a =
     (case ensure_open a of Inl e \<Rightarrow> (Inl e, a) | Inr _ \<Rightarrow> outbound_loop ci now a [])"

definition check_send :: "int \<Rightarrow> bytes \<Rightarrow> adapter \<Rightarrow> nat res" where
  "check_send stream data a =
     ebind (ensure_open a) (\<lambda>_.
     ebind (raise_if (\<not> (0 \<le> stream \<and> stream < max_streams (alimits a))) (ValueError ''invalid stream'')) (\<lambda>_.
     ebind (raise_if (data = [] \<or> max_message (alimits a) < int (length data))
             (ValueError ''message is outside configured bounds'')) (\<lambda>_.
     ebind (raise_if (65535 < chunk_count (cpayload (acodec a)) data) (ValueError ''message exceeds chunk count'')) (\<lambda>_.
     Inr (chunk_count (cpayload (acodec a)) data)))))"

definition enqueue :: "nat \<Rightarrow> bytes \<Rightarrow> nat \<Rightarrow> adapter \<Rightarrow> adapter" where
  "enqueue s data count a =
     (let message = next_message a ! s in
      a\<lparr>next_message := (next_message a)[s := message + 1],
        active_streams := (if queues a ! s = [] then active_streams a @ [s] else active_streams a),
        queues := (queues a)[s := queues a ! s @
                     [\<lparr>qmessage = message, qdata = data, qindex = 0, qcount = count\<rparr>]],
        outgoing := dset (s, message) (int count, int (length data)) (outgoing a),
        buffered := buffered a + int (length data)\<rparr>)"

definition send :: "aead \<Rightarrow> rat \<Rightarrow> int \<Rightarrow> bytes \<Rightarrow> adapter \<Rightarrow> bytes list res \<times> adapter" where
  "send ci now stream data a =
     (case ebind (check_send stream data a) (\<lambda>count.
           ebind (raise_if (max_inflight (alimits a) < buffered a + int (length data) \<or> 4096 \<le> length (outgoing a))
                   (AdapterBackpressure ''adapter backpressure limit reached'')) (\<lambda>_.
           ebind (raise_if (2 ^ 64 - 1 \<le> next_message a ! nat stream)
                   (OverflowError ''message sequence exhausted; rekey'')) (\<lambda>_.
           Inr count))) of
        Inl e \<Rightarrow> (Inl e, a)
      | Inr count \<Rightarrow> outbound ci now (enqueue (nat stream) data count a))"

definition application_credit :: "adapter \<Rightarrow> int" where
  "application_credit a =
     (if closed a then 0
      else max 0 (min (window a - dsum fst (outgoing a)) (4096 - int (length (outgoing a)))))"

definition send_flow_controlled :: "aead \<Rightarrow> rat \<Rightarrow> int \<Rightarrow> bytes \<Rightarrow> adapter \<Rightarrow> bytes list res \<times> adapter" where
  "send_flow_controlled ci now stream data a =
     (case ebind (check_send stream data a) (\<lambda>frames.
           raise_if (application_credit a < int frames)
             (AdapterBackpressure ''S6NA application frame credit exhausted'')) of
        Inl e \<Rightarrow> (Inl e, a)
      | Inr _ \<Rightarrow> send ci now stream data a)"

definition close :: "adapter \<Rightarrow> adapter" where
  "close a =
     (if closed a then a
      else a\<lparr>closed := True, pending := [], outgoing := [], incoming := [], completed := {},
             completed_order := [], active_streams := [], queues := map (\<lambda>_. []) (queues a),
             incoming_bytes := 0, buffered := 0\<rparr>)"

text \<open>\<^verbatim>\<open>_sample\<close>: \<open>srtt\<close> and \<open>rttvar\<close> are set together, so they share one option.\<close>

definition sample :: "rat \<Rightarrow> adapter \<Rightarrow> adapter" where
  "sample rtt a =
     (let (s, v) = (case srtt a of
                      None \<Rightarrow> (rtt, rtt / 2)
                    | Some (s, v) \<Rightarrow> (7 / 8 * s + 1 / 8 * rtt, 3 / 4 * v + 1 / 4 * \<bar>s - rtt\<bar>))
      in a\<lparr>srtt := Some (s, v), rto := max (1 / 20) (min 5 (s + 4 * v))\<rparr>)"

definition extension_payload :: "int \<Rightarrow> ustr \<Rightarrow> pyval \<Rightarrow> adapter \<Rightarrow> bytes res" where
  "extension_payload stream name v a =
     ebind (ensure_open a) (\<lambda>_.
     ebind (raise_if (\<not> (0 \<le> stream \<and> stream < max_streams (alimits a))) (ValueError ''invalid stream'')) (\<lambda>_.
     ebind (raise_if (name \<notin> set (extensions a)) (PermissionError ''extension is not enabled'')) (\<lambda>_.
     ebind (portable_payload (JObj [(asc ''name'', JStr name), (asc ''value'', v)])) (\<lambda>payload.
     ebind (raise_if (2 ^ 64 - 1 \<le> next_message a ! nat stream)
             (OverflowError ''message sequence exhausted; rekey'')) (\<lambda>_.
     Inr payload)))))"

definition extension :: "aead \<Rightarrow> int \<Rightarrow> ustr \<Rightarrow> pyval \<Rightarrow> adapter \<Rightarrow> bytes res \<times> adapter" where
  "extension ci stream name v a =
     (case extension_payload stream name v a of
        Inl e \<Rightarrow> (Inl e, a)
      | Inr payload \<Rightarrow>
          (let message = next_message a ! nat stream in
           (encode_frame ci (acodec a)
              \<lparr>fkind = EXTENSION, fstream = nat stream, fmessage = message, findex = 0, fcount = 1, fpayload = payload\<rparr>,
            a\<lparr>next_message := (next_message a)[nat stream := message + 1]\<rparr>)))"

section \<open>Receiving\<close>

type_synonym delivery = "bytes list \<times> (nat \<times> bytes) list \<times> (nat \<times> pyval \<times> pyval) list"

definition receive_ack :: "rat \<Rightarrow> frame \<Rightarrow> adapter \<Rightarrow> delivery res \<times> adapter" where
  "receive_ack now f a =
     (let key = (fstream f, fmessage f, findex f) in
      case map_of (pending a) key of
        None \<Rightarrow> (Inr ([], [], []), a)
      | Some item \<Rightarrow>
          (let a = a\<lparr>pending := ddel key (pending a)\<rparr>; msg = (fstream f, fmessage f) in
           case map_of (outgoing a) msg of
             None \<Rightarrow> (Inl (KeyError ''outgoing''), a)
           | Some (remaining, sz) \<Rightarrow>
               (let a = (if remaining - 1 = 0
                         then a\<lparr>buffered := buffered a - sz, outgoing := ddel msg (outgoing a)\<rparr>
                         else a\<lparr>outgoing := dset msg (remaining - 1, sz) (outgoing a)\<rparr>);
                    a = (if sretried item then a else sample (max 0 (now - ssent item)) a)
                in (Inr ([], [], []), a))))"

text \<open>The test of a received extension; a list or an object is unhashable, so \<^verbatim>\<open>not in\<close> raises.\<close>

definition check_extension :: "ustr list \<Rightarrow> bytes \<Rightarrow> pyval \<Rightarrow> (pyval \<times> pyval) res" where
  "check_extension exts payload v =
     ebind (portable_payload v) (\<lambda>raw.
     let no = PermissionError ''received extension is not enabled'' in
     if raw \<noteq> payload then Inl no
     else
       (case v of
          JObj d \<Rightarrow>
            if set (map fst d) \<noteq> {asc ''name'', asc ''value''} then Inl no
            else
              (let name = the (map_of d (asc ''name'')); val = the (map_of d (asc ''value'')) in
               case name of
                 JStr s \<Rightarrow> if s \<in> set exts then Inr (name, val) else Inl no
               | JList _ \<Rightarrow> Inl (TypeError ''unhashable type'')
               | JObj _ \<Rightarrow> Inl (TypeError ''unhashable type'')
               | _ \<Rightarrow> Inl no)
        | _ \<Rightarrow> Inl no))"

definition receive_extension :: "(ustr \<Rightarrow> ustr) \<Rightarrow> bytes \<Rightarrow> frame \<Rightarrow> adapter \<Rightarrow> delivery res \<times> adapter" where
  "receive_extension nfc ack f a =
     (let key = (fstream f, fmessage f) in
      if key \<in> completed a then (Inr ([ack], [], []), a)
      else
        (case ebind (portable_json nfc 65536 (BytesIn (fpayload f))) (check_extension (extensions a) (fpayload f)) of
           Inl e \<Rightarrow> (Inl e, a)
         | Inr (name, v) \<Rightarrow> (Inr ([ack], [], [(fstream f, name, v)]), remember key a)))"

text \<open>\<^verbatim>\<open>b"".join(state["parts"][i] for i in range(count))\<close>.\<close>

fun join_parts :: "(nat \<times> bytes) list \<Rightarrow> nat list \<Rightarrow> bytes res" where
  "join_parts parts [] = Inr []"
| "join_parts parts (i # is) =
     (case map_of parts i of
        None \<Rightarrow> Inl (KeyError ''parts'')
      | Some p \<Rightarrow> ebind (join_parts parts is) (\<lambda>rest. Inr (p @ rest)))"

definition new_reassembly :: "rat \<Rightarrow> nat \<Rightarrow> adapter \<Rightarrow> reassembly" where
  "new_reassembly now count a =
     \<lparr>rcount = count, rparts = [], rbytes = 0, rdeadline = now + of_int (reassembly_seconds (alimits a))\<rparr>"

definition reassembly_state :: "rat \<Rightarrow> frame \<Rightarrow> adapter \<Rightarrow> reassembly res" where
  "reassembly_state now f a =
     (case map_of (incoming a) (fstream f, fmessage f) of
        None \<Rightarrow>
          if 4096 \<le> length (incoming a) then Inl (AdapterBackpressure ''reassembly message limit reached'')
          else Inr (new_reassembly now (fcount f) a)
      | Some st \<Rightarrow> Inr st)"

text \<open>The state of a message with a chunk added, and whether the chunk was new.\<close>

definition add_part :: "frame \<Rightarrow> adapter \<Rightarrow> reassembly \<Rightarrow> (reassembly \<times> bool) res" where
  "add_part f a st =
     ebind (raise_if (rcount st \<noteq> fcount f) (ValueError ''contradictory chunk count'')) (\<lambda>_.
     if map_of (rparts st) (findex f) \<noteq> None then Inr (st, False)
     else
       ebind (raise_if (max_inflight (alimits a) < incoming_bytes a + int (length (fpayload f)))
               (AdapterBackpressure ''reassembly limit reached'')) (\<lambda>_.
       ebind (raise_if (max_message (alimits a) < rbytes st + int (length (fpayload f)))
               (ValueError ''reassembled message is oversized'')) (\<lambda>_.
       Inr (st\<lparr>rparts := dset (findex f) (fpayload f) (rparts st),
               rbytes := rbytes st + int (length (fpayload f))\<rparr>, True))))"

definition add_chunk :: "rat \<Rightarrow> frame \<Rightarrow> adapter \<Rightarrow> (reassembly \<times> bool) res" where
  "add_chunk now f a =
     ebind (raise_if (fpayload f = []) (ValueError ''empty data chunk'')) (\<lambda>_.
     ebind (reassembly_state now f a) (add_part f a))"

definition receive_data :: "rat \<Rightarrow> bytes \<Rightarrow> frame \<Rightarrow> adapter \<Rightarrow> delivery res \<times> adapter" where
  "receive_data now ack f a =
     (let key = (fstream f, fmessage f) in
      if key \<in> completed a then (Inr ([ack], [], []), a)
      else
        (case add_chunk now f a of
           Inl e \<Rightarrow> (Inl e, a)
         | Inr (st, fresh) \<Rightarrow>
             (let a = a\<lparr>incoming_bytes := incoming_bytes a + (if fresh then int (length (fpayload f)) else 0),
                        incoming := dset key st (incoming a)\<rparr> in
              if length (rparts st) \<noteq> fcount f then (Inr ([ack], [], []), a)
              else
                (case join_parts (rparts st) [0 ..< fcount f] of
                   Inl e \<Rightarrow> (Inl e, a)
                 | Inr data \<Rightarrow>
                     if max_message (alimits a) < int (length data)
                     then (Inl (ValueError ''reassembled message is oversized''), a)
                     else
                       (Inr ([ack], [(fstream f, data)], []),
                        remember key (a\<lparr>incoming := ddel key (incoming a),
                                        incoming_bytes := incoming_bytes a - rbytes st\<rparr>))))))"

definition receive :: "aead \<Rightarrow> (ustr \<Rightarrow> ustr) \<Rightarrow> rat \<Rightarrow> bytes \<Rightarrow> adapter \<Rightarrow> delivery res \<times> adapter" where
  "receive ci nfc now wire a =
     (case ebind (ensure_open a) (\<lambda>_. decode_frame ci (acodec a) wire) of
        Inl e \<Rightarrow> (Inl e, a)
      | Inr f \<Rightarrow>
          if fkind f = ACK then receive_ack now f a
          else
            (case encode_frame ci (acodec a) (f\<lparr>fkind := ACK, fpayload := []\<rparr>) of
               Inl e \<Rightarrow> (Inl e, a)
             | Inr ack \<Rightarrow>
                 if fkind f = EXTENSION then receive_extension nfc ack f a else receive_data now ack f a))"

section \<open>Retransmission\<close>

text \<open>The first loop drops every reassembly whose deadline has passed.\<close>

fun expire :: "rat \<Rightarrow> ((nat \<times> nat) \<times> reassembly) list \<Rightarrow> adapter \<Rightarrow> adapter" where
  "expire now [] a = a"
| "expire now ((key, st) # items) a =
     expire now items
       (if rdeadline st \<le> now
        then a\<lparr>incoming := ddel key (incoming a), incoming_bytes := incoming_bytes a - rbytes st\<rparr>
        else a)"

definition retry_item :: "rat \<Rightarrow> rat \<Rightarrow> sent_frame \<Rightarrow> sent_frame" where
  "retry_item now rt item =
     item\<lparr>sattempts := sattempts item + 1, sretried := True,
          sdeadline := now + min 5 (rt * 2 ^ (sattempts item + 1))\<rparr>"

text \<open>The second loop; the items before one that is out of attempts keep their changes.\<close>

fun resend :: "rat \<Rightarrow> ((nat \<times> nat \<times> nat) \<times> sent_frame) list \<Rightarrow> bytes list \<Rightarrow> adapter \<Rightarrow> bytes list res \<times> adapter" where
  "resend now [] frames a = (Inr frames, a)"
| "resend now ((key, item) # items) frames a =
     (if now < sdeadline item then resend now items frames a
      else if 8 \<le> sattempts item then (Inl (AdapterRetryLimit (fst key) (fst (snd key))), a)
      else resend now items (frames @ [swire item])
             (a\<lparr>pending := dset key (retry_item now (rto a) item) (pending a)\<rparr>))"

definition retransmit :: "aead \<Rightarrow> rat \<Rightarrow> adapter \<Rightarrow> bytes list res \<times> adapter" where
  "retransmit ci now a =
     (case ensure_open a of
        Inl e \<Rightarrow> (Inl e, a)
      | Inr _ \<Rightarrow>
          (case resend now (pending a) [] (expire now (incoming a) a) of
             (Inl e, a') \<Rightarrow> (Inl e, a')
           | (Inr frames, a') \<Rightarrow>
               (case outbound ci now a' of
                  (Inl e, a'') \<Rightarrow> (Inl e, a'')
                | (Inr new, a'') \<Rightarrow> (Inr (frames @ new), a''))))"

section \<open>The packet loop of the datagram endpoint\<close>

text \<open>
  \<^verbatim>\<open>DatagramEndpoint.poll\<close>. The socket's arrivals are a list: a datagram with its source address;
  the end of the list is a timeout or an empty queue. \<open>sent\<close> collects what
  \<^verbatim>\<open>sendto(_, self.peer)\<close> transmits, also when the call raises later. Each packet brings the
  clock values of its \<open>receive\<close> and of the \<open>outbound\<close> that follows.
\<close>

record 'addr arrival =
  awire :: bytes
  aaddr :: 'addr
  arecv :: rat
  aout :: rat

type_synonym polled = "(nat \<times> bytes) list \<times> (nat \<times> pyval \<times> pyval) list"

fun poll_loop ::
  "aead \<Rightarrow> (ustr \<Rightarrow> ustr) \<Rightarrow> 'addr \<Rightarrow> nat \<Rightarrow> 'addr arrival list \<Rightarrow> polled \<Rightarrow> bytes list \<Rightarrow> adapter
     \<Rightarrow> polled res \<times> bytes list \<times> adapter" where
  "poll_loop ci nfc peer 0 arrivals got sent a = (Inr got, sent, a)"
| "poll_loop ci nfc peer (Suc n) [] got sent a = (Inr got, sent, a)"
| "poll_loop ci nfc peer (Suc n) (p # arrivals) got sent a =
     (if aaddr p \<noteq> peer then (Inl (PermissionError ''datagram from unpinned peer''), sent, a)
      else
        (case receive ci nfc (arecv p) (awire p) a of
           (Inl e, a') \<Rightarrow> (Inl e, sent, a')
         | (Inr (acks, msgs, events), a') \<Rightarrow>
             (case outbound ci (aout p) a' of
                (Inl e, a'') \<Rightarrow> (Inl e, sent @ acks, a'')
              | (Inr frames, a'') \<Rightarrow>
                  poll_loop ci nfc peer n arrivals (fst got @ msgs, snd got @ events) (sent @ acks @ frames) a'')))"

definition poll ::
  "aead \<Rightarrow> (ustr \<Rightarrow> ustr) \<Rightarrow> 'addr \<Rightarrow> rat \<Rightarrow> 'addr arrival list \<Rightarrow> rat \<Rightarrow> adapter
     \<Rightarrow> polled res \<times> bytes list \<times> adapter" where
  "poll ci nfc peer timeout arrivals now a =
     (case ebind (ensure_open a) (\<lambda>_.
           raise_if (\<not> (0 \<le> timeout \<and> timeout \<le> 5)) (ValueError ''invalid poll timeout'')) of
        Inl e \<Rightarrow> (Inl e, [], a)
      | Inr _ \<Rightarrow>
          (case poll_loop ci nfc peer 64 arrivals ([], []) [] a of
             (Inl e, sent, a') \<Rightarrow> (Inl e, sent, a')
           | (Inr got, sent, a') \<Rightarrow>
               (case retransmit ci now a' of
                  (Inl e, a'') \<Rightarrow> (Inl e, sent, a'')
                | (Inr frames, a'') \<Rightarrow> (Inr got, sent @ frames, a''))))"

end
