(* ===== verification/S6_Sender.thy ===== *)
theory S6_Sender
  imports S6_Adapter
begin

text \<open>
  The sending side of the adapter: the invariant that ties the byte and message accounting of
  \<open>buffered\<close> and \<open>outgoing\<close> to the frames in flight and in the queues, that every operation keeps
  it, and what it gives: \<open>outbound\<close> never raises, an acknowledgement always finds its message,
  and a flow-controlled send leaves nothing waiting.
\<close>

lemma nth_list_update': "s < length xs \<Longrightarrow> xs[s := x] ! t = (if t = s then x else xs ! t)"
  by (auto simp: nth_list_update)

section \<open>Accounting\<close>

definition pkeys :: "adapter \<Rightarrow> (nat \<times> nat \<times> nat) list" where
  "pkeys a = map fst (pending a)"

definition in_flight :: "adapter \<Rightarrow> nat \<times> nat \<Rightarrow> nat" where
  "in_flight a k = length (filter (\<lambda>(s, m, i). (s, m) = k) (pkeys a))"

definition waiting :: "adapter \<Rightarrow> nat \<times> nat \<Rightarrow> nat" where
  "waiting a k =
     (if fst k < length (queues a)
      then sum_list (map (\<lambda>q. if qmessage q = snd k then qcount q - qindex q else 0) (queues a ! fst k))
      else 0)"

text \<open>Frames of a message that are not acknowledged yet.\<close>

definition load :: "adapter \<Rightarrow> nat \<times> nat \<Rightarrow> nat" where
  "load a k = in_flight a k + waiting a k"

definition queued_ok :: "adapter \<Rightarrow> nat \<Rightarrow> queued \<Rightarrow> bool" where
  "queued_ok a s q \<longleftrightarrow>
     qindex q < qcount q \<and> qcount q = chunk_count (cpayload (acodec a)) (qdata q) \<and> qcount q \<le> 65535 \<and>
     qmessage q < next_message a ! s \<and>
     (\<forall>i. (s, qmessage q, i) \<in> set (pkeys a) \<longrightarrow> i < qindex q)"

definition config_ok :: "adapter \<Rightarrow> bool" where
  "config_ok a \<longleftrightarrow>
     limits_ok (alimits a) \<and> cstreams (acodec a) = nat (max_streams (alimits a)) \<and>
     64 \<le> cpayload (acodec a) \<and> cpayload (acodec a) \<le> 65536 \<and> 1 \<le> pwindow (apolicy a) \<and>
     length (queues a) = cstreams (acodec a) \<and> length (next_message a) = cstreams (acodec a) \<and>
     (\<forall>m \<in> set (next_message a). m \<le> 2 ^ 64 - 1)"

definition account_ok :: "adapter \<Rightarrow> bool" where
  "account_ok a \<longleftrightarrow>
     dict_ok (outgoing a) \<and> length (outgoing a) \<le> 4096 \<and>
     buffered a = dsum snd (outgoing a) \<and> buffered a \<le> max_inflight (alimits a) \<and>
     (\<forall>k. map_of (outgoing a) k = None \<longrightarrow> load a k = 0) \<and>
     (\<forall>k r l. map_of (outgoing a) k = Some (r, l) \<longrightarrow>
        r = int (load a k) \<and> 0 < r \<and> 0 < l \<and> fst k < length (queues a) \<and> snd k < next_message a ! fst k)"

definition window_ok :: "adapter \<Rightarrow> bool" where
  "window_ok a \<longleftrightarrow> distinct (pkeys a) \<and> int (length (pending a)) \<le> window a"

definition queues_ok :: "adapter \<Rightarrow> bool" where
  "queues_ok a \<longleftrightarrow>
     (\<forall>s < length (queues a). distinct (map qmessage (queues a ! s)) \<and> (\<forall>q \<in> set (queues a ! s). queued_ok a s q))"

definition active_ok :: "adapter \<Rightarrow> bool" where
  "active_ok a \<longleftrightarrow>
     distinct (active_streams a) \<and> set (active_streams a) = {s. s < length (queues a) \<and> queues a ! s \<noteq> []}"

definition sender_ok :: "adapter \<Rightarrow> bool" where
  "sender_ok a \<longleftrightarrow> config_ok a \<and> account_ok a \<and> window_ok a \<and> queues_ok a \<and> active_ok a"

lemmas sender_defs = sender_ok_def config_ok_def account_ok_def window_ok_def queues_ok_def active_ok_def

lemma account_entry:
  "account_ok a \<Longrightarrow> map_of (outgoing a) k = Some (r, l) \<Longrightarrow>
     r = int (load a k) \<and> 0 < r \<and> 0 < l \<and> fst k < length (queues a) \<and> snd k < next_message a ! fst k"
  unfolding account_ok_def by blast

lemma account_absent: "account_ok a \<Longrightarrow> map_of (outgoing a) k = None \<Longrightarrow> load a k = 0"
  unfolding account_ok_def by blast

text \<open>The sender's part of the state: what the invariant depends on.\<close>

definition same_sender :: "adapter \<Rightarrow> adapter \<Rightarrow> bool" where
  "same_sender a b \<longleftrightarrow>
     alimits a = alimits b \<and> apolicy a = apolicy b \<and> acodec a = acodec b \<and> next_message a = next_message b \<and>
     pkeys a = pkeys b \<and> queues a = queues b \<and> active_streams a = active_streams b \<and>
     buffered a = buffered b \<and> outgoing a = outgoing b"

lemma sender_ok_same:
  assumes "sender_ok a" "same_sender a b"
  shows "sender_ok b"
proof -
  have f: "alimits b = alimits a" "apolicy b = apolicy a" "acodec b = acodec a" "next_message b = next_message a"
    "pkeys b = pkeys a" "queues b = queues a" "active_streams b = active_streams a"
    "buffered b = buffered a" "outgoing b = outgoing a"
    using assms(2) by (simp_all add: same_sender_def)
  have l: "load b k = load a k" "queued_ok b s r = queued_ok a s r" "window b = window a" for k s r
    by (simp_all add: f load_def in_flight_def waiting_def queued_ok_def window_def)
  have p: "length (pending b) = length (pending a)"
    using f(5) by (metis pkeys_def length_map)
  show ?thesis
    using assms(1) unfolding sender_defs f l p .
qed

lemma config_next:
  assumes "config_ok a" "next_message a ! s < 2 ^ 64 - 1"
  shows "\<forall>m \<in> set ((next_message a)[s := next_message a ! s + 1]). m \<le> 2 ^ 64 - 1"
proof
  fix m assume "m \<in> set ((next_message a)[s := next_message a ! s + 1])"
  then have "m = next_message a ! s + 1 \<or> m \<in> set (next_message a)"
    using set_update_subset_insert [of "next_message a" s "next_message a ! s + 1"] by blast
  then show "m \<le> 2 ^ 64 - 1"
    using assms by (auto simp: config_ok_def)
qed

section \<open>Starting\<close>

lemma profiles_bounds: "map_of profiles core = Some p \<Longrightarrow> 1 \<le> pwindow p"
  by (auto simp: profiles_def policies_def split: if_splits)

lemma adapter_init_sender_ok:
  assumes "adapter_init core key side exts lims transport = Inr a" and "\<forall>l. lims = Some l \<longrightarrow> limits_ok l"
  shows "sender_ok a"
proof -
  obtain core' pol l c where pol: "map_of profiles core' = Some pol"
    and l: "l = (case lims of None \<Rightarrow> default_limits | Some l \<Rightarrow> l)"
    and c: "codec_init key (if payload_bytes l = 0 then ppayload pol else payload_bytes l) side (max_streams l) = Inr c"
    and a: "a = \<lparr>alimits = l, apolicy = pol, acodec = c, extensions = remdups exts,
               next_message = replicate (nat (max_streams l)) 0, pending = [],
               queues = replicate (nat (max_streams l)) [], active_streams = [], incoming = [],
               incoming_bytes = 0, buffered = 0, completed = {}, completed_order = [], outgoing = [],
               srtt = None, rto = 1 / 5, closed = False\<rparr>"
    by (rule adapter_init_Inr [OF assms(1)])
  have lok: "limits_ok l"
    using assms(2) default_limits_ok by (auto simp: l split: option.splits)
  have cc: "cstreams c = nat (max_streams l)" "64 \<le> cpayload c" "cpayload c \<le> 65536"
    using c by (auto simp: codec_init_def)
  have "1 \<le> window a"
    using profiles_bounds [OF pol] lok by (auto simp: window_def a limits_ok_def)
  then show ?thesis
    using lok cc profiles_bounds [OF pol]
    by (auto simp: sender_defs a load_def in_flight_def waiting_def pkeys_def window_def limits_ok_def)
qed

section \<open>Chunks\<close>

lemma chunk_count_pos: "0 < pl \<Longrightarrow> data \<noteq> [] \<Longrightarrow> 0 < chunk_count pl data"
  by (cases data) (auto simp: chunk_count_def div_greater_zero_iff)

lemma length_chunk_le: "length (chunk pl data i) \<le> pl"
  by (simp add: chunk_def)

section \<open>One turn of the sending loop\<close>

lemma queued_ok_cong:
  assumes "queued_ok a t r" "cpayload (acodec a') = cpayload (acodec a)" "next_message a ! t \<le> next_message a' ! t"
    and "\<And>i. (t, qmessage r, i) \<in> set (pkeys a') \<Longrightarrow> (t, qmessage r, i) \<in> set (pkeys a)"
  shows "queued_ok a' t r"
  using assms by (auto simp: queued_ok_def)

lemma waiting_update:
  assumes "s < length (queues a)" "queues a' = (queues a)[s := queue]"
  shows "waiting a' k =
    (if fst k = s then sum_list (map (\<lambda>q. if qmessage q = snd k then qcount q - qindex q else 0) queue)
     else waiting a k)"
  using assms by (auto simp: waiting_def)

lemma emit_facts:
  assumes ok: "sender_ok a" and act: "active_streams a = s # act" and room: "int (length (pending a)) < window a"
  obtains q rest w item queue a' where
    "s < length (queues a)" "queues a ! s = q # rest" "queued_ok a s q"
    "encode_frame ci (acodec a) (data_frame (cpayload (acodec a)) s q) = Inr w"
    "queue = (if qindex q + 1 = qcount q then rest else q\<lparr>qindex := qindex q + 1\<rparr> # rest)"
    "swire item = w"
    "a' = a\<lparr>pending := pending a @ [((s, qmessage q, qindex q), item)],
            queues := (queues a)[s := queue],
            active_streams := (if queue = [] then act else act @ [s])\<rparr>"
    "emit ci now s (a\<lparr>active_streams := act\<rparr>) = (Inr w, a')"
proof -
  have s: "s < length (queues a)" "queues a ! s \<noteq> []"
    using ok act by (auto simp: sender_ok_def active_ok_def)
  then obtain q rest where q: "queues a ! s = q # rest"
    by (cases "queues a ! s") auto
  have qok: "queued_ok a s q"
    using ok s q by (auto simp: sender_ok_def queues_ok_def)
  have m: "next_message a ! s \<le> 2 ^ 64 - 1"
    using ok s by (simp add: sender_ok_def config_ok_def)
  obtain w where w: "encode_frame ci (acodec a) (data_frame (cpayload (acodec a)) s q) = Inr w"
    using encode_frame_total [of "data_frame (cpayload (acodec a)) s q" "acodec a" ci] qok s m ok length_chunk_le
    by (auto simp: queued_ok_def data_frame_def sender_ok_def config_ok_def)
  have new: "map_of (pending a) (s, qmessage q, qindex q) = None"
    using qok by (auto simp: queued_ok_def pkeys_def map_of_eq_None_iff)
  define item where "item = \<lparr>swire = w, sdeadline = now + rto a, sattempts = 0,
    ssize = length (chunk (cpayload (acodec a)) (qdata q) (qindex q)), ssent = now, sretried = False\<rparr>"
  have "swire item = w"
    by (simp add: item_def)
  moreover have "emit ci now s (a\<lparr>active_streams := act\<rparr>) =
     (Inr w, a\<lparr>pending := pending a @ [((s, qmessage q, qindex q), item)],
        queues := (queues a)[s := (if qindex q + 1 = qcount q then rest else q\<lparr>qindex := qindex q + 1\<rparr> # rest)],
        active_streams := (if (if qindex q + 1 = qcount q then rest else q\<lparr>qindex := qindex q + 1\<rparr> # rest) = []
                           then act else act @ [s])\<rparr>)"
    using s q w new by (simp add: emit_def Let_def dset_new item_def)
  ultimately show thesis
    by (rule that [OF s(1) q qok w refl _ refl])
qed

lemma emit_ok:
  assumes ok: "sender_ok a" and act: "active_streams a = s # act" and room: "int (length (pending a)) < window a"
  obtains w a' where "emit ci now s (a\<lparr>active_streams := act\<rparr>) = (Inr w, a')" "sender_ok a'"
proof -
  obtain q rest w item queue a' where s: "s < length (queues a)" and q: "queues a ! s = q # rest"
    and qok: "queued_ok a s q"
    and queue: "queue = (if qindex q + 1 = qcount q then rest else q\<lparr>qindex := qindex q + 1\<rparr> # rest)"
    and a': "a' = a\<lparr>pending := pending a @ [((s, qmessage q, qindex q), item)],
            queues := (queues a)[s := queue],
            active_streams := (if queue = [] then act else act @ [s])\<rparr>"
    and e: "emit ci now s (a\<lparr>active_streams := act\<rparr>) = (Inr w, a')"
    by (rule emit_facts [OF assms, of ci now])
  have f: "length (pending a') = Suc (length (pending a))" "queues a' = (queues a)[s := queue]"
    "active_streams a' = (if queue = [] then act else act @ [s])" "alimits a' = alimits a" "acodec a' = acodec a"
    "apolicy a' = apolicy a" "next_message a' = next_message a" "outgoing a' = outgoing a" "buffered a' = buffered a"
    "window a' = window a" and keys: "pkeys a' = pkeys a @ [(s, qmessage q, qindex q)]"
    by (simp_all add: a' window_def pkeys_def)
  have lt: "qindex q < qcount q" and fresh: "(s, qmessage q, qindex q) \<notin> set (pkeys a)"
    using qok by (auto simp: queued_ok_def)
  have dist: "distinct (map qmessage (q # rest))" and rest: "\<forall>r \<in> set rest. queued_ok a s r"
    using ok s q by (force simp: sender_ok_def queues_ok_def)+
  have load: "load a' k = load a k" for k
  proof -
    have "waiting a' k = (if fst k = s then sum_list (map (\<lambda>q. if qmessage q = snd k then qcount q - qindex q else 0) queue)
        else waiting a k)"
      by (rule waiting_update [OF s f(2)])
    then show ?thesis
      using lt s q by (cases k) (auto simp: load_def in_flight_def keys queue waiting_def)
  qed
  have "config_ok a'" "window_ok a'"
    using ok room fresh by (auto simp: sender_ok_def config_ok_def window_ok_def keys f)
  moreover have "account_ok a'"
    using ok by (auto simp: sender_ok_def account_ok_def load f)
  moreover have "queues_ok a'"
  proof -
    have old: "queued_ok a' t r" if "queued_ok a t r" "(t, qmessage r) \<noteq> (s, qmessage q)" for t r
      by (rule queued_ok_cong [OF that(1)]) (use that(2) in \<open>auto simp: f keys\<close>)
    have upd: "queued_ok a' s (q\<lparr>qindex := qindex q + 1\<rparr>)" if "qindex q + 1 \<noteq> qcount q"
      using qok that by (auto simp: queued_ok_def f keys less_Suc_eq)
    have tail: "queued_ok a' s r" if "r \<in> set rest" for r
    proof (rule old)
      have "qmessage r \<in> set (map qmessage rest)"
        using that by simp
      then show "(s, qmessage r) \<noteq> (s, qmessage q)"
        using dist by (metis Pair_inject distinct.simps(2) list.simps(9))
    qed (use rest that in blast)
    have "distinct (map qmessage queue) \<and> (\<forall>r \<in> set queue. queued_ok a' s r)"
      using dist upd tail by (auto simp: queue)
    then show ?thesis
      using ok s old by (auto simp: sender_ok_def queues_ok_def f nth_list_update)
  qed
  moreover have "active_ok a'"
  proof -
    have "set act = {t. t < length (queues a) \<and> queues a ! t \<noteq> []} - {s}" "distinct act" "s \<notin> set act"
      using ok act by (auto simp: sender_ok_def active_ok_def)
    then show ?thesis
      using s by (auto simp: active_ok_def f nth_list_update')
  qed
  ultimately show thesis
    using e that by (simp add: sender_ok_def)
qed

section \<open>Every operation keeps the invariant\<close>

lemma outbound_loop_ok:
  "sender_ok a \<Longrightarrow> \<exists>fs a'. outbound_loop ci now a frames = (Inr (frames @ fs), a') \<and> sender_ok a' \<and>
     (active_streams a' = [] \<or> int (length (pending a')) = window a')"
proof (induction ci now a frames rule: outbound_loop.induct)
  case (1 ci now a frames)
  show ?case
  proof (cases "int (length (pending a)) < window a \<and> active_streams a \<noteq> []")
    case True
    then obtain s act where act: "active_streams a = s # act"
      by (cases "active_streams a") auto
    obtain w a' where e: "emit ci now s (a\<lparr>active_streams := act\<rparr>) = (Inr w, a')" and ok: "sender_ok a'"
      using emit_ok [OF 1(2) act] True by blast
    have "\<exists>fs a''. outbound_loop ci now a' ((frames @ [w]) @ []) = (Inr ((frames @ [w]) @ fs), a'') \<and> sender_ok a'' \<and>
        (active_streams a'' = [] \<or> int (length (pending a'')) = window a'')"
      using 1(1) True act e ok by fastforce
    then show ?thesis
      using True act e by (auto simp: outbound_loop.simps [of ci now a])
  next
    case False
    then show ?thesis
      using 1(2) by (auto simp: outbound_loop.simps [of ci now a] sender_ok_def window_ok_def)
  qed
qed

lemma outbound_ok:
  assumes "sender_ok a" "\<not> closed a"
  obtains fs a' where "outbound ci now a = (Inr fs, a')" "sender_ok a'"
    "active_streams a' = [] \<or> int (length (pending a')) = window a'"
  using outbound_loop_ok [OF assms(1), of ci now "[]"] assms(2) that
  by (auto simp: outbound_def ensure_open_def raise_if_def)

lemma outbound_keeps: "sender_ok a \<Longrightarrow> sender_ok (snd (outbound ci now a))"
  using outbound_loop_ok [of a ci now "[]"] by (auto simp: outbound_def split: sum.splits)

lemma check_send_Inr:
  "check_send stream data a = Inr n \<longleftrightarrow>
     \<not> closed a \<and> 0 \<le> stream \<and> stream < max_streams (alimits a) \<and> data \<noteq> [] \<and>
     int (length data) \<le> max_message (alimits a) \<and> n = chunk_count (cpayload (acodec a)) data \<and> n \<le> 65535"
  by (auto simp: check_send_def ensure_open_def raise_if_def)

lemma enqueue_ok:
  assumes ok: "sender_ok a" and c: "check_send (int s) data a = Inr n"
    and room: "buffered a + int (length data) \<le> max_inflight (alimits a)" "length (outgoing a) < 4096"
    and m: "next_message a ! s < 2 ^ 64 - 1"
  shows "sender_ok (enqueue s data n a)"
proof -
  define a' where "a' = enqueue s data n a"
  define msg where "msg = next_message a ! s"
  define q where "q = \<lparr>qmessage = msg, qdata = data, qindex = 0, qcount = n\<rparr>"
  have c': "s < length (queues a)" "data \<noteq> []" "n = chunk_count (cpayload (acodec a)) data" "n \<le> 65535"
    using c ok by (auto simp: check_send_Inr sender_ok_def config_ok_def)
  have n: "0 < n"
    using c' ok chunk_count_pos [of "cpayload (acodec a)" data] by (auto simp: sender_ok_def config_ok_def)
  have f: "pkeys a' = pkeys a" "pending a' = pending a" "queues a' = (queues a)[s := queues a ! s @ [q]]"
    "active_streams a' = (if queues a ! s = [] then active_streams a @ [s] else active_streams a)"
    "alimits a' = alimits a" "acodec a' = acodec a" "apolicy a' = apolicy a"
    "next_message a' = (next_message a)[s := msg + 1]" "outgoing a' = dset (s, msg) (int n, int (length data)) (outgoing a)"
    "buffered a' = buffered a + int (length data)" "window a' = window a"
    by (simp_all add: a'_def enqueue_def Let_def window_def pkeys_def msg_def q_def)
  have new: "map_of (outgoing a) (s, msg) = None"
    using ok by (cases "map_of (outgoing a) (s, msg)") (force simp: sender_ok_def account_ok_def msg_def)+
  then have l0: "load a (s, msg) = 0"
    using ok by (simp add: sender_ok_def account_ok_def)
  have load: "load a' k = load a k + (if k = (s, msg) then n else 0)" for k
    using waiting_update [OF c'(1) f(3), of k] c'(1)
    by (cases k) (auto simp: load_def in_flight_def f waiting_def q_def)
  have len: "s < length (next_message a)"
    using ok c' by (simp add: sender_ok_def config_ok_def)
  have "config_ok a'"
    using config_next [of a s] ok m by (simp add: sender_ok_def config_ok_def f msg_def)
  moreover have "account_ok a'"
  proof -
    have acc: "account_ok a" using ok by (simp add: sender_ok_def)
    have some: "r = int (load a' k) \<and> 0 < r \<and> 0 < l \<and> fst k < length (queues a') \<and> snd k < next_message a' ! fst k"
      if "map_of (outgoing a') k = Some (r, l)" for k r l
    proof (cases "k = (s, msg)")
      case True
      then show ?thesis
        using that l0 n c' len by (auto simp: f load map_of_dset)
    next
      case False
      then have "map_of (outgoing a) k = Some (r, l)"
        using that by (simp add: f map_of_dset)
      then have "r = int (load a k) \<and> 0 < r \<and> 0 < l \<and> fst k < length (queues a) \<and> snd k < next_message a ! fst k"
        using acc account_entry by blast
      then show ?thesis
        using False len by (auto simp: f load nth_list_update msg_def)
    qed
    have none: "load a' k = 0" if "map_of (outgoing a') k = None" for k
      using that account_absent [OF acc, of k] by (auto simp: f load map_of_dset split: if_splits)
    show ?thesis
      using acc room new some none by (simp add: account_ok_def f dsum_new map_of_dset)
  qed
  moreover have "queues_ok a'"
  proof -
    have old: "queued_ok a' t r" if "queued_ok a t r" for t r
      by (rule queued_ok_cong [OF that]) (use len in \<open>auto simp: f nth_list_update msg_def\<close>)
    have "(s, msg, i) \<notin> set (pkeys a)" for i
      using l0 by (auto simp: load_def in_flight_def filter_empty_conv)
    then have "queued_ok a' s q"
      using c' n len by (simp add: queued_ok_def f q_def)
    moreover have "qmessage r \<noteq> msg" if "r \<in> set (queues a ! s)" for r
    proof -
      have "queued_ok a s r"
        using ok c'(1) that by (simp add: sender_ok_def queues_ok_def)
      then show ?thesis
        by (simp add: queued_ok_def msg_def)
    qed
    ultimately show ?thesis
      using ok c' old by (auto simp: sender_ok_def queues_ok_def f nth_list_update q_def)
  qed
  moreover have "active_ok a'"
    using ok c' by (auto simp: sender_ok_def active_ok_def f nth_list_update)
  moreover have "window_ok a'"
    using ok by (simp add: sender_ok_def window_ok_def f)
  ultimately show ?thesis
    by (simp add: sender_ok_def a'_def)
qed

definition send_allowed :: "int \<Rightarrow> bytes \<Rightarrow> adapter \<Rightarrow> bool" where
  "send_allowed stream data a \<longleftrightarrow>
     check_send stream data a = Inr (chunk_count (cpayload (acodec a)) data) \<and>
     buffered a + int (length data) \<le> max_inflight (alimits a) \<and> length (outgoing a) < 4096 \<and>
     next_message a ! nat stream < 2 ^ 64 - 1"

lemma send_accepts:
  "send_allowed stream data a \<Longrightarrow>
     send ci now stream data a =
       outbound ci now (enqueue (nat stream) data (chunk_count (cpayload (acodec a)) data) a)"
  by (simp add: send_allowed_def send_def raise_if_def)

lemma send_refuses:
  assumes "\<not> send_allowed stream data a"
  shows "\<exists>e. send ci now stream data a = (Inl e, a)"
proof (cases "check_send stream data a")
  case (Inl e)
  then show ?thesis by (simp add: send_def)
next
  case (Inr n)
  then have "check_send stream data a = Inr (chunk_count (cpayload (acodec a)) data)"
    by (simp add: check_send_Inr)
  then show ?thesis
    using assms by (auto simp: send_def send_allowed_def raise_if_def)
qed

lemma send_keeps:
  assumes "sender_ok a"
  shows "sender_ok (snd (send ci now stream data a))"
proof (cases "send_allowed stream data a")
  case True
  then have "int (nat stream) = stream"
    by (simp add: send_allowed_def check_send_Inr)
  with True have "sender_ok (enqueue (nat stream) data (chunk_count (cpayload (acodec a)) data) a)"
    by (intro enqueue_ok [OF assms]) (simp_all add: send_allowed_def)
  then show ?thesis
    using outbound_keeps by (simp add: send_accepts [OF True])
next
  case False
  then show ?thesis
    using assms send_refuses [OF False, of ci now] by auto
qed

lemma send_flow_controlled_keeps: "sender_ok a \<Longrightarrow> sender_ok (snd (send_flow_controlled ci now stream data a))"
  by (simp add: send_flow_controlled_def send_keeps split: sum.splits)

lemma close_keeps:
  assumes "sender_ok a"
  shows "sender_ok (close a)"
proof -
  define b where "b = close a"
  have w: "0 \<le> window a"
    using assms by (simp add: sender_ok_def window_ok_def)
  have f: "alimits b = alimits a" "acodec b = acodec a" "apolicy b = apolicy a" "next_message b = next_message a"
    "window b = window a" "length (queues b) = length (queues a)"
    by (simp_all add: b_def close_def window_def)
  have e: "pending b = []" "outgoing b = []" "active_streams b = []" "buffered b = 0" "\<forall>q \<in> set (queues b). q = []"
    if "\<not> closed a"
    using that by (auto simp: b_def close_def)
  have q: "queues b ! t = []" if "\<not> closed a" "t < length (queues a)" for t
    using e(5) that f(6) by simp
  have "0 \<le> max_inflight (alimits a)"
    using assms by (simp add: sender_ok_def config_ok_def limits_ok_def)
  then have "sender_ok b" if "\<not> closed a"
  proof -
    have "load b k = 0" for k
      using e(1) q that f(6) by (simp add: load_def in_flight_def waiting_def pkeys_def)
    moreover have "config_ok b"
      using assms by (simp add: sender_ok_def config_ok_def f)
    moreover have "queues_ok b"
      using q [OF that] by (auto simp: queues_ok_def f)
    moreover have "active_ok b"
      using q [OF that] e(3) [OF that] by (auto simp: active_ok_def f)
    ultimately show ?thesis
      using e [OF that] w \<open>0 \<le> max_inflight (alimits a)\<close>
      by (simp add: sender_ok_def account_ok_def window_ok_def pkeys_def f)
  qed
  then show ?thesis
    using assms by (cases "closed a") (simp_all add: close_def b_def)
qed

lemma extension_payload_Inr:
  "extension_payload stream name v a = Inr p \<Longrightarrow>
     0 \<le> stream \<and> stream < max_streams (alimits a) \<and> next_message a ! nat stream < 2 ^ 64 - 1 \<and> \<not> closed a \<and>
     name \<in> set (extensions a) \<and> portable_payload (JObj [(asc ''name'', JStr name), (asc ''value'', v)]) = Inr p"
  by (auto simp: extension_payload_def ensure_open_def)

lemma extension_keeps:
  assumes ok: "sender_ok a"
  shows "sender_ok (snd (extension ci stream name v a))"
proof (cases "extension_payload stream name v a")
  case (Inr p)
  define s where "s = nat stream"
  have s: "s < length (next_message a)" and m: "next_message a ! s < 2 ^ 64 - 1"
    using extension_payload_Inr [OF Inr] ok by (auto simp: s_def sender_ok_def config_ok_def)
  have e: "snd (extension ci stream name v a) = a\<lparr>next_message := (next_message a)[s := next_message a ! s + 1]\<rparr>"
    using Inr by (simp add: extension_def s_def Let_def)
  define b where "b = snd (extension ci stream name v a)"
  have f: "pkeys b = pkeys a" "pending b = pending a" "queues b = queues a" "active_streams b = active_streams a"
    "alimits b = alimits a" "acodec b = acodec a" "apolicy b = apolicy a" "outgoing b = outgoing a"
    "next_message b = (next_message a)[s := next_message a ! s + 1]" "buffered b = buffered a" "window b = window a"
    and l: "load b k = load a k" for k
    by (simp_all add: b_def e window_def pkeys_def load_def in_flight_def waiting_def)
  have le: "next_message a ! t \<le> next_message b ! t" for t
    using s by (simp add: f nth_list_update')
  have q: "queued_ok b t r" if "queued_ok a t r" for t r
    by (rule queued_ok_cong [OF that]) (simp_all add: le f(1-8))
  have "config_ok b"
    using config_next [of a s] ok m by (simp add: sender_ok_def config_ok_def f)
  moreover have "account_ok b"
  proof -
    have acc: "account_ok a" using ok by (simp add: sender_ok_def)
    have "r = int (load b k) \<and> 0 < r \<and> 0 < l \<and> fst k < length (queues b) \<and> snd k < next_message b ! fst k"
      if "map_of (outgoing b) k = Some (r, l)" for k r l
      using account_entry [OF acc, of k r l] that le [of "fst k"] by (simp add: f(1-8) f(10,11) l)
    moreover have "load b k = 0" if "map_of (outgoing b) k = None" for k
      using account_absent [OF acc, of k] that by (simp add: f(8) l)
    moreover have "dict_ok (outgoing b) \<and> length (outgoing b) \<le> 4096 \<and> buffered b = dsum snd (outgoing b) \<and>
        buffered b \<le> max_inflight (alimits b)"
      using acc by (simp add: account_ok_def f(5,8,10))
    ultimately show ?thesis
      unfolding account_ok_def by blast
  qed
  ultimately show ?thesis
    using ok q unfolding b_def [symmetric]
    by (simp add: sender_ok_def window_ok_def queues_ok_def active_ok_def f(1-4,11))
qed (use ok in \<open>simp add: extension_def\<close>)

section \<open>Acknowledgements and retransmission\<close>

lemma in_flight_ddel:
  assumes "distinct (map fst d)" "(s, m, i) \<in> set (map fst d)"
  shows "length (filter (\<lambda>(s', m', i'). (s', m') = k) (map fst d)) =
    length (filter (\<lambda>(s', m', i'). (s', m') = k) (map fst (ddel (s, m, i) d))) + (if k = (s, m) then 1 else 0)"
  using assms
proof (induction d)
  case (Cons p d)
  obtain key item where p: "p = (key, item)"
    by (cases p)
  show ?case
  proof (cases "key = (s, m, i)")
    case True
    then have "map_of d (s, m, i) = None"
      using Cons.prems p by (simp add: map_of_eq_None_iff)
    then show ?thesis
      using True p by (auto simp: ddel_absent)
  next
    case False
    then show ?thesis
      using Cons p by auto
  qed
qed simp

lemma pkeys_Some: "map_of (pending a) k = Some item \<Longrightarrow> k \<in> set (pkeys a)"
  by (force simp: pkeys_def dest: map_of_SomeD)

lemma acked_present:
  assumes "sender_ok a" "(s, m, i) \<in> set (pkeys a)"
  obtains r l where "map_of (outgoing a) (s, m) = Some (r, l)"
proof (cases "map_of (outgoing a) (s, m)")
  case None
  then have "load a (s, m) = 0"
    using assms(1) account_absent by (simp add: sender_ok_def)
  then show thesis
    using assms(2) by (auto simp: load_def in_flight_def filter_empty_conv)
qed (use that in auto)

lemma sample_same: "same_sender a (sample rtt a)"
  by (simp add: same_sender_def sample_def pkeys_def split: prod.splits)

text \<open>The two updates of an acknowledgement, without the round-trip sample.\<close>

lemma ack_ok:
  assumes ok: "sender_ok a" and key: "(s, m, i) \<in> set (pkeys a)" and out: "map_of (outgoing a) (s, m) = Some (r, l)"
    and b: "b = a\<lparr>pending := ddel (s, m, i) (pending a),
      buffered := (if r - 1 = 0 then buffered a - l else buffered a),
      outgoing := (if r - 1 = 0 then ddel (s, m) (outgoing a) else dset (s, m) (r - 1, l) (outgoing a))\<rparr>"
  shows "sender_ok b"
proof -
  have acc: "account_ok a" and dist: "distinct (pkeys a)"
    using ok by (simp_all add: sender_ok_def window_ok_def)
  have f: "alimits b = alimits a" "acodec b = acodec a" "apolicy b = apolicy a" "next_message b = next_message a"
    "queues b = queues a" "active_streams b = active_streams a" "window b = window a"
    "outgoing b = (if r - 1 = 0 then ddel (s, m) (outgoing a) else dset (s, m) (r - 1, l) (outgoing a))"
    "buffered b = (if r - 1 = 0 then buffered a - l else buffered a)" "pending b = ddel (s, m, i) (pending a)"
    by (simp_all add: b window_def)
  have load: "load a k = load b k + (if k = (s, m) then 1 else 0)" for k
    using in_flight_ddel [of "pending a" s m i k] dist key
    by (simp add: load_def in_flight_def waiting_def pkeys_def f)
  have e: "r = int (load a (s, m))" "0 < r" "0 < l" "s < length (queues a)" "m < next_message a ! s"
    using account_entry [OF acc out] by auto
  have keys: "set (pkeys b) \<subseteq> set (pkeys a)" "distinct (pkeys b)" "length (pending b) \<le> length (pending a)"
    using dist by (auto simp: pkeys_def f delete_keys length_ddel_le distinct_removeAll)
  have "r' = int (load b k) \<and> 0 < r' \<and> 0 < l' \<and> fst k < length (queues b) \<and> snd k < next_message b ! fst k"
    if "map_of (outgoing b) k = Some (r', l')" for k r' l'
    using that e load [of k] account_entry [OF acc, of k r' l']
    by (auto simp: f map_of_ddel map_of_dset split: if_splits)
  moreover have "load b k = 0" if "map_of (outgoing b) k = None" for k
    using that e load [of k] account_absent [OF acc, of k]
    by (auto simp: f map_of_ddel map_of_dset split: if_splits)
  moreover have "dict_ok (outgoing b) \<and> length (outgoing b) \<le> 4096 \<and> buffered b = dsum snd (outgoing b) \<and>
      buffered b \<le> max_inflight (alimits b)"
  proof -
    have g: "dict_ok (outgoing a)" "length (outgoing a) \<le> 4096" "buffered a = dsum snd (outgoing a)"
      "buffered a \<le> max_inflight (alimits a)"
      using acc by (simp_all add: account_ok_def)
    have "dsum snd (ddel (s, m) (outgoing a)) + l = dsum snd (outgoing a)"
      "dsum snd (dset (s, m) (r - 1, l) (outgoing a)) = dsum snd (outgoing a)"
      using dsum_ddel [OF g(1) out, of snd] dsum_old [OF out, of snd "(r - 1, l)"] by simp_all
    then show ?thesis
      using g e(3) out length_ddel_le [of "(s, m)" "outgoing a"]
      by (cases "r - 1 = 0") (simp_all add: f)
  qed
  ultimately have "account_ok b"
    unfolding account_ok_def by blast
  moreover have "queued_ok b t q" if "queued_ok a t q" for t q
    by (rule queued_ok_cong [OF that]) (use keys in \<open>auto simp: f(1-7)\<close>)
  ultimately show ?thesis
    using ok keys
    by (simp add: sender_ok_def config_ok_def window_ok_def queues_ok_def active_ok_def f(1-7))
qed

lemma receive_ack_ok:
  assumes ok: "sender_ok a"
  obtains a' where "receive_ack now f a = (Inr ([], [], []), a')" "sender_ok a'"
proof (cases "map_of (pending a) (fstream f, fmessage f, findex f)")
  case None
  then show thesis
    using that ok by (simp add: receive_ack_def)
next
  case (Some item)
  have key: "(fstream f, fmessage f, findex f) \<in> set (pkeys a)"
    using Some by (rule pkeys_Some)
  obtain r l where out: "map_of (outgoing a) (fstream f, fmessage f) = Some (r, l)"
    using acked_present [OF ok key] by blast
  define b where "b = a\<lparr>pending := ddel (fstream f, fmessage f, findex f) (pending a),
      buffered := (if r - 1 = 0 then buffered a - l else buffered a),
      outgoing := (if r - 1 = 0 then ddel (fstream f, fmessage f) (outgoing a)
                   else dset (fstream f, fmessage f) (r - 1, l) (outgoing a))\<rparr>"
  have b: "sender_ok b"
    by (rule ack_ok [OF ok key out b_def])
  define c where "c = (if sretried item then b else sample (max 0 (now - ssent item)) b)"
  have "sender_ok c"
    using b sender_ok_same [OF b sample_same] by (simp add: c_def)
  moreover have "receive_ack now f a = (Inr ([], [], []), c)"
    using Some out by (cases "r - 1 = 0") (simp_all add: receive_ack_def Let_def c_def b_def)
  ultimately show thesis
    using that by blast
qed

lemma remember_same: "same_sender a (remember key a)"
  by (simp add: same_sender_def remember_def pkeys_def Let_def)

lemma same_sender_trans: "same_sender a b \<Longrightarrow> same_sender b c \<Longrightarrow> same_sender a c"
  by (simp add: same_sender_def)

lemma receive_data_same: "same_sender a (snd (receive_data now ack f a))"
  by (auto simp: receive_data_def Let_def same_sender_def pkeys_def remember_def split: sum.splits)

lemma receive_extension_same: "same_sender a (snd (receive_extension nfc ack f a))"
  by (auto simp: receive_extension_def Let_def same_sender_def pkeys_def remember_def split: sum.splits)

lemma receive_keeps:
  assumes ok: "sender_ok a"
  shows "sender_ok (snd (receive ci nfc now wire a))"
proof (cases "ebind (ensure_open a) (\<lambda>_. decode_frame ci (acodec a) wire)")
  case (Inr f)
  show ?thesis
  proof (cases "fkind f = ACK")
    case True
    moreover obtain a' where "receive_ack now f a = (Inr ([], [], []), a')" "sender_ok a'"
      by (rule receive_ack_ok [OF ok])
    ultimately show ?thesis
      using Inr by (simp add: receive_def)
  next
    case False
    then show ?thesis
      using Inr ok sender_ok_same [OF ok receive_data_same] sender_ok_same [OF ok receive_extension_same]
      by (simp add: receive_def split: sum.splits)
  qed
qed (use ok in \<open>simp add: receive_def\<close>)

lemma expire_same: "same_sender a (expire now items a)"
proof (induction now items a rule: expire.induct)
  case (2 now key st items a)
  have "same_sender a (if rdeadline st \<le> now
      then a\<lparr>incoming := ddel key (incoming a), incoming_bytes := incoming_bytes a - rbytes st\<rparr> else a)"
    by (simp add: same_sender_def pkeys_def)
  then show ?case
    using same_sender_trans [OF _ 2] by simp
qed (simp add: same_sender_def)

lemma resend_same:
  "set (map fst items) \<subseteq> set (pkeys a) \<Longrightarrow> same_sender a (snd (resend now items frames a))"
proof (induction now items frames a rule: resend.induct)
  case (2 now key item items frames a)
  define b where "b = a\<lparr>pending := dset key (retry_item now (rto a) item) (pending a)\<rparr>"
  have k: "pkeys b = pkeys a"
    using 2(3) by (auto simp: b_def pkeys_def update_keys)
  have "same_sender a b"
    using k by (simp add: same_sender_def b_def)
  moreover have "same_sender b (snd (resend now items (frames @ [swire item]) b))"
    if "\<not> now < sdeadline item" "\<not> 8 \<le> sattempts item"
    using 2(2) [OF that] 2(3) k by (simp add: b_def)
  ultimately show ?case
    using 2(1,3) same_sender_trans by (auto simp: same_sender_def simp flip: b_def)
qed (simp add: same_sender_def)

lemma retransmit_keeps:
  assumes "sender_ok a"
  shows "sender_ok (snd (retransmit ci now a))"
proof -
  define b where "b = expire now (incoming a) a"
  have b: "same_sender a b"
    by (simp add: b_def expire_same)
  have "same_sender b (snd (resend now (pending a) [] b))"
    using b by (intro resend_same) (simp add: same_sender_def pkeys_def)
  then have "sender_ok (snd (resend now (pending a) [] b))"
    using sender_ok_same [OF assms] same_sender_trans [OF b] by blast
  then show ?thesis
    using assms outbound_keeps [of "snd (resend now (pending a) [] b)" ci now]
    by (auto simp: retransmit_def simp flip: b_def split: sum.splits prod.splits)
qed

end
