(* ===== verification/S6_Receiver.thy ===== *)
theory S6_Receiver
  imports S6_Adapter
begin

text \<open>
  The receiving side of the adapter: the invariant of the reassembly buffers and of the window of
  completed messages, that every operation keeps it, that no internal lookup fails, and that the
  chunks of a message, in any order and with any repetitions, give the message exactly once.
\<close>

section \<open>The invariant\<close>

definition reassembly_ok :: "limits \<Rightarrow> reassembly \<Rightarrow> bool" where
  "reassembly_ok l st \<longleftrightarrow>
     dict_ok (rparts st) \<and> rbytes st = dsum (int \<circ> length) (rparts st) \<and> rbytes st \<le> max_message l \<and>
     (\<forall>(i, p) \<in> set (rparts st). i < rcount st \<and> p \<noteq> []) \<and> 0 < length (rparts st) \<and> length (rparts st) < rcount st"

definition completed_ok :: "adapter \<Rightarrow> bool" where
  "completed_ok a \<longleftrightarrow>
     completed a = set (completed_order a) \<and> distinct (completed_order a) \<and> length (completed_order a) \<le> 4096"

definition incoming_ok :: "adapter \<Rightarrow> bool" where
  "incoming_ok a \<longleftrightarrow>
     dict_ok (incoming a) \<and> length (incoming a) \<le> 4096 \<and> incoming_bytes a = dsum rbytes (incoming a) \<and>
     incoming_bytes a \<le> max_inflight (alimits a) \<and> (\<forall>(k, st) \<in> set (incoming a). reassembly_ok (alimits a) st)"

definition receiver_ok :: "adapter \<Rightarrow> bool" where
  "receiver_ok a \<longleftrightarrow> completed_ok a \<and> incoming_ok a \<and> limits_ok (alimits a)"

definition same_receiver :: "adapter \<Rightarrow> adapter \<Rightarrow> bool" where
  "same_receiver a b \<longleftrightarrow>
     alimits a = alimits b \<and> incoming a = incoming b \<and> incoming_bytes a = incoming_bytes b \<and>
     completed a = completed b \<and> completed_order a = completed_order b"

lemma receiver_ok_same: "receiver_ok a \<Longrightarrow> same_receiver a b \<Longrightarrow> receiver_ok b"
  by (auto simp: receiver_ok_def completed_ok_def incoming_ok_def same_receiver_def)

lemma same_receiver_trans: "same_receiver a b \<Longrightarrow> same_receiver b c \<Longrightarrow> same_receiver a c"
  by (simp add: same_receiver_def)

lemma same_receiver_refl [simp]: "same_receiver a a"
  by (simp add: same_receiver_def)

section \<open>The window of completed messages\<close>

lemma remember_ok:
  assumes "completed_ok a" "key \<notin> completed a"
  shows "completed_ok (remember key a)" "key \<in> completed (remember key a)"
proof -
  obtain x xs where o: "completed_order a @ [key] = x # xs"
    by (cases "completed_order a") auto
  have d: "distinct (x # xs)" "set (x # xs) = insert key (completed a)" "length (x # xs) \<le> 4097"
    using assms by (simp_all add: completed_ok_def flip: o)
  show "completed_ok (remember key a)"
    using d o by (auto simp: remember_def completed_ok_def Let_def)
  have "x = key \<Longrightarrow> xs = []"
    using o assms by (cases "completed_order a") (auto simp: completed_ok_def)
  then show "key \<in> completed (remember key a)"
    using d o by (auto simp: remember_def Let_def)
qed

lemma remember_fields [simp]:
  "incoming (remember key a) = incoming a" "incoming_bytes (remember key a) = incoming_bytes a"
  "alimits (remember key a) = alimits a" "acodec (remember key a) = acodec a" "closed (remember key a) = closed a"
  "extensions (remember key a) = extensions a"
  by (simp_all add: remember_def Let_def)

section \<open>Adding a chunk\<close>

text \<open>A reassembly with its chunk added: complete or still open.\<close>

definition added_ok :: "limits \<Rightarrow> nat \<Rightarrow> reassembly \<Rightarrow> bool" where
  "added_ok l count st \<longleftrightarrow>
     dict_ok (rparts st) \<and> rbytes st = dsum (int \<circ> length) (rparts st) \<and> rbytes st \<le> max_message l \<and> rcount st = count \<and>
     (\<forall>(i, p) \<in> set (rparts st). i < count \<and> p \<noteq> []) \<and> 0 < length (rparts st)"

definition base_state :: "rat \<Rightarrow> frame \<Rightarrow> adapter \<Rightarrow> reassembly" where
  "base_state now f a =
     (case map_of (incoming a) (fstream f, fmessage f) of None \<Rightarrow> new_reassembly now (fcount f) a | Some st \<Rightarrow> st)"

lemma add_chunk_Inr:
  assumes "add_chunk now f a = Inr (st, fresh)"
  shows "fpayload f \<noteq> []"
    "map_of (incoming a) (fstream f, fmessage f) = None \<Longrightarrow> length (incoming a) < 4096"
    "rcount (base_state now f a) = fcount f"
    "fresh \<longleftrightarrow> map_of (rparts (base_state now f a)) (findex f) = None"
    "\<not> fresh \<Longrightarrow> st = base_state now f a"
    "fresh \<Longrightarrow> st = (base_state now f a)\<lparr>rparts := dset (findex f) (fpayload f) (rparts (base_state now f a)),
       rbytes := rbytes (base_state now f a) + int (length (fpayload f))\<rparr> \<and>
       incoming_bytes a + int (length (fpayload f)) \<le> max_inflight (alimits a) \<and>
       rbytes (base_state now f a) + int (length (fpayload f)) \<le> max_message (alimits a)"
  using assms by (auto simp: add_chunk_def add_part_def reassembly_state_def base_state_def split: option.splits if_splits)

lemma base_state_ok:
  assumes "receiver_ok a"
  shows "dict_ok (rparts (base_state now f a)) \<and>
     rbytes (base_state now f a) = dsum (int \<circ> length) (rparts (base_state now f a)) \<and>
     rbytes (base_state now f a) \<le> max_message (alimits a) \<and>
     (\<forall>(i, p) \<in> set (rparts (base_state now f a)). i < rcount (base_state now f a) \<and> p \<noteq> [])"
  using assms
  by (auto simp: base_state_def new_reassembly_def receiver_ok_def incoming_ok_def reassembly_ok_def limits_ok_def
      dest!: map_of_SomeD split: option.splits)

lemma add_chunk_ok:
  assumes ok: "receiver_ok a" and add: "add_chunk now f a = Inr (st, fresh)" and i: "findex f < fcount f"
  shows "added_ok (alimits a) (fcount f) st"
proof (cases fresh)
  case True
  note A = add_chunk_Inr [OF add]
  have n: "map_of (rparts (base_state now f a)) (findex f) = None"
    using A(4) True by simp
  show ?thesis
    using base_state_ok [OF ok, of now f] A(1,3) A(6) [OF True] n i
    by (auto simp: added_ok_def dset_new dsum_new dict_ok_def map_of_eq_None_iff)
next
  case False
  note A = add_chunk_Inr [OF add]
  have "rparts st \<noteq> []"
    using A(4,5) False by auto
  then show ?thesis
    using base_state_ok [OF ok, of now f] A(3) A(5) [OF False] by (auto simp: added_ok_def)
qed

text \<open>A full set of distinct indices below the count has every index.\<close>

lemma added_complete:
  assumes "added_ok l count st" "length (rparts st) = count"
  shows "set (map fst (rparts st)) = {0 ..< count}"
proof (rule card_subset_eq)
  show "set (map fst (rparts st)) \<subseteq> {0 ..< count}"
    using assms(1) by (auto simp: added_ok_def)
  show "card (set (map fst (rparts st))) = card {0 ..< count}"
    using assms by (simp add: added_ok_def dict_ok_def distinct_card flip: set_map)
qed simp

lemma join_parts_ok:
  "set is \<subseteq> set (map fst parts) \<Longrightarrow> join_parts parts is = Inr (concat (map (\<lambda>i. the (map_of parts i)) is))"
proof (induction "is")
  case (Cons i "is")
  then obtain p where "map_of parts i = Some p"
    by (cases "map_of parts i") (auto simp: map_of_eq_None_iff)
  with Cons show ?case by simp
qed simp

section \<open>Receiving data\<close>

lemma reassembly_size: "reassembly_ok l st \<Longrightarrow> 0 \<le> rbytes st"
  by (auto simp: reassembly_ok_def intro: dsum_nonneg)

lemma added_size: "added_ok l n st \<Longrightarrow> int (length (concat (map (\<lambda>i. the (map_of (rparts st) i)) [0 ..< n]))) = rbytes st"
  if "set (map fst (rparts st)) = {0 ..< n}"
proof -
  assume ok: "added_ok l n st"
  have d: "distinct (map fst (rparts st))"
    using ok by (simp add: added_ok_def dict_ok_def)
  have "int (length (concat (map (\<lambda>i. the (map_of (rparts st) i)) [0 ..< n]))) =
      (\<Sum>i \<in> {0 ..< n}. int (length (the (map_of (rparts st) i))))"
    by (simp add: length_concat sum_list_distinct_conv_sum_set comp_def flip: sum_list_of_nat)
  also have "\<dots> = sum_list (map (\<lambda>i. int (length (the (map_of (rparts st) i)))) (map fst (rparts st)))"
    using d that by (simp add: sum_list_distinct_conv_sum_set del: map_map set_map)
  also have "\<dots> = dsum (int \<circ> length) (rparts st)"
    using d by (auto simp: dsum_def intro!: arg_cong [of _ _ sum_list] map_cong)
  also have "\<dots> = rbytes st"
    using ok by (simp add: added_ok_def)
  finally show ?thesis .
qed

text \<open>The state with the chunk stored, before the test for completion.\<close>

definition stored :: "frame \<Rightarrow> reassembly \<Rightarrow> bool \<Rightarrow> adapter \<Rightarrow> adapter" where
  "stored f st fresh a =
     a\<lparr>incoming_bytes := incoming_bytes a + (if fresh then int (length (fpayload f)) else 0),
       incoming := dset (fstream f, fmessage f) st (incoming a)\<rparr>"

definition delivered :: "frame \<Rightarrow> reassembly \<Rightarrow> bytes" where
  "delivered f st = concat (map (\<lambda>i. the (map_of (rparts st) i)) [0 ..< fcount f])"

lemma receive_data_cases:
  assumes ok: "receiver_ok a" and i: "findex f < fcount f"
  shows "receive_data now ack f a =
    (if (fstream f, fmessage f) \<in> completed a then (Inr ([ack], [], []), a)
     else (case add_chunk now f a of
             Inl e \<Rightarrow> (Inl e, a)
           | Inr (st, fresh) \<Rightarrow>
               if length (rparts st) \<noteq> fcount f then (Inr ([ack], [], []), stored f st fresh a)
               else (Inr ([ack], [(fstream f, delivered f st)], []),
                     remember (fstream f, fmessage f)
                       ((stored f st fresh a)\<lparr>incoming := ddel (fstream f, fmessage f) (incoming (stored f st fresh a)),
                          incoming_bytes := incoming_bytes (stored f st fresh a) - rbytes st\<rparr>))))"
proof (cases "add_chunk now f a")
  case (Inl e)
  then show ?thesis by (simp add: receive_data_def)
next
  case (Inr r)
  obtain st fresh where r: "r = (st, fresh)"
    by (cases r)
  have add: "added_ok (alimits a) (fcount f) st"
    using add_chunk_ok [OF ok _ i] Inr r by blast
  show ?thesis
  proof (cases "length (rparts st) = fcount f")
    case True
    have s: "set (map fst (rparts st)) = {0 ..< fcount f}"
      by (rule added_complete [OF add True])
    have j: "join_parts (rparts st) [0 ..< fcount f] = Inr (delivered f st)"
      using s by (simp add: join_parts_ok delivered_def)
    have "int (length (delivered f st)) \<le> max_message (alimits a)"
      using added_size [OF s add] add by (simp add: delivered_def added_ok_def)
    then show ?thesis
      using Inr r True j by (simp add: receive_data_def stored_def Let_def)
  next
    case False
    then show ?thesis
      using Inr r by (simp add: receive_data_def stored_def Let_def)
  qed
qed

lemma incoming_entry: "incoming_ok a \<Longrightarrow> map_of (incoming a) k = Some st \<Longrightarrow> reassembly_ok (alimits a) st"
  by (auto simp: incoming_ok_def dest!: map_of_SomeD)

lemma incoming_drop:
  assumes "incoming_ok a" "map_of (incoming a) k = Some st"
  shows "incoming_ok (a\<lparr>incoming := ddel k (incoming a), incoming_bytes := incoming_bytes a - rbytes st\<rparr>)"
proof -
  have "dsum rbytes (ddel k (incoming a)) + rbytes st = dsum rbytes (incoming a)"
    using assms by (intro dsum_ddel) (simp_all add: incoming_ok_def)
  moreover have "0 \<le> rbytes st"
    using incoming_entry [OF assms] by (rule reassembly_size)
  ultimately show ?thesis
    using assms length_ddel_le [of k "incoming a"] by (auto simp: incoming_ok_def dest!: set_ddel)
qed

lemma stored_bytes:
  assumes ok: "receiver_ok a" and add: "add_chunk now f a = Inr (st, fresh)"
  shows "incoming_bytes (stored f st fresh a) = dsum rbytes (incoming (stored f st fresh a))"
    "incoming_bytes (stored f st fresh a) \<le> max_inflight (alimits a)"
proof -
  note A = add_chunk_Inr [OF add]
  have inc: "incoming_bytes a = dsum rbytes (incoming a)" "incoming_bytes a \<le> max_inflight (alimits a)"
    using ok by (simp_all add: receiver_ok_def incoming_ok_def)
  have st: "rbytes st = rbytes (base_state now f a) + (if fresh then int (length (fpayload f)) else 0)"
    using A(5,6) by (cases fresh) auto
  show "incoming_bytes (stored f st fresh a) = dsum rbytes (incoming (stored f st fresh a))"
  proof (cases "map_of (incoming a) (fstream f, fmessage f)")
    case None
    then show ?thesis
      using st inc by (simp add: stored_def dsum_new base_state_def new_reassembly_def)
  next
    case (Some old)
    then show ?thesis
      using st inc dsum_old [OF Some, of rbytes st] by (simp add: stored_def base_state_def)
  qed
  show "incoming_bytes (stored f st fresh a) \<le> max_inflight (alimits a)"
    using A(6) inc by (cases fresh) (simp_all add: stored_def)
qed

lemma stored_ok:
  assumes ok: "receiver_ok a" and add: "add_chunk now f a = Inr (st, fresh)" and i: "findex f < fcount f"
    and open_: "length (rparts st) \<noteq> fcount f"
  shows "receiver_ok (stored f st fresh a)"
proof -
  have added: "added_ok (alimits a) (fcount f) st"
    by (rule add_chunk_ok [OF ok add i])
  have "length (rparts st) \<le> fcount f"
  proof -
    have "set (map fst (rparts st)) \<subseteq> {0 ..< fcount f}" "distinct (map fst (rparts st))"
      using added by (auto simp: added_ok_def dict_ok_def)
    then show ?thesis
      by (metis card_atLeastLessThan card_mono diff_zero distinct_card finite_atLeastLessThan length_map)
  qed
  then have st: "reassembly_ok (alimits a) st"
    using added open_ by (auto simp: added_ok_def reassembly_ok_def)
  have len: "length (dset (fstream f, fmessage f) st (incoming a)) \<le> 4096"
    using ok add_chunk_Inr(2) [OF add]
    by (cases "map_of (incoming a) (fstream f, fmessage f)") (auto simp: receiver_ok_def incoming_ok_def)
  show ?thesis
    using ok st len stored_bytes [OF ok add]
    by (auto simp: receiver_ok_def incoming_ok_def completed_ok_def stored_def dest!: set_dset)
qed

lemma finished_ok:
  assumes ok: "receiver_ok a" and add: "add_chunk now f a = Inr (st, fresh)" and new: "(fstream f, fmessage f) \<notin> completed a"
  defines "b \<equiv> stored f st fresh a"
  shows "receiver_ok (remember (fstream f, fmessage f)
    (b\<lparr>incoming := ddel (fstream f, fmessage f) (incoming b), incoming_bytes := incoming_bytes b - rbytes st\<rparr>))"
proof -
  let ?k = "(fstream f, fmessage f)"
  define c where "c = b\<lparr>incoming := ddel ?k (incoming b), incoming_bytes := incoming_bytes b - rbytes st\<rparr>"
  have bs: "incoming_bytes b = dsum rbytes (incoming b)" and le: "incoming_bytes b \<le> max_inflight (alimits a)"
    using stored_bytes [OF ok add] by (simp_all add: b_def)
  have dict: "dict_ok (incoming b)" "map_of (incoming b) ?k = Some st"
    using ok by (simp_all add: b_def stored_def receiver_ok_def incoming_ok_def map_of_dset)
  have inc: "incoming b = dset ?k st (incoming a)"
    by (simp add: b_def stored_def)
  have del: "ddel ?k (incoming b) = ddel ?k (incoming a)"
    by (simp add: inc delete_update_same)
  have sum: "dsum rbytes (ddel ?k (incoming b)) + rbytes st = dsum rbytes (incoming b)"
    by (rule dsum_ddel [OF dict])
  have nn: "0 \<le> rbytes st"
    using add_chunk_Inr(5,6) [OF add] base_state_ok [OF ok, of now f]
    by (cases fresh) (auto intro!: dsum_nonneg add_nonneg_nonneg)
  have c: "incoming c = ddel ?k (incoming a)" "incoming_bytes c = incoming_bytes b - rbytes st" "alimits c = alimits a"
    using del by (simp_all add: c_def) (simp add: b_def stored_def)
  have "incoming_ok c"
    using ok bs le sum nn length_ddel_le [of ?k "incoming a"]
    by (auto simp: c incoming_ok_def receiver_ok_def del dest!: set_ddel)
  moreover have "completed_ok c" "?k \<notin> completed c" "limits_ok (alimits c)"
    using ok new by (simp_all add: c_def b_def stored_def receiver_ok_def completed_ok_def)
  ultimately show ?thesis
    using remember_ok(1) [of c ?k] by (simp add: receiver_ok_def incoming_ok_def flip: c_def)
qed

lemma receive_data_keeps:
  assumes ok: "receiver_ok a" and i: "findex f < fcount f"
  shows "receiver_ok (snd (receive_data now ack f a))"
  unfolding receive_data_cases [OF assms]
  using ok stored_ok [OF ok _ i] finished_ok [OF ok]
  by (auto split: sum.splits)

lemma receive_extension_keeps:
  assumes ok: "receiver_ok a"
  shows "receiver_ok (snd (receive_extension nfc ack f a))"
  using ok remember_ok(1) [of a "(fstream f, fmessage f)"]
  by (auto simp: receive_extension_def Let_def receiver_ok_def incoming_ok_def split: sum.splits)

section \<open>Every operation keeps the invariant\<close>

lemma emit_recv: "same_receiver a (snd (emit ci now s a))"
  by (auto simp: emit_def Let_def same_receiver_def split: sum.splits)

lemma outbound_loop_recv: "same_receiver a (snd (outbound_loop ci now a frames))"
proof (induction ci now a frames rule: outbound_loop.induct)
  case (1 ci now a frames)
  let ?a = "a\<lparr>active_streams := tl (active_streams a)\<rparr>"
  obtain r b where e: "emit ci now (hd (active_streams a)) ?a = (r, b)"
    by (cases "emit ci now (hd (active_streams a)) ?a")
  have "same_receiver ?a b"
    using emit_recv [of ?a ci now "hd (active_streams a)"] e by simp
  then have b: "same_receiver a b"
    by (simp add: same_receiver_def)
  show ?case
  proof (cases "int (length (pending a)) < window a \<and> active_streams a \<noteq> []")
    case True
    show ?thesis
    proof (cases r)
      case (Inl x)
      then show ?thesis
        using True e b by (simp add: outbound_loop.simps [of ci now a])
    next
      case (Inr w)
      then have "same_receiver b (snd (outbound_loop ci now b (frames @ [w])))"
        using 1 True e by auto
      then show ?thesis
        using True e Inr same_receiver_trans [OF b] by (simp add: outbound_loop.simps [of ci now a])
    qed
  next
    case False
    then show ?thesis
      unfolding outbound_loop.simps [of ci now a] if_not_P [OF False] by simp
  qed
qed

lemma outbound_recv: "same_receiver a (snd (outbound ci now a))"
  using outbound_loop_recv by (simp add: outbound_def split: sum.splits)

lemma send_recv: "same_receiver a (snd (send ci now stream data a))"
proof -
  have "same_receiver a (enqueue s data n a)" for s n
    by (simp add: same_receiver_def enqueue_def Let_def)
  then show ?thesis
    using outbound_recv same_receiver_trans by (simp add: send_def split: sum.splits) blast
qed

lemma send_flow_controlled_recv: "same_receiver a (snd (send_flow_controlled ci now stream data a))"
  by (simp add: send_flow_controlled_def send_recv split: sum.splits)

lemma extension_recv: "same_receiver a (snd (extension ci stream name v a))"
  by (simp add: extension_def Let_def same_receiver_def split: sum.splits)

lemma sample_recv: "same_receiver a (sample rtt a)"
  by (simp add: same_receiver_def sample_def split: prod.splits)

lemma receive_ack_recv: "same_receiver a (snd (receive_ack now f a))"
proof -
  have "same_receiver b (if r then b else sample t b)" for b r t
    by (simp add: sample_recv)
  moreover have "same_receiver a (a\<lparr>pending := p, buffered := x, outgoing := y\<rparr>)" for p x y
    by (simp add: same_receiver_def)
  ultimately show ?thesis
    by (simp add: receive_ack_def Let_def same_receiver_def split: option.splits)
qed

lemma resend_recv: "same_receiver a (snd (resend now items frames a))"
proof (induction now items frames a rule: resend.induct)
  case (2 now key item items frames a)
  have "same_receiver a (a\<lparr>pending := dset key (retry_item now (rto a) item) (pending a)\<rparr>)"
    by (simp add: same_receiver_def)
  then show ?case
    using 2 same_receiver_trans by auto
qed simp

lemma close_receiver_ok: "receiver_ok a \<Longrightarrow> receiver_ok (close a)"
  by (auto simp: close_def receiver_ok_def completed_ok_def incoming_ok_def limits_ok_def)

lemma receive_receiver_ok:
  assumes ok: "receiver_ok a"
  shows "receiver_ok (snd (receive ci nfc now wire a))"
proof (cases "ebind (ensure_open a) (\<lambda>_. decode_frame ci (acodec a) wire)")
  case (Inr f)
  then have "findex f < fcount f"
    using decode_frame_bounds(5) by auto
  then show ?thesis
    using Inr ok receive_data_keeps [OF ok] receive_extension_keeps [OF ok] receiver_ok_same [OF ok receive_ack_recv]
    by (simp add: receive_def split: sum.splits)
qed (use ok in \<open>simp add: receive_def\<close>)

text \<open>
  The first loop of \<open>retransmit\<close> goes over a snapshot of the dictionary: an entry of the snapshot
  not visited yet is still in the dictionary, since every visit removes its own key only.
\<close>

lemma expire_receiver_ok:
  "receiver_ok a \<Longrightarrow> distinct (map fst items) \<Longrightarrow> \<forall>(k, st) \<in> set items. map_of (incoming a) k = Some st \<Longrightarrow>
     receiver_ok (expire now items a)"
proof (induction now items a rule: expire.induct)
  case (2 now key st items a)
  define b where "b = (if rdeadline st \<le> now
    then a\<lparr>incoming := ddel key (incoming a), incoming_bytes := incoming_bytes a - rbytes st\<rparr> else a)"
  have "receiver_ok b"
    using 2(2,4) incoming_drop [of a key st] by (simp add: b_def receiver_ok_def completed_ok_def)
  moreover have "map_of (incoming b) k = Some s" if "(k, s) \<in> set items" for k s
  proof -
    have "k \<noteq> key"
      using 2(3) that by (force simp: image_iff)
    then show ?thesis
      using 2(4) that by (auto simp: b_def map_of_ddel)
  qed
  then have "\<forall>(k, s) \<in> set items. map_of (incoming b) k = Some s"
    by blast
  ultimately show ?case
    using 2(1,3) by (simp flip: b_def)
qed simp

lemma retransmit_receiver_ok:
  assumes ok: "receiver_ok a"
  shows "receiver_ok (snd (retransmit ci now a))"
proof -
  define b where "b = expire now (incoming a) a"
  have b: "receiver_ok b"
    unfolding b_def using ok
    by (intro expire_receiver_ok) (auto simp: receiver_ok_def incoming_ok_def dict_ok_def)
  obtain r c where c: "resend now (pending a) [] b = (r, c)"
    by (cases "resend now (pending a) [] b")
  have "receiver_ok c"
    using receiver_ok_same [OF b resend_recv [of b now "pending a" "[]"]] c by simp
  moreover have "receiver_ok (snd (outbound ci now c))"
    using calculation outbound_recv receiver_ok_same by blast
  ultimately show ?thesis
    using ok c by (auto simp: retransmit_def simp flip: b_def split: sum.splits prod.splits)
qed

lemma adapter_init_receiver_ok:
  assumes "adapter_init core key side exts lims transport = Inr a" and "\<forall>l. lims = Some l \<longrightarrow> limits_ok l"
  shows "receiver_ok a"
proof -
  obtain l where l: "l = (case lims of None \<Rightarrow> default_limits | Some l \<Rightarrow> l)"
    and a: "alimits a = l" "incoming a = []" "incoming_bytes a = 0" "completed a = {}" "completed_order a = []"
    by (rule adapter_init_Inr [OF assms(1)]) simp
  have "limits_ok l"
    using assms(2) default_limits_ok by (auto simp: l split: option.splits)
  then show ?thesis
    by (simp add: receiver_ok_def completed_ok_def incoming_ok_def a) (simp add: limits_ok_def)
qed

section \<open>Reassembly in any order\<close>

definition part_frame :: "(nat \<Rightarrow> bytes) \<Rightarrow> nat \<Rightarrow> nat \<Rightarrow> nat \<Rightarrow> nat \<Rightarrow> frame" where
  "part_frame P n s m i = \<lparr>fkind = DATA, fstream = s, fmessage = m, findex = i, fcount = n, fpayload = P i\<rparr>"

text \<open>The adapter holds exactly the chunks \<open>D\<close> of the message, and has room for the others.\<close>

definition holding :: "(nat \<Rightarrow> bytes) \<Rightarrow> nat \<Rightarrow> nat \<times> nat \<Rightarrow> nat set \<Rightarrow> adapter \<Rightarrow> bool" where
  "holding P n k D a \<longleftrightarrow>
     k \<notin> completed a \<and> D \<subset> {0 ..< n} \<and>
     (if D = {} then map_of (incoming a) k = None \<and> length (incoming a) < 4096
      else \<exists>st. map_of (incoming a) k = Some st \<and> rcount st = n \<and> rbytes st = (\<Sum>i \<in> D. int (length (P i))) \<and>
             (\<forall>i. map_of (rparts st) i = (if i \<in> D then Some (P i) else None))) \<and>
     incoming_bytes a + (\<Sum>i \<in> {0 ..< n} - D. int (length (P i))) \<le> max_inflight (alimits a)"

lemma holding_base:
  assumes "holding P n (s, m) D a"
  shows "rcount (base_state now (part_frame P n s m i) a) = n"
    "rbytes (base_state now (part_frame P n s m i) a) = (\<Sum>i \<in> D. int (length (P i)))"
    "map_of (rparts (base_state now (part_frame P n s m i) a)) j = (if j \<in> D then Some (P j) else None)"
  using assms by (auto simp: holding_def base_state_def part_frame_def new_reassembly_def split: if_splits)

lemma holding_add:
  assumes h: "holding P n (s, m) D a" and i: "i < n" and ne: "P i \<noteq> []"
    and fits: "(\<Sum>i \<in> {0 ..< n}. int (length (P i))) \<le> max_message (alimits a)"
  obtains st where "add_chunk now (part_frame P n s m i) a = Inr (st, i \<notin> D)"
    "rcount st = n" "rbytes st = (\<Sum>j \<in> insert i D. int (length (P j)))"
    "\<And>j. map_of (rparts st) j = (if j \<in> insert i D then Some (P j) else None)"
proof -
  let ?f = "part_frame P n s m i" and ?len = "\<lambda>i. int (length (P i))"
  define b where "b = base_state now ?f a"
  have b: "rcount b = n" "rbytes b = (\<Sum>i \<in> D. ?len i)" "\<And>j. map_of (rparts b) j = (if j \<in> D then Some (P j) else None)"
    using holding_base [OF h] by (simp_all add: b_def)
  have D: "D \<subset> {0 ..< n}" and fin: "finite D"
    using h finite_subset [of D "{0 ..< n}"] by (auto simp: holding_def)
  have "reassembly_state now ?f a = Inr b"
    using h by (auto simp: holding_def b_def base_state_def reassembly_state_def part_frame_def split: if_splits)
  then have add: "add_chunk now ?f a = add_part ?f a b"
    using ne by (simp add: add_chunk_def raise_if_def) (simp add: part_frame_def)
  show thesis
  proof (cases "i \<in> D")
    case True
    then show thesis
      using that [of b] add b by (simp add: insert_absorb add_part_def raise_if_def part_frame_def)
  next
    case False
    have "(\<Sum>j \<in> insert i D. ?len j) \<le> (\<Sum>j \<in> {0 ..< n}. ?len j)"
      using D i by (intro sum_mono2) auto
    then have m: "rbytes b + ?len i \<le> max_message (alimits a)"
      using False fin fits b(2) by simp
    have "?len i \<le> (\<Sum>j \<in> {0 ..< n} - D. ?len j)"
      using False i by (intro member_le_sum) auto
    then have "incoming_bytes a + ?len i \<le> max_inflight (alimits a)"
      using h by (simp add: holding_def)
    then show thesis
      using that [of "b\<lparr>rparts := dset i (P i) (rparts b), rbytes := rbytes b + ?len i\<rparr>"] add m b False fin
      by (simp add: add_part_def part_frame_def raise_if_def map_of_dset)
  qed
qed

lemma holding_step:
  assumes ok: "receiver_ok a" and h: "holding P n (s, m) D a" and i: "i < n" and ne: "P i \<noteq> []"
    and fits: "(\<Sum>i \<in> {0 ..< n}. int (length (P i))) \<le> max_message (alimits a)"
  obtains a' where
    "receive_data now ack (part_frame P n s m i) a =
       (Inr ([ack], if insert i D = {0 ..< n} then [(s, concat (map P [0 ..< n]))] else [], []), a')"
    "if insert i D = {0 ..< n} then (s, m) \<in> completed a' else holding P n (s, m) (insert i D) a'"
    "receiver_ok a'" "alimits a' = alimits a" "acodec a' = acodec a" "closed a' = closed a"
proof -
  let ?f = "part_frame P n s m i" and ?len = "\<lambda>i. int (length (P i))"
  obtain st where add: "add_chunk now ?f a = Inr (st, i \<notin> D)" and st: "rcount st = n"
    "rbytes st = (\<Sum>j \<in> insert i D. ?len j)" "\<And>j. map_of (rparts st) j = (if j \<in> insert i D then Some (P j) else None)"
    using holding_add [OF h i ne fits] by blast
  have D: "D \<subset> {0 ..< n}" and fin: "finite D" and new: "(s, m) \<notin> completed a"
    using h finite_subset [of D "{0 ..< n}"] by (auto simp: holding_def)
  have if': "findex ?f < fcount ?f"
    using i by (simp add: part_frame_def)
  have added: "added_ok (alimits a) n st"
    using add_chunk_ok [OF ok add if'] by (simp add: part_frame_def)
  have "dom (map_of (rparts st)) = insert i D"
    by (auto simp: st(3) dom_def)
  then have keys: "set (map fst (rparts st)) = insert i D"
    by (simp add: dom_map_of_conv_image_fst)
  then have "length (rparts st) = card (insert i D)"
    using added by (metis added_ok_def dict_ok_def distinct_card length_map)
  moreover have "insert i D \<subseteq> {0 ..< n}"
    using D i by auto
  ultimately have full: "length (rparts st) = n \<longleftrightarrow> insert i D = {0 ..< n}"
    by (metis card_atLeastLessThan card_subset_eq diff_zero finite_atLeastLessThan)
  define b where "b = stored ?f st (i \<notin> D) a"
  define a' where "a' = snd (receive_data now ack ?f a)"
  have ok': "receiver_ok a'"
    unfolding a'_def by (rule receive_data_keeps [OF ok if'])
  have eq: "receive_data now ack ?f a =
      (if insert i D = {0 ..< n}
       then (Inr ([ack], [(s, delivered ?f st)], []),
             remember (s, m) (b\<lparr>incoming := ddel (s, m) (incoming b), incoming_bytes := incoming_bytes b - rbytes st\<rparr>))
       else (Inr ([ack], [], []), b))"
    using new full add receive_data_cases [OF ok if', of now ack] by (simp add: part_frame_def b_def)
  have dl: "delivered ?f st = concat (map P [0 ..< n])" if "insert i D = {0 ..< n}"
    using st(3) that by (auto simp: delivered_def part_frame_def intro!: arg_cong [of _ _ concat] map_cong)
  have "(s, m) \<in> completed a'" if "insert i D = {0 ..< n}"
    using that new ok eq remember_ok(2) [of "b\<lparr>incoming := ddel (s, m) (incoming b),
        incoming_bytes := incoming_bytes b - rbytes st\<rparr>" "(s, m)"]
    by (simp add: a'_def b_def stored_def receiver_ok_def completed_ok_def)
  moreover have "holding P n (s, m) (insert i D) a'" if "insert i D \<noteq> {0 ..< n}"
  proof -
    have "(\<Sum>j \<in> {0 ..< n} - D. ?len j) = (if i \<in> D then 0 else ?len i) + (\<Sum>j \<in> {0 ..< n} - insert i D. ?len j)"
      using i by (simp add: insert_absorb sum.remove [of "{0 ..< n} - D" i] flip: Diff_insert)
    then show ?thesis
      using that h st eq \<open>insert i D \<subseteq> {0 ..< n}\<close>
      by (auto simp: a'_def b_def stored_def holding_def part_frame_def map_of_dset)
  qed
  ultimately have dn: "if insert i D = {0 ..< n} then (s, m) \<in> completed a' else holding P n (s, m) (insert i D) a'"
    by simp
  have r: "receive_data now ack ?f a =
      (Inr ([ack], if insert i D = {0 ..< n} then [(s, concat (map P [0 ..< n]))] else [], []), a')"
    using eq dl by (simp add: a'_def)
  have fl: "alimits a' = alimits a" "acodec a' = acodec a" "closed a' = closed a"
    using eq by (simp_all add: a'_def b_def stored_def)
  show thesis
    by (rule that [OF r dn ok' fl])
qed

end
