(* ===== verification/S6_Link.thy ===== *)
theory S6_Link
  imports S6_Sender S6_Receiver
begin

text \<open>
  Two adapters with mirrored codecs over a network that loses, repeats and reorders frames and
  lets anyone inject frames that do not authenticate. The step relation runs the operations of
  \<^verbatim>\<open>S6_Adapter\<close> on either side; the theorems say that only what one side sent is delivered on the
  other, and each message at most once within the window of remembered messages.
\<close>

section \<open>Reachable adapters\<close>

inductive adapter_step :: "aead \<Rightarrow> (ustr \<Rightarrow> ustr) \<Rightarrow> adapter \<Rightarrow> adapter \<Rightarrow> bool" for ci nfc where
  st_send: "adapter_step ci nfc a (snd (send ci now stream data a))"
| st_flow: "adapter_step ci nfc a (snd (send_flow_controlled ci now stream data a))"
| st_outbound: "adapter_step ci nfc a (snd (outbound ci now a))"
| st_extension: "adapter_step ci nfc a (snd (extension ci stream name v a))"
| st_receive: "adapter_step ci nfc a (snd (receive ci nfc now wire a))"
| st_retransmit: "adapter_step ci nfc a (snd (retransmit ci now a))"
| st_close: "adapter_step ci nfc a (close a)"

inductive reachable :: "aead \<Rightarrow> (ustr \<Rightarrow> ustr) \<Rightarrow> adapter \<Rightarrow> bool" for ci nfc where
  re_init: "adapter_init core key side exts lims transport = Inr a \<Longrightarrow>
     (\<And>l. lims = Some l \<Longrightarrow> \<exists>kw. limits_init kw = Inr l) \<Longrightarrow> reachable ci nfc a"
| re_step: "reachable ci nfc a \<Longrightarrow> adapter_step ci nfc a b \<Longrightarrow> reachable ci nfc b"

lemma step_ok:
  assumes "adapter_step ci nfc a b" "sender_ok a" "receiver_ok a"
  shows "sender_ok b \<and> receiver_ok b"
  using assms
proof cases
  case (st_close)
  then show ?thesis using assms close_keeps close_receiver_ok by blast
qed (use assms in \<open>auto intro: send_keeps send_flow_controlled_keeps outbound_keeps extension_keeps receive_keeps
    retransmit_keeps receive_receiver_ok retransmit_receiver_ok
    receiver_ok_same [OF _ send_recv] receiver_ok_same [OF _ send_flow_controlled_recv]
    receiver_ok_same [OF _ outbound_recv] receiver_ok_same [OF _ extension_recv]\<close>)

lemma reachable_ok: "reachable ci nfc a \<Longrightarrow> sender_ok a \<and> receiver_ok a"
proof (induction rule: reachable.induct)
  case (re_init core key side exts lims transport a)
  then have "\<forall>l. lims = Some l \<longrightarrow> limits_ok l"
    using limits_init_ok by blast
  then show ?case
    using adapter_init_sender_ok adapter_init_receiver_ok re_init(1) by blast
next
  case (re_step a b)
  then show ?case using step_ok by blast
qed

section \<open>Chunks put together\<close>

lemma concat_chunks: "concat (map (chunk pl data) [0 ..< n]) = take (n * pl) data"
proof (induction n)
  case (Suc n)
  have "take (n * pl + pl) data = take (n * pl) data @ take pl (drop (n * pl) data)"
    by (rule take_add)
  with Suc show ?case by (simp add: chunk_def add.commute)
qed simp

lemma chunk_count_mult: "0 < pl \<Longrightarrow> length data \<le> chunk_count pl data * pl"
proof -
  assume pl: "0 < pl"
  have "length data + pl - 1 < (length data + pl - 1) div pl * pl + pl"
    using dividend_less_div_times [OF pl, of "length data + pl - 1"] by (simp add: add.commute)
  then show ?thesis
    using pl by (simp add: chunk_count_def)
qed

lemma chunks_all: "0 < pl \<Longrightarrow> concat (map (chunk pl data) [0 ..< chunk_count pl data]) = data"
  by (simp add: concat_chunks chunk_count_mult)

lemma chunk_nonempty:
  assumes "0 < pl" "i < chunk_count pl data"
  shows "chunk pl data i \<noteq> []"
proof -
  have "(i + 1) * pl \<le> chunk_count pl data * pl"
    using assms(2) by (intro mult_right_mono) simp_all
  also have "\<dots> \<le> length data + pl - 1"
    by (simp add: chunk_count_def)
  finally have "i * pl < length data"
    using assms(1) by (simp add: algebra_simps)
  then show ?thesis
    using assms(1) by (simp add: chunk_def)
qed

lemma chunk_lengths: "0 < pl \<Longrightarrow> (\<Sum>i \<in> {0 ..< chunk_count pl data}. int (length (chunk pl data i))) = int (length data)"
proof -
  assume pl: "0 < pl"
  have "int (length data) = int (length (concat (map (chunk pl data) [0 ..< chunk_count pl data])))"
    using chunks_all [OF pl] by simp
  also have "\<dots> = (\<Sum>i \<in> {0 ..< chunk_count pl data}. int (length (chunk pl data i)))"
    by (simp add: length_concat comp_def interv_sum_list_conv_sum_set_nat)
  finally show ?thesis by simp
qed

section \<open>Runs of the receiver\<close>

fun receive_many ::
  "aead \<Rightarrow> (ustr \<Rightarrow> ustr) \<Rightarrow> (rat \<times> bytes) list \<Rightarrow> adapter \<Rightarrow> (nat \<times> bytes) list \<times> adapter" where
  "receive_many ci nfc [] a = ([], a)"
| "receive_many ci nfc ((now, w) # ws) a =
     (case receive ci nfc now w a of
        (r, a') \<Rightarrow>
          (case receive_many ci nfc ws a' of
             (ms, a'') \<Rightarrow> ((case r of Inl _ \<Rightarrow> [] | Inr (_, m, _) \<Rightarrow> m) @ ms, a'')))"

text \<open>The frame with chunk \<open>i\<close> of a message.\<close>

definition message_frame :: "nat \<Rightarrow> nat \<Rightarrow> nat \<Rightarrow> bytes \<Rightarrow> nat \<Rightarrow> frame" where
  "message_frame pl s m data i = part_frame (chunk pl data) (chunk_count pl data) s m i"

lemma receive_message_frame:
  assumes "aead_ok ci" "mirror c (acodec a)" "\<not> closed a" "encode_frame ci c (message_frame pl s m data i) = Inr w"
  obtains ack where "receive ci nfc now w a = receive_data now ack (message_frame pl s m data i) a"
proof -
  have ok: "frame_ok (message_frame pl s m data i)" and k: "fkind (message_frame pl s m data i) = DATA"
    by (simp_all add: message_frame_def part_frame_def frame_ok_def)
  have dec: "decode_frame ci (acodec a) w = Inr (message_frame pl s m data i)"
    using assms s6na.dec_enc ok by blast
  obtain ack where "encode_frame ci (acodec a) ((message_frame pl s m data i)\<lparr>fkind := ACK, fpayload := []\<rparr>) = Inr ack"
    using ack_encodes [OF dec] by blast
  then have "receive ci nfc now w a = receive_data now ack (message_frame pl s m data i) a"
    using dec k assms(3) by (simp add: receive_def ensure_open_def raise_if_def)
  then show thesis by (rule that)
qed

lemma receive_many_completed:
  assumes "aead_ok ci" "mirror c (acodec a)" "\<not> closed a" "(s, m) \<in> completed a"
    "list_all2 (\<lambda>i (now, w). encode_frame ci c (message_frame pl s m data i) = Inr w) is ws"
  shows "fst (receive_many ci nfc ws a) = []"
  using assms(5)
proof (induction "is" ws rule: list_all2_induct)
  case (Cons i "is" nw ws)
  obtain now w where nw: "nw = (now, w)" by (cases nw)
  have e: "encode_frame ci c (message_frame pl s m data i) = Inr w"
    using Cons(1) nw by simp
  obtain ack where "receive ci nfc now w a = receive_data now ack (message_frame pl s m data i) a"
    by (rule receive_message_frame [OF assms(1-3) e])
  then have "receive ci nfc now w a = (Inr ([ack], [], []), a)"
    using assms(4) by (simp add: receive_data_def message_frame_def part_frame_def)
  then show ?case
    using Cons(3) by (simp add: nw case_prod_beta)
qed simp

lemma list_all2_member: "list_all2 R xs ys \<Longrightarrow> x \<in> set xs \<Longrightarrow> \<exists>y \<in> set ys. R x y"
  by (induction rule: list_all2_induct) auto

lemma receive_many_holding:
  assumes "list_all2 (\<lambda>i (now, w). encode_frame ci c (message_frame pl s m data i) = Inr w) is ws"
    and "aead_ok ci" "0 < pl" and "mirror c (acodec a)" "\<not> closed a" "receiver_ok a"
    and "holding (chunk pl data) (chunk_count pl data) (s, m) D a" "int (length data) \<le> max_message (alimits a)"
  shows "fst (receive_many ci nfc ws a) = (if D \<union> set is = {0 ..< chunk_count pl data} then [(s, data)] else [])"
  using assms
proof (induction "is" ws arbitrary: a D rule: list_all2_induct)
  case Nil
  then show ?case by (auto simp: holding_def)
next
  case (Cons i "is" nw ws)
  let ?n = "chunk_count pl data"
  obtain now w where nw: "nw = (now, w)" by (cases nw)
  have e: "encode_frame ci c (message_frame pl s m data i) = Inr w"
    using Cons(1) nw by simp
  have i: "i < ?n"
    using e by (auto simp: encode_frame_def message_frame_def part_frame_def split: if_splits)
  obtain ack where r: "receive ci nfc now w a = receive_data now ack (message_frame pl s m data i) a"
    by (rule receive_message_frame [OF Cons(4,6,7) e])
  obtain a' where d: "receive_data now ack (part_frame (chunk pl data) ?n s m i) a =
       (Inr ([ack], if insert i D = {0 ..< ?n} then [(s, concat (map (chunk pl data) [0 ..< ?n]))] else [], []), a')"
    and st: "if insert i D = {0 ..< ?n} then (s, m) \<in> completed a' else holding (chunk pl data) ?n (s, m) (insert i D) a'"
    and ok: "receiver_ok a'" "alimits a' = alimits a" "acodec a' = acodec a" "closed a' = closed a"
    by (rule holding_step [OF Cons(8,9) i chunk_nonempty [OF Cons(5) i]])
       (use chunk_lengths [OF Cons(5), of data] Cons(10) in simp_all)
  have rec: "receive ci nfc now w a = (Inr ([ack], if insert i D = {0 ..< ?n} then [(s, data)] else [], []), a')"
    using r d chunks_all [OF Cons(5), of data] by (simp add: message_frame_def)
  show ?case
  proof (cases "insert i D = {0 ..< ?n}")
    case True
    then have "fst (receive_many ci nfc ws a') = []"
      using receive_many_completed [OF Cons(4) _ _ _ Cons(2)] st ok Cons(6,7) by simp
    moreover have "D \<union> set (i # is) = {0 ..< ?n}"
    proof -
      have "j < ?n" if j: "j \<in> set is" for j
      proof -
        obtain v where "encode_frame ci c (message_frame pl s m data j) = Inr v"
          using list_all2_member [OF Cons(2) j] by auto
        then show ?thesis
          by (auto simp: encode_frame_def message_frame_def part_frame_def split: if_splits)
      qed
      then show ?thesis
        using True by auto
    qed
    ultimately show ?thesis
      using rec True by (simp add: nw case_prod_beta)
  next
    case False
    then have "fst (receive_many ci nfc ws a') = (if insert i D \<union> set is = {0 ..< ?n} then [(s, data)] else [])"
      using Cons(3) [OF Cons(4,5), of a' "insert i D"] st ok Cons(6,7,10) by simp
    then show ?thesis
      using rec False by (simp add: nw case_prod_beta)
  qed
qed

section \<open>What a sender puts on the wire\<close>

type_synonym messages = "(nat \<times> nat \<times> bytes) set"

definition genuine :: "aead \<Rightarrow> codec \<Rightarrow> messages \<Rightarrow> bytes \<Rightarrow> bool" where
  "genuine ci c S w \<longleftrightarrow>
     (\<exists>s m d i. (s, m, d) \<in> S \<and> encode_frame ci c (message_frame (cpayload c) s m d i) = Inr w)"

text \<open>Everything queued or in flight belongs to a message of \<open>S\<close>.\<close>

definition traffic_ok :: "aead \<Rightarrow> messages \<Rightarrow> adapter \<Rightarrow> bool" where
  "traffic_ok ci S a \<longleftrightarrow>
     (\<forall>(k, item) \<in> set (pending a). genuine ci (acodec a) S (swire item)) \<and>
     (\<forall>s < length (queues a). \<forall>q \<in> set (queues a ! s). (s, qmessage q, qdata q) \<in> S)"

lemma genuine_mono: "genuine ci c S w \<Longrightarrow> S \<subseteq> T \<Longrightarrow> genuine ci c T w"
  by (auto simp: genuine_def)

lemma traffic_mono: "traffic_ok ci S a \<Longrightarrow> S \<subseteq> T \<Longrightarrow> traffic_ok ci T a"
  by (fastforce simp: traffic_ok_def intro: genuine_mono)

lemma emit_traffic:
  assumes ok: "sender_ok a" and act: "active_streams a = s # act" and room: "int (length (pending a)) < window a"
    and tr: "traffic_ok ci S a" and e: "emit ci now s (a\<lparr>active_streams := act\<rparr>) = (Inr w, a')"
  shows "genuine ci (acodec a) S w \<and> traffic_ok ci S a' \<and> acodec a' = acodec a"
proof -
  obtain q rest w' item queue b where s: "s < length (queues a)" and q: "queues a ! s = q # rest"
    and qok: "queued_ok a s q"
    and enc: "encode_frame ci (acodec a) (data_frame (cpayload (acodec a)) s q) = Inr w'"
    and queue: "queue = (if qindex q + 1 = qcount q then rest else q\<lparr>qindex := qindex q + 1\<rparr> # rest)"
    and item: "swire item = w'"
    and b: "b = a\<lparr>pending := pending a @ [((s, qmessage q, qindex q), item)],
            queues := (queues a)[s := queue],
            active_streams := (if queue = [] then act else act @ [s])\<rparr>"
    and e': "emit ci now s (a\<lparr>active_streams := act\<rparr>) = (Inr w', b)"
    by (rule emit_facts [OF ok act room, of ci now])
  have w: "w' = w" "a' = b"
    using e e' by simp_all
  have S: "(s, qmessage q, qdata q) \<in> S" "\<forall>r \<in> set rest. (s, qmessage r, qdata r) \<in> S"
    using tr s q by (force simp: traffic_ok_def)+
  have "data_frame (cpayload (acodec a)) s q = message_frame (cpayload (acodec a)) s (qmessage q) (qdata q) (qindex q)"
    using qok by (simp add: data_frame_def message_frame_def part_frame_def queued_ok_def)
  then have g: "genuine ci (acodec a) S w"
    using S(1) enc w by (auto simp: genuine_def)
  have "\<forall>r \<in> set queue. (s, qmessage r, qdata r) \<in> S"
    using S by (auto simp: queue)
  then show ?thesis
    using g tr s item w by (auto simp: b traffic_ok_def nth_list_update)
qed

lemma outbound_loop_traffic:
  "sender_ok a \<Longrightarrow> traffic_ok ci S a \<Longrightarrow> outbound_loop ci now a frames = (Inr fs, a') \<Longrightarrow>
     traffic_ok ci S a' \<and> acodec a' = acodec a \<and> (\<forall>w \<in> set fs. w \<in> set frames \<or> genuine ci (acodec a) S w)"
proof (induction ci now a frames rule: outbound_loop.induct)
  case (1 ci now a frames)
  show ?case
  proof (cases "int (length (pending a)) < window a \<and> active_streams a \<noteq> []")
    case True
    then obtain s act where act: "active_streams a = s # act"
      by (cases "active_streams a") auto
    obtain w b where e: "emit ci now s (a\<lparr>active_streams := act\<rparr>) = (Inr w, b)" and ok: "sender_ok b"
      using emit_ok [OF 1(2) act] True by blast
    have t: "genuine ci (acodec a) S w" "traffic_ok ci S b" "acodec b = acodec a"
      using emit_traffic [OF 1(2) act _ 1(3) e] True by simp_all
    have loop: "outbound_loop ci now b (frames @ [w]) = (Inr fs, a')"
      using 1(4) True act e by (simp add: outbound_loop.simps [of ci now a])
    have "traffic_ok ci S a' \<and> acodec a' = acodec b \<and>
        (\<forall>v \<in> set fs. v \<in> set (frames @ [w]) \<or> genuine ci (acodec b) S v)"
      using 1(1) True act e ok t(2) loop by fastforce
    then show ?thesis
      using t by auto
  next
    case False
    then have "outbound_loop ci now a frames = (Inr frames, a)"
      unfolding outbound_loop.simps [of ci now a] if_not_P [OF False] by simp
    then show ?thesis
      using 1 by simp
  qed
qed

lemma outbound_traffic:
  assumes "sender_ok a" "traffic_ok ci S a"
  shows "traffic_ok ci S (snd (outbound ci now a)) \<and> acodec (snd (outbound ci now a)) = acodec a"
    and "fst (outbound ci now a) = Inr fs \<Longrightarrow> w \<in> set fs \<Longrightarrow> genuine ci (acodec a) S w"
proof -
  obtain fs' a' where "outbound_loop ci now a [] = (Inr fs', a')"
    using outbound_loop_ok [OF assms(1), of ci now "[]"] by auto
  note l = this outbound_loop_traffic [OF assms this]
  show "traffic_ok ci S (snd (outbound ci now a)) \<and> acodec (snd (outbound ci now a)) = acodec a"
    using l assms by (simp add: outbound_def split: sum.splits)
  show "fst (outbound ci now a) = Inr fs \<Longrightarrow> w \<in> set fs \<Longrightarrow> genuine ci (acodec a) S w"
    using l by (auto simp: outbound_def split: sum.splits)
qed

definition sent_by :: "int \<Rightarrow> bytes \<Rightarrow> adapter \<Rightarrow> bytes list res \<Rightarrow> messages" where
  "sent_by stream data a r =
     (case r of Inl _ \<Rightarrow> {} | Inr _ \<Rightarrow> {(nat stream, next_message a ! nat stream, data)})"

definition frames_of :: "bytes list res \<Rightarrow> bytes set" where
  "frames_of r = (case r of Inl _ \<Rightarrow> {} | Inr fs \<Rightarrow> set fs)"

lemma send_traffic:
  assumes ok: "sender_ok a" and tr: "traffic_ok ci S a" and r: "send ci now stream data a = (r, b)"
  shows "traffic_ok ci (S \<union> sent_by stream data a r) b" "acodec b = acodec a"
    "w \<in> frames_of r \<Longrightarrow> genuine ci (acodec a) (S \<union> sent_by stream data a r) w"
proof -
  have "traffic_ok ci (S \<union> sent_by stream data a r) b \<and> acodec b = acodec a \<and>
    (\<forall>w \<in> frames_of r. genuine ci (acodec a) (S \<union> sent_by stream data a r) w)"
  proof (cases "send_allowed stream data a")
    case True
    define n where "n = chunk_count (cpayload (acodec a)) data"
    define c where "c = enqueue (nat stream) data n a"
    define T where "T = S \<union> {(nat stream, next_message a ! nat stream, data)}"
    have int: "int (nat stream) = stream"
      using True by (simp add: send_allowed_def check_send_Inr)
    have cok: "sender_ok c"
      unfolding c_def n_def using True int by (intro enqueue_ok [OF ok]) (simp_all add: send_allowed_def)
    have st: "nat stream < length (queues a)" and op: "\<not> closed a"
      using True ok by (auto simp: send_allowed_def check_send_Inr sender_ok_def config_ok_def)
    have ct: "traffic_ok ci T c" and cc: "acodec c = acodec a" "closed c = closed a"
      using traffic_mono [OF tr, of T] st
      by (auto simp: c_def enqueue_def Let_def traffic_ok_def T_def nth_list_update)
    have o: "outbound ci now c = (r, b)"
      using r send_accepts [OF True, of ci now] by (simp add: c_def n_def)
    obtain fs where fs: "r = Inr fs"
      using outbound_ok [OF cok, of ci now] o op cc by auto
    show ?thesis
      using outbound_traffic [OF cok ct, of now] o fs cc by (auto simp: sent_by_def frames_of_def T_def)
  next
    case False
    then obtain e where "r = Inl e" "b = a"
      using send_refuses [OF False, of ci now] r by auto
    then show ?thesis
      using tr by (simp add: sent_by_def frames_of_def)
  qed
  then show "traffic_ok ci (S \<union> sent_by stream data a r) b" "acodec b = acodec a"
    "w \<in> frames_of r \<Longrightarrow> genuine ci (acodec a) (S \<union> sent_by stream data a r) w"
    by simp_all
qed

lemma receive_traffic:
  assumes "traffic_ok ci S a"
  shows "traffic_ok ci S (snd (receive ci nfc now wire a)) \<and> acodec (snd (receive ci nfc now wire a)) = acodec a"
proof -
  have same: "traffic_ok ci S b \<and> acodec b = acodec a"
    if "set (pending b) \<subseteq> set (pending a)" "queues b = queues a" "acodec b = acodec a" for b
    using assms that by (fastforce simp: traffic_ok_def)
  have ack: "traffic_ok ci S (snd (receive_ack now f a)) \<and> acodec (snd (receive_ack now f a)) = acodec a" for f
    by (rule same)
       (auto simp: receive_ack_def Let_def sample_def dest!: set_ddel split: option.splits prod.splits)
  have data: "traffic_ok ci S (snd (receive_data now ak f a)) \<and> acodec (snd (receive_data now ak f a)) = acodec a" for ak f
    by (rule same) (auto simp: receive_data_def Let_def remember_def split: sum.splits)
  have ext: "traffic_ok ci S (snd (receive_extension nfc ak f a)) \<and> acodec (snd (receive_extension nfc ak f a)) = acodec a" for ak f
    by (rule same) (auto simp: receive_extension_def Let_def remember_def split: sum.splits)
  show ?thesis
    using ack data ext assms by (simp add: receive_def split: sum.splits)
qed

lemma expire_fields:
  "pending (expire now items a) = pending a \<and> queues (expire now items a) = queues a \<and>
   acodec (expire now items a) = acodec a \<and> closed (expire now items a) = closed a"
  by (induction now items a rule: expire.induct) auto

lemma resend_traffic:
  "traffic_ok ci S a \<Longrightarrow> \<forall>(k, item) \<in> set items. genuine ci (acodec a) S (swire item) \<Longrightarrow>
     \<forall>w \<in> set frames. genuine ci (acodec a) S w \<Longrightarrow>
     traffic_ok ci S (snd (resend now items frames a)) \<and> acodec (snd (resend now items frames a)) = acodec a \<and>
     (\<forall>w \<in> frames_of (fst (resend now items frames a)). genuine ci (acodec a) S w)"
proof (induction now items frames a rule: resend.induct)
  case (1 now frames a)
  then show ?case by (simp add: frames_of_def)
next
  case (2 now key item items frames a)
  have "traffic_ok ci S (a\<lparr>pending := dset key (retry_item now (rto a) item) (pending a)\<rparr>)"
    using 2(3,4) by (auto simp: traffic_ok_def retry_item_def dest!: set_dset)
  then show ?case
    using 2 by (auto simp: frames_of_def)
qed

lemma retransmit_traffic:
  assumes ok: "sender_ok a" and tr: "traffic_ok ci S a" and r: "retransmit ci now a = (r, b)"
  shows "traffic_ok ci S b \<and> acodec b = acodec a \<and> (\<forall>w \<in> frames_of r. genuine ci (acodec a) S w)"
proof -
  define c where "c = expire now (incoming a) a"
  have c: "traffic_ok ci S c" "acodec c = acodec a" "pending c = pending a"
    using tr expire_fields [of now "incoming a" a] by (simp_all add: c_def traffic_ok_def)
  obtain r' d where d: "resend now (pending a) [] c = (r', d)"
    by (cases "resend now (pending a) [] c")
  have dt: "traffic_ok ci S d" "acodec d = acodec a" "\<forall>w \<in> frames_of r'. genuine ci (acodec a) S w"
    using resend_traffic [OF c(1), of "pending a" "[]" now] c(2) tr d by (auto simp: traffic_ok_def)
  have "same_sender c d"
    using resend_same [of "pending a" c now "[]"] c(3) d by (simp add: pkeys_def)
  then have dok: "sender_ok d"
    using sender_ok_same [OF ok] expire_same same_sender_trans unfolding c_def by blast
  show ?thesis
    using r d dt outbound_traffic [OF dok dt(1), of now] tr
    by (auto simp: retransmit_def frames_of_def simp flip: c_def split: sum.splits prod.splits)
qed

end
