(* ===== verification/S6_Channel.thy ===== *)
theory S6_Channel
  imports S6_Link
begin

text \<open>
  Two adapters and the network between them as one transition system. Frames a side has sent may
  arrive any number of times, in any order or never; anyone may inject a frame that does not
  authenticate. The ghost fields record what was sent and what was delivered.
\<close>

section \<open>The system\<close>

record link =
  node :: "bool \<Rightarrow> adapter"
  wires :: "bool \<Rightarrow> bytes set"
  sent :: "bool \<Rightarrow> messages"
  got :: "bool \<Rightarrow> (nat \<times> nat \<times> bytes) list"
  events :: "bool \<Rightarrow> (nat \<times> pyval \<times> pyval) list"

definition wire_message :: "aead \<Rightarrow> adapter \<Rightarrow> bytes \<Rightarrow> nat" where
  "wire_message ci a w = (case decode_frame ci (acodec a) w of Inl _ \<Rightarrow> 0 | Inr f \<Rightarrow> fmessage f)"

definition out_step :: "bool \<Rightarrow> adapter \<Rightarrow> bytes set \<Rightarrow> messages \<Rightarrow> link \<Rightarrow> link" where
  "out_step b a ws ms l =
     l\<lparr>node := (node l)(b := a), wires := (wires l)(b := wires l b \<union> ws), sent := (sent l)(b := sent l b \<union> ms)\<rparr>"

definition in_step :: "aead \<Rightarrow> bool \<Rightarrow> bytes \<Rightarrow> delivery res \<Rightarrow> adapter \<Rightarrow> link \<Rightarrow> link" where
  "in_step ci b w r a l =
     (case r of
        Inl _ \<Rightarrow> l\<lparr>node := (node l)(b := a)\<rparr>
      | Inr (acks, ms, evs) \<Rightarrow>
          l\<lparr>node := (node l)(b := a), wires := (wires l)(b := wires l b \<union> set acks),
            got := (got l)(b := got l b @ map (\<lambda>(s, d). (s, wire_message ci (node l b) w, d)) ms),
            events := (events l)(b := events l b @ evs)\<rparr>)"

inductive link_step :: "aead \<Rightarrow> (ustr \<Rightarrow> ustr) \<Rightarrow> link \<Rightarrow> link \<Rightarrow> bool" for ci nfc where
  ls_send: "send ci now stream data (node l b) = (r, a) \<Longrightarrow>
     link_step ci nfc l (out_step b a (frames_of r) (sent_by stream data (node l b) r) l)"
| ls_flow: "send_flow_controlled ci now stream data (node l b) = (r, a) \<Longrightarrow>
     link_step ci nfc l (out_step b a (frames_of r) (sent_by stream data (node l b) r) l)"
| ls_outbound: "outbound ci now (node l b) = (r, a) \<Longrightarrow> link_step ci nfc l (out_step b a (frames_of r) {} l)"
| ls_retransmit: "retransmit ci now (node l b) = (r, a) \<Longrightarrow> link_step ci nfc l (out_step b a (frames_of r) {} l)"
| ls_extension: "extension ci stream name v (node l b) = (r, a) \<Longrightarrow>
     link_step ci nfc l (out_step b a (case r of Inl _ \<Rightarrow> {} | Inr w \<Rightarrow> {w}) {} l)"
| ls_close: "link_step ci nfc l (out_step b (close (node l b)) {} {} l)"
| ls_receive: "w \<in> wires l (\<not> b) \<or> (\<forall>f. decode_frame ci (acodec (node l b)) w \<noteq> Inr f) \<Longrightarrow>
     receive ci nfc now w (node l b) = (r, a) \<Longrightarrow> link_step ci nfc l (in_step ci b w r a l)"

text \<open>Two adapters of the same core and limits with the same key and opposite sides.\<close>

inductive link_run :: "aead \<Rightarrow> (ustr \<Rightarrow> ustr) \<Rightarrow> link \<Rightarrow> bool" for ci nfc where
  lr_start: "adapter_init core key 0 exts lims transport = Inr a \<Longrightarrow> adapter_init core key 1 exts lims transport = Inr b \<Longrightarrow>
     (\<And>l. lims = Some l \<Longrightarrow> \<exists>kw. limits_init kw = Inr l) \<Longrightarrow>
     link_run ci nfc \<lparr>node = (\<lambda>x. if x then b else a), wires = (\<lambda>_. {}), sent = (\<lambda>_. {}), got = (\<lambda>_. []), events = (\<lambda>_. [])\<rparr>"
| lr_step: "link_run ci nfc l \<Longrightarrow> link_step ci nfc l l' \<Longrightarrow> link_run ci nfc l'"

section \<open>The invariant\<close>

definition wire_ok :: "aead \<Rightarrow> codec \<Rightarrow> messages \<Rightarrow> bytes \<Rightarrow> bool" where
  "wire_ok ci c S w \<longleftrightarrow> genuine ci c S w \<or> (\<exists>f. fkind f \<noteq> DATA \<and> frame_ok f \<and> encode_frame ci c f = Inr w)"

definition parts_ok :: "messages \<Rightarrow> adapter \<Rightarrow> bool" where
  "parts_ok S a \<longleftrightarrow>
     (\<forall>s m st i p. map_of (incoming a) (s, m) = Some st \<longrightarrow> map_of (rparts st) i = Some p \<longrightarrow>
        (\<exists>d. (s, m, d) \<in> S \<and> p = chunk (cpayload (acodec a)) d i))"

definition numbered :: "messages \<Rightarrow> adapter \<Rightarrow> bool" where
  "numbered S a \<longleftrightarrow>
     (\<forall>s m d. (s, m, d) \<in> S \<longrightarrow> s < length (next_message a) \<and> m < next_message a ! s \<and>
        (\<forall>e. (s, m, e) \<in> S \<longrightarrow> e = d))"

definition once_ok :: "adapter \<Rightarrow> (nat \<times> nat \<times> bytes) list \<Rightarrow> (nat \<times> pyval \<times> pyval) list \<Rightarrow> bool" where
  "once_ok a g ev \<longleftrightarrow>
     (length g + length ev \<le> 4096 \<longrightarrow>
        distinct (map (\<lambda>(s, m, d). (s, m)) g) \<and>
        (closed a \<or> length (completed_order a) = length g + length ev \<and> (\<forall>(s, m, d) \<in> set g. (s, m) \<in> completed a)))"

definition side_ok :: "aead \<Rightarrow> link \<Rightarrow> bool \<Rightarrow> bool" where
  "side_ok ci l b \<longleftrightarrow>
     sender_ok (node l b) \<and> receiver_ok (node l b) \<and> mirror (acodec (node l b)) (acodec (node l (\<not> b))) \<and>
     traffic_ok ci (sent l b) (node l b) \<and> numbered (sent l b) (node l b) \<and>
     (\<forall>w \<in> wires l b. wire_ok ci (acodec (node l b)) (sent l b) w) \<and>
     parts_ok (sent l (\<not> b)) (node l b) \<and> set (got l b) \<subseteq> sent l (\<not> b) \<and>
     once_ok (node l b) (got l b) (events l b)"

section \<open>Message numbers only grow\<close>

definition counts_up :: "adapter \<Rightarrow> adapter \<Rightarrow> bool" where
  "counts_up a b \<longleftrightarrow> length (next_message b) = length (next_message a) \<and> (\<forall>s. next_message a ! s \<le> next_message b ! s)"

lemma counts_up_same: "next_message b = next_message a \<Longrightarrow> counts_up a b"
  by (simp add: counts_up_def)

lemma numbered_mono: "numbered S a \<Longrightarrow> counts_up a b \<Longrightarrow> numbered S b"
  unfolding numbered_def counts_up_def by (metis order_less_le_trans)

lemma outbound_loop_next: "next_message (snd (outbound_loop ci now a frames)) = next_message a \<and>
    closed (snd (outbound_loop ci now a frames)) = closed a"
proof (induction ci now a frames rule: outbound_loop.induct)
  case (1 ci now a frames)
  let ?a = "a\<lparr>active_streams := tl (active_streams a)\<rparr>"
  obtain r b where e: "emit ci now (hd (active_streams a)) ?a = (r, b)"
    by (cases "emit ci now (hd (active_streams a)) ?a")
  have b: "next_message b = next_message a" "closed b = closed a"
    using e by (auto simp: emit_def Let_def split: if_splits sum.splits)
  show ?case
  proof (cases "int (length (pending a)) < window a \<and> active_streams a \<noteq> []")
    case True
    show ?thesis
    proof (cases r)
      case (Inl x)
      then show ?thesis
        using True e b by (simp add: outbound_loop.simps [of ci now a])
    next
      case (Inr w)
      then have "next_message (snd (outbound_loop ci now b (frames @ [w]))) = next_message b \<and>
          closed (snd (outbound_loop ci now b (frames @ [w]))) = closed b"
        using 1 True e by auto
      then show ?thesis
        using True e b Inr by (simp add: outbound_loop.simps [of ci now a])
    qed
  next
    case False
    then show ?thesis
      unfolding outbound_loop.simps [of ci now a] if_not_P [OF False] by simp
  qed
qed

lemma outbound_next: "next_message (snd (outbound ci now a)) = next_message a \<and> closed (snd (outbound ci now a)) = closed a"
  using outbound_loop_next by (simp add: outbound_def split: sum.splits)

lemma retransmit_next: "next_message (snd (retransmit ci now a)) = next_message a \<and> closed (snd (retransmit ci now a)) = closed a"
proof -
  have e: "next_message (expire now items a) = next_message a \<and> closed (expire now items a) = closed a" for items a
    by (induction now items a rule: expire.induct) auto
  have r: "next_message (snd (resend now items fs a)) = next_message a \<and> closed (snd (resend now items fs a)) = closed a"
    for items fs a
    by (induction now items fs a rule: resend.induct) auto
  define c where "c = expire now (incoming a) a"
  obtain x d where d: "resend now (pending a) [] c = (x, d)"
    by (cases "resend now (pending a) [] c")
  have "next_message d = next_message a \<and> closed d = closed a"
    using r [of "pending a" "[]" c] e [of "incoming a" a] d by (simp add: c_def)
  then show ?thesis
    using d outbound_next [of ci now d] by (auto simp: retransmit_def simp flip: c_def split: sum.splits prod.splits)
qed

lemma receive_next: "next_message (snd (receive ci nfc now w a)) = next_message a \<and> closed (snd (receive ci nfc now w a)) = closed a"
proof -
  have "next_message (snd (receive_ack now f a)) = next_message a \<and> closed (snd (receive_ack now f a)) = closed a" for f
    by (auto simp: receive_ack_def Let_def sample_def split: option.splits prod.splits)
  moreover have "next_message (snd (receive_data now k f a)) = next_message a \<and> closed (snd (receive_data now k f a)) = closed a" for k f
    by (auto simp: receive_data_def Let_def remember_def split: sum.splits)
  moreover have "next_message (snd (receive_extension nfc k f a)) = next_message a \<and> closed (snd (receive_extension nfc k f a)) = closed a" for k f
    by (auto simp: receive_extension_def Let_def remember_def split: sum.splits)
  ultimately show ?thesis
    by (simp add: receive_def split: sum.splits)
qed

lemma send_numbered:
  assumes ok: "sender_ok a" and n: "numbered S a" and r: "send ci now stream data a = (r, b)"
  shows "numbered (S \<union> sent_by stream data a r) b" "closed b = closed a"
proof -
  have "numbered (S \<union> sent_by stream data a r) b \<and> closed b = closed a"
  proof (cases "send_allowed stream data a")
    case True
    let ?s = "nat stream"
    define c where "c = enqueue ?s data (chunk_count (cpayload (acodec a)) data) a"
    have s: "?s < length (next_message a)"
      using True ok by (auto simp: send_allowed_def check_send_Inr sender_ok_def config_ok_def)
    have c: "next_message c = (next_message a)[?s := next_message a ! ?s + 1]" "closed c = closed a"
      by (simp_all add: c_def enqueue_def Let_def)
    have "next_message b = next_message c" "closed b = closed c"
      using r send_accepts [OF True, of ci now] outbound_next [of ci now c] by (simp_all add: c_def)
    moreover have "numbered (S \<union> sent_by stream data a r) c"
      using n s by (fastforce simp: numbered_def sent_by_def c nth_list_update' less_Suc_eq split: sum.splits)
    ultimately show ?thesis
      using c by (simp add: numbered_def)
  next
    case False
    then obtain e where "r = Inl e" "b = a"
      using send_refuses [OF False, of ci now] r by auto
    then show ?thesis
      using n by (simp add: sent_by_def)
  qed
  then show "numbered (S \<union> sent_by stream data a r) b" "closed b = closed a"
    by simp_all
qed

lemma flow_cases:
  "send_flow_controlled ci now stream data a = send ci now stream data a \<or>
   (\<exists>e. send_flow_controlled ci now stream data a = (Inl e, a))"
  by (auto simp: send_flow_controlled_def split: sum.splits)

lemma extension_facts:
  assumes ok: "sender_ok a" and r: "extension ci stream name v a = (r, b)"
  shows "counts_up a b" "closed b = closed a" "acodec b = acodec a" "pending b = pending a" "queues b = queues a"
    "r = Inr w \<Longrightarrow> \<exists>f. fkind f \<noteq> DATA \<and> frame_ok f \<and> encode_frame ci (acodec a) f = Inr w"
proof -
  have "counts_up a b \<and> closed b = closed a \<and> acodec b = acodec a \<and> pending b = pending a \<and> queues b = queues a \<and>
    (r = Inr w \<longrightarrow> (\<exists>f. fkind f \<noteq> DATA \<and> frame_ok f \<and> encode_frame ci (acodec a) f = Inr w))"
  proof (cases "extension_payload stream name v a")
    case (Inl e)
    then show ?thesis using r by (auto simp: extension_def counts_up_def)
  next
    case (Inr p)
    have s: "nat stream < length (next_message a)"
      using extension_payload_Inr [OF Inr] ok by (auto simp: sender_ok_def config_ok_def)
    have b: "b = a\<lparr>next_message := (next_message a)[nat stream := next_message a ! nat stream + 1]\<rparr>"
      and r': "r = encode_frame ci (acodec a) \<lparr>fkind = EXTENSION, fstream = nat stream,
        fmessage = next_message a ! nat stream, findex = 0, fcount = 1, fpayload = p\<rparr>"
      using r Inr by (simp_all add: extension_def Let_def)
    have "r = Inr w \<longrightarrow> (\<exists>f. fkind f \<noteq> DATA \<and> frame_ok f \<and> encode_frame ci (acodec a) f = Inr w)"
      unfolding r' by (intro impI exI conjI) (auto simp: frame_ok_def)
    then show ?thesis
      using s by (simp add: b counts_up_def nth_list_update')
  qed
  then show "counts_up a b" "closed b = closed a" "acodec b = acodec a" "pending b = pending a" "queues b = queues a"
    "r = Inr w \<Longrightarrow> \<exists>f. fkind f \<noteq> DATA \<and> frame_ok f \<and> encode_frame ci (acodec a) f = Inr w"
    by simp_all
qed

section \<open>Sending steps\<close>

lemma wire_ok_mono: "wire_ok ci c S w \<Longrightarrow> S \<subseteq> T \<Longrightarrow> wire_ok ci c T w"
  by (auto simp: wire_ok_def intro: genuine_mono)

lemma parts_ok_mono: "parts_ok S a \<Longrightarrow> S \<subseteq> T \<Longrightarrow> parts_ok T a"
  unfolding parts_ok_def by blast

lemma parts_ok_same: "parts_ok S a \<Longrightarrow> same_receiver a b \<Longrightarrow> acodec b = acodec a \<Longrightarrow> parts_ok S b"
  by (simp add: parts_ok_def same_receiver_def)

lemma once_ok_same: "once_ok a g ev \<Longrightarrow> same_receiver a b \<Longrightarrow> closed b = closed a \<Longrightarrow> once_ok b g ev"
  by (auto simp: once_ok_def same_receiver_def)

lemma out_step_ok:
  assumes inv: "side_ok ci l b" "side_ok ci l (\<not> b)"
    and a: "sender_ok a" "receiver_ok a" "acodec a = acodec (node l b)" "traffic_ok ci (sent l b \<union> ms) a"
      "numbered (sent l b \<union> ms) a" "\<forall>w \<in> ws. wire_ok ci (acodec (node l b)) (sent l b \<union> ms) w"
      "parts_ok (sent l (\<not> b)) a" "once_ok a (got l b) (events l b)"
  shows "side_ok ci (out_step b a ws ms l) x"
proof (cases "x = b")
  case True
  then show ?thesis
    using inv a wire_ok_mono [of ci "acodec (node l b)" "sent l b" _ "sent l b \<union> ms"]
    by (auto simp: side_ok_def out_step_def)
next
  case False
  then have x: "x = (\<not> b)" by auto
  show ?thesis
    using inv(2) a(3) parts_ok_mono [of "sent l b" "node l (\<not> b)" "sent l b \<union> ms"]
    by (auto simp: side_ok_def out_step_def x)
qed

lemma send_step_ok:
  assumes inv: "side_ok ci l b" "side_ok ci l (\<not> b)" and r: "send ci now stream data (node l b) = (r, a)"
  shows "side_ok ci (out_step b a (frames_of r) (sent_by stream data (node l b) r) l) x"
proof (rule out_step_ok [OF inv])
  let ?a = "node l b"
  have i: "sender_ok ?a" "receiver_ok ?a" "traffic_ok ci (sent l b) ?a" "numbered (sent l b) ?a"
    "parts_ok (sent l (\<not> b)) ?a" "once_ok ?a (got l b) (events l b)"
    using inv(1) by (simp_all add: side_ok_def)
  have same: "same_receiver ?a a"
    using send_recv [of ?a ci now stream data] r by simp
  show "sender_ok a"
    using send_keeps [OF i(1), of ci now stream data] r by simp
  show "receiver_ok a"
    using receiver_ok_same [OF i(2) same] .
  show c: "acodec a = acodec ?a"
    using send_traffic(2) [OF i(1,3) r] .
  show "traffic_ok ci (sent l b \<union> sent_by stream data ?a r) a"
    using send_traffic(1) [OF i(1,3) r] .
  show "numbered (sent l b \<union> sent_by stream data ?a r) a"
    using send_numbered(1) [OF i(1,4) r] .
  show "\<forall>w \<in> frames_of r. wire_ok ci (acodec ?a) (sent l b \<union> sent_by stream data ?a r) w"
    using send_traffic(3) [OF i(1,3) r] by (auto simp: wire_ok_def)
  show "parts_ok (sent l (\<not> b)) a"
    by (rule parts_ok_same [OF i(5) same c])
  show "once_ok a (got l b) (events l b)"
    by (rule once_ok_same [OF i(6) same send_numbered(2) [OF i(1,4) r]])
qed

text \<open>A step that sends nothing new and at most drops reassemblies.\<close>

definition shrinks :: "adapter \<Rightarrow> adapter \<Rightarrow> bool" where
  "shrinks a b \<longleftrightarrow>
     completed b = completed a \<and> completed_order b = completed_order a \<and>
     (\<forall>k st. map_of (incoming b) k = Some st \<longrightarrow> map_of (incoming a) k = Some st)"

lemma shrinks_same: "same_receiver a b \<Longrightarrow> shrinks a b"
  by (simp add: shrinks_def same_receiver_def)

lemma shrinks_trans: "shrinks a b \<Longrightarrow> shrinks b c \<Longrightarrow> shrinks a c"
  by (simp add: shrinks_def)

lemma expire_shrinks: "shrinks a (expire now items a)"
proof (induction now items a rule: expire.induct)
  case (2 now key st items a)
  have "shrinks a (if rdeadline st \<le> now
      then a\<lparr>incoming := ddel key (incoming a), incoming_bytes := incoming_bytes a - rbytes st\<rparr> else a)"
    by (simp add: shrinks_def map_of_ddel)
  then show ?case
    using shrinks_trans [OF _ 2] by simp
qed (simp add: shrinks_def)

lemma retransmit_shrinks: "shrinks a (snd (retransmit ci now a))"
proof -
  define c where "c = expire now (incoming a) a"
  obtain x d where d: "resend now (pending a) [] c = (x, d)"
    by (cases "resend now (pending a) [] c")
  have "shrinks a d"
    using shrinks_trans [OF expire_shrinks shrinks_same [OF resend_recv]] d unfolding c_def by (metis snd_conv)
  moreover have "shrinks a (snd (outbound ci now d))"
    using calculation shrinks_trans shrinks_same [OF outbound_recv] by blast
  ultimately show ?thesis
    using d by (auto simp: retransmit_def shrinks_def [of a a] simp flip: c_def split: sum.splits prod.splits)
qed

lemma quiet_step_ok:
  assumes inv: "side_ok ci l b" "side_ok ci l (\<not> b)"
    and a: "sender_ok a" "receiver_ok a" "shrinks (node l b) a" "acodec a = acodec (node l b)" "closed a = closed (node l b)"
      "traffic_ok ci (sent l b) a" "counts_up (node l b) a" "\<forall>w \<in> ws. wire_ok ci (acodec (node l b)) (sent l b) w"
  shows "side_ok ci (out_step b a ws {} l) x"
proof (rule out_step_ok [OF inv a(1,2,4)])
  let ?a = "node l b"
  have i: "numbered (sent l b) ?a" "parts_ok (sent l (\<not> b)) ?a" "once_ok ?a (got l b) (events l b)"
    using inv(1) by (simp_all add: side_ok_def)
  show "numbered (sent l b \<union> {}) a" using numbered_mono [OF i(1) a(7)] by simp
  show "parts_ok (sent l (\<not> b)) a"
    using i(2) a(3,4) unfolding parts_ok_def shrinks_def by metis
  show "once_ok a (got l b) (events l b)"
    using i(3) a(3,5) by (auto simp: once_ok_def shrinks_def)
qed (use a in simp_all)

lemma outbound_step_ok:
  assumes inv: "side_ok ci l b" "side_ok ci l (\<not> b)" and r: "outbound ci now (node l b) = (r, a)"
  shows "side_ok ci (out_step b a (frames_of r) {} l) x"
proof -
  let ?a = "node l b"
  have i: "sender_ok ?a" "receiver_ok ?a" "traffic_ok ci (sent l b) ?a"
    using inv(1) by (simp_all add: side_ok_def)
  have "genuine ci (acodec ?a) (sent l b) w" if "w \<in> frames_of r" for w
    using outbound_traffic(2) [OF i(1,3), of now _ w] r that by (auto simp: frames_of_def split: sum.splits)
  then show ?thesis
    using outbound_keeps [OF i(1), of ci now] outbound_recv [of ?a ci now] outbound_traffic(1) [OF i(1,3), of now]
      outbound_next [of ci now ?a] r receiver_ok_same [OF i(2)]
    by (intro quiet_step_ok [OF inv]) (auto simp: wire_ok_def intro: shrinks_same counts_up_same)
qed

lemma retransmit_step_ok:
  assumes inv: "side_ok ci l b" "side_ok ci l (\<not> b)" and r: "retransmit ci now (node l b) = (r, a)"
  shows "side_ok ci (out_step b a (frames_of r) {} l) x"
proof -
  let ?a = "node l b"
  have i: "sender_ok ?a" "receiver_ok ?a" "traffic_ok ci (sent l b) ?a"
    using inv(1) by (simp_all add: side_ok_def)
  show ?thesis
    using retransmit_keeps [OF i(1), of ci now] retransmit_receiver_ok [OF i(2), of ci now]
      retransmit_shrinks [of ?a ci now] retransmit_traffic [OF i(1,3) r] retransmit_next [of ci now ?a] r
    by (intro quiet_step_ok [OF inv]) (auto simp: wire_ok_def intro: counts_up_same)
qed

lemma extension_step_ok:
  assumes inv: "side_ok ci l b" "side_ok ci l (\<not> b)" and r: "extension ci stream name v (node l b) = (r, a)"
  shows "side_ok ci (out_step b a (case r of Inl _ \<Rightarrow> {} | Inr w \<Rightarrow> {w}) {} l) x"
proof -
  let ?a = "node l b"
  have i: "sender_ok ?a" "receiver_ok ?a" "traffic_ok ci (sent l b) ?a"
    using inv(1) by (simp_all add: side_ok_def)
  note f = extension_facts [OF i(1) r]
  have same: "same_receiver ?a a"
    using extension_recv [of ?a ci stream name v] r by simp
  have "traffic_ok ci (sent l b) a"
    using i(3) f by (simp add: traffic_ok_def)
  moreover have "\<forall>w \<in> (case r of Inl _ \<Rightarrow> {} | Inr w \<Rightarrow> {w}). wire_ok ci (acodec ?a) (sent l b) w"
    using f(6) by (auto simp: wire_ok_def split: sum.splits)
  moreover have "sender_ok a"
    using extension_keeps [OF i(1), of ci stream name v] r by simp
  ultimately show ?thesis
    using f(1-3) receiver_ok_same [OF i(2) same] shrinks_same [OF same]
    by (intro quiet_step_ok [OF inv]) simp_all
qed

lemma close_step_ok:
  assumes inv: "side_ok ci l b" "side_ok ci l (\<not> b)"
  shows "side_ok ci (out_step b (close (node l b)) {} {} l) x"
proof (rule out_step_ok [OF inv])
  let ?a = "node l b"
  have i: "sender_ok ?a" "receiver_ok ?a" "traffic_ok ci (sent l b) ?a" "numbered (sent l b) ?a"
    "parts_ok (sent l (\<not> b)) ?a" "once_ok ?a (got l b) (events l b)"
    using inv(1) by (simp_all add: side_ok_def)
  show "sender_ok (close ?a)" "receiver_ok (close ?a)"
    using close_keeps [OF i(1)] close_receiver_ok [OF i(2)] .
  show "acodec (close ?a) = acodec ?a" by (simp add: close_def)
  show "traffic_ok ci (sent l b \<union> {}) (close ?a)" using i(3) by (simp add: traffic_ok_def close_def)
  show "numbered (sent l b \<union> {}) (close ?a)" using numbered_mono [OF i(4) counts_up_same] by (simp add: close_def)
  show "parts_ok (sent l (\<not> b)) (close ?a)" using i(5) by (simp add: parts_ok_def close_def)
  show "once_ok (close ?a) (got l b) (events l b)" using i(6) by (auto simp: once_ok_def close_def)
qed simp

section \<open>Receiving steps\<close>

lemma parts_entry:
  "parts_ok S a \<Longrightarrow> map_of (incoming a) (s, m) = Some st \<Longrightarrow> map_of (rparts st) i = Some p \<Longrightarrow>
     \<exists>d. (s, m, d) \<in> S \<and> p = chunk (cpayload (acodec a)) d i"
  unfolding parts_ok_def by blast

lemma receive_genuine:
  assumes ok: "receiver_ok a" and parts: "parts_ok S a" and S: "(s, m, d) \<in> S" "\<forall>e. (s, m, e) \<in> S \<longrightarrow> e = d"
    and pl: "pl = cpayload (acodec a)" "0 < pl" and i: "i < chunk_count pl d"
    and r: "receive_data now ack (message_frame pl s m d i) a = (r, b)"
  shows "parts_ok S b" "r = Inr (acks, ms, evs) \<Longrightarrow> evs = [] \<and> (ms = [] \<or> ms = [(s, d)])"
proof -
  let ?f = "message_frame pl s m d i"
  have f: "fstream ?f = s" "fmessage ?f = m" "findex ?f = i" "fcount ?f = chunk_count pl d" "fpayload ?f = chunk pl d i"
    by (simp_all add: message_frame_def part_frame_def)
  have fi: "findex ?f < fcount ?f" using i f by simp
  have base: "map_of (rparts (base_state now ?f a)) j = Some p \<Longrightarrow> p = chunk pl d j" for j p
    using parts_entry [OF parts, of s m _ j p] S(2) f pl(1)
    by (fastforce simp: base_state_def new_reassembly_def split: option.splits)
  have st: "map_of (rparts st) j = Some p \<Longrightarrow> p = chunk pl d j" if "add_chunk now ?f a = Inr (st, fresh)" for st fresh j p
    using add_chunk_Inr(5,6) [OF that] base [of j p] f
    by (cases fresh) (auto simp: map_of_dset split: if_splits)
  have store: "parts_ok S (stored ?f st fresh a)" if "add_chunk now ?f a = Inr (st, fresh)" for st fresh
    using parts st [OF that] S(1) f pl(1)
    by (auto simp: parts_ok_def stored_def map_of_dset split: if_splits)
  have dl: "delivered ?f st = d" if "add_chunk now ?f a = Inr (st, fresh)" "length (rparts st) = chunk_count pl d" for st fresh
  proof -
    have "set (map fst (rparts st)) = {0 ..< chunk_count pl d}"
      using added_complete [OF add_chunk_ok [OF ok that(1) fi]] that(2) f by simp
    then have "the (map_of (rparts st) j) = chunk pl d j" if "j < chunk_count pl d" for j
      using that st [OF \<open>add_chunk now ?f a = Inr (st, fresh)\<close>, of j]
      by (cases "map_of (rparts st) j") (auto simp: map_of_eq_None_iff)
    then have "delivered ?f st = concat (map (chunk pl d) [0 ..< chunk_count pl d])"
      by (auto simp: delivered_def f intro!: arg_cong [of _ _ concat] map_cong)
    then show ?thesis using chunks_all [OF pl(2)] by simp
  qed
  note cases = receive_data_cases [OF ok fi, of now ack, unfolded r f]
  have drop: "parts_ok S (remember k (c\<lparr>incoming := ddel k' (incoming c), incoming_bytes := x\<rparr>))" if "parts_ok S c" for c k k' x
    using that by (simp add: parts_ok_def map_of_ddel)
  show "parts_ok S b"
    using cases parts store drop by (auto split: if_splits sum.splits)
  show "r = Inr (acks, ms, evs) \<Longrightarrow> evs = [] \<and> (ms = [] \<or> ms = [(s, d)])"
    using cases dl by (auto split: if_splits sum.splits)
qed

definition remembers :: "nat \<times> nat \<Rightarrow> adapter \<Rightarrow> adapter \<Rightarrow> bool" where
  "remembers k a b \<longleftrightarrow> completed b = completed (remember k a) \<and> completed_order b = completed_order (remember k a)"

text \<open>What a call delivers and what it remembers: nothing of both, or one new message or event.\<close>

definition delivers :: "nat \<times> nat \<Rightarrow> adapter \<Rightarrow> delivery res \<Rightarrow> adapter \<Rightarrow> bool" where
  "delivers k a r b \<longleftrightarrow>
     (case r of
        Inl _ \<Rightarrow> completed b = completed a \<and> completed_order b = completed_order a
      | Inr (acks, ms, evs) \<Rightarrow>
          ms = [] \<and> evs = [] \<and> completed b = completed a \<and> completed_order b = completed_order a \<or>
          k \<notin> completed a \<and> length ms + length evs = 1 \<and> (\<forall>(s, d) \<in> set ms. s = fst k) \<and> remembers k a b)"

lemma receive_data_delivers:
  assumes "receive_data now ack f a = (r, b)"
  shows "delivers (fstream f, fmessage f) a r b"
  using assms
  by (auto simp: receive_data_def Let_def delivers_def remembers_def remember_def split: if_splits sum.splits)

lemma receive_extension_delivers:
  assumes "receive_extension nfc ack f a = (r, b)"
  shows "delivers (fstream f, fmessage f) a r b"
  using assms
  by (auto simp: receive_extension_def Let_def delivers_def remembers_def split: if_splits sum.splits)

lemma once_ok_deliver:
  assumes once: "once_ok a g ev" and op: "\<not> closed a" "closed b = closed a" and ok: "completed_ok a" "k \<notin> completed a"
    and rem: "remembers k a b" and len: "length g' + length ev' = 1" and key: "\<forall>(s, m, d) \<in> set g'. (s, m) = k"
  shows "once_ok b (g @ g') (ev @ ev')"
proof (cases "length (g @ g') + length (ev @ ev') \<le> 4096")
  case True
  then have le: "length g + length ev \<le> 4095" using len by simp
  then have o: "distinct (map (\<lambda>(s, m, d). (s, m)) g)" "length (completed_order a) = length g + length ev"
    "\<forall>(s, m, d) \<in> set g. (s, m) \<in> completed a"
    using once op by (auto simp: once_ok_def)
  have b: "completed b = insert k (completed a)" "completed_order b = completed_order a @ [k]"
    using rem o(2) le by (simp_all add: remembers_def remember_def Let_def)
  have g': "g' = [] \<or> (\<exists>d. g' = [(fst k, snd k, d)])"
    using len key by (cases g') (auto split: prod.splits)
  have "k \<notin> set (map (\<lambda>(s, m, d). (s, m)) g)"
    using o(3) ok(2) by force
  moreover have "map (\<lambda>(s, m, d). (s, m)) g' = [] \<or> map (\<lambda>(s, m, d). (s, m)) g' = [k]"
    using g' by auto
  ultimately have "distinct (map (\<lambda>(s, m, d). (s, m)) (g @ g'))"
    using o(1) unfolding map_append by fastforce
  moreover have "\<forall>(s, m, d) \<in> set (g @ g'). (s, m) \<in> completed b"
    using o(3) key b by auto
  ultimately show ?thesis
    using b o(2) len by (simp add: once_ok_def)
qed (simp add: once_ok_def)

lemma wire_decodes:
  assumes "aead_ok ci" "mirror c d" "wire_ok ci c S w" "decode_frame ci d w = Inr f" "fkind f = DATA"
  obtains s m x i where "(s, m, x) \<in> S" "f = message_frame (cpayload c) s m x i" "i < chunk_count (cpayload c) x"
proof -
  have enc: "encode_frame ci c f = Inr w" "frame_ok f"
    using s6na.enc_dec [of ci c d w f] assms by auto
  have inj: "g = f" if "frame_ok g" "encode_frame ci c g = Inr w" for g
    using s6na.enc_inject [of ci c d g f w] that enc assms by auto
  obtain s m x i where S: "(s, m, x) \<in> S" and e: "encode_frame ci c (message_frame (cpayload c) s m x i) = Inr w"
    using assms(3,5) inj by (auto simp: wire_ok_def genuine_def)
  have "frame_ok (message_frame (cpayload c) s m x i)"
    by (simp add: frame_ok_def message_frame_def part_frame_def)
  then have f: "f = message_frame (cpayload c) s m x i"
    using inj e by simp
  have "i < chunk_count (cpayload c) x"
    using e by (auto simp: encode_frame_def message_frame_def part_frame_def split: if_splits)
  with S f show thesis by (rule that)
qed

text \<open>What a step of the receiver gives, for a frame of the peer or one that does not authenticate.\<close>

lemma receive_facts:
  assumes ci: "aead_ok ci" and inv: "side_ok ci l b" "side_ok ci l (\<not> b)"
    and w: "w \<in> wires l (\<not> b) \<or> (\<forall>f. decode_frame ci (acodec (node l b)) w \<noteq> Inr f)"
    and r: "receive ci nfc now w (node l b) = (r, a)"
  shows "parts_ok (sent l (\<not> b)) a"
    and "r = Inr (acks, ms, evs) \<Longrightarrow>
       (\<forall>v \<in> set acks. \<exists>f. fkind f \<noteq> DATA \<and> frame_ok f \<and> encode_frame ci (acodec (node l b)) f = Inr v) \<and>
       (\<forall>(s, d) \<in> set ms. (s, wire_message ci (node l b) w, d) \<in> sent l (\<not> b))"
    and "\<exists>s. delivers (s, wire_message ci (node l b) w) (node l b) r a"
proof -
  let ?a = "node l b" and ?S = "sent l (\<not> b)"
  have i: "receiver_ok ?a" "sender_ok ?a" "parts_ok ?S ?a" "mirror (acodec (node l (\<not> b))) (acodec ?a)"
    "numbered ?S (node l (\<not> b))" "\<forall>w \<in> wires l (\<not> b). wire_ok ci (acodec (node l (\<not> b))) ?S w"
    using inv by (simp_all add: side_ok_def)
  have "parts_ok ?S a \<and>
    (\<forall>acks ms evs. r = Inr (acks, ms, evs) \<longrightarrow>
       (\<forall>v \<in> set acks. \<exists>f. fkind f \<noteq> DATA \<and> frame_ok f \<and> encode_frame ci (acodec ?a) f = Inr v) \<and>
       (\<forall>(s, d) \<in> set ms. (s, wire_message ci ?a w, d) \<in> ?S)) \<and>
    (\<exists>s. delivers (s, wire_message ci ?a w) ?a r a)"
  proof (cases "ebind (ensure_open ?a) (\<lambda>_. decode_frame ci (acodec ?a) w)")
    case (Inl e)
    then show ?thesis
      using r i(3) by (auto simp: receive_def delivers_def)
  next
    case (Inr f)
    then have dec: "decode_frame ci (acodec ?a) w = Inr f"
      by auto
    have wm: "wire_message ci ?a w = fmessage f"
      by (simp add: wire_message_def dec)
    obtain ack where ack: "encode_frame ci (acodec ?a) (f\<lparr>fkind := ACK, fpayload := []\<rparr>) = Inr ack"
      using ack_encodes [OF dec] by blast
    have ackf: "\<exists>g. fkind g \<noteq> DATA \<and> frame_ok g \<and> encode_frame ci (acodec ?a) g = Inr ack"
      using ack by (intro exI [of _ "f\<lparr>fkind := ACK, fpayload := []\<rparr>"]) (simp add: frame_ok_def)
    show ?thesis
    proof (cases "fkind f")
      case ACK
      then have ra: "receive_ack now f ?a = (r, a)"
        using r Inr by (simp add: receive_def)
      have "same_receiver ?a a"
        using receive_ack_recv [of ?a now f] ra by simp
      moreover have "acodec a = acodec ?a"
        using ra by (auto simp: receive_ack_def Let_def sample_def split: option.splits prod.splits if_splits)
      moreover have "r = Inr ([], [], [])"
        using receive_ack_ok [OF i(2), of now f] ra by auto
      ultimately show ?thesis
        using parts_ok_same [OF i(3)] by (auto simp: delivers_def same_receiver_def)
    next
      case EXTENSION
      then have re: "receive_extension nfc ack f ?a = (r, a)"
        using r Inr ack by (simp add: receive_def)
      have "parts_ok ?S a"
        using re i(3) by (auto simp: receive_extension_def Let_def parts_ok_def split: if_splits sum.splits)
      moreover have "acks = [ack] \<and> ms = []" if "r = Inr (acks, ms, evs)" for acks ms evs
        using re that by (auto simp: receive_extension_def Let_def split: if_splits sum.splits)
      ultimately show ?thesis
        using receive_extension_delivers [OF re] ackf wm by auto
    next
      case DATA
      then have rd: "receive_data now ack f ?a = (r, a)"
        using r Inr ack by (simp add: receive_def)
      have wk: "wire_ok ci (acodec (node l (\<not> b))) ?S w"
        using w dec i(6) by blast
      obtain s m x j where S: "(s, m, x) \<in> ?S" and f: "f = message_frame (cpayload (acodec (node l (\<not> b)))) s m x j"
        and j: "j < chunk_count (cpayload (acodec (node l (\<not> b)))) x"
        by (rule wire_decodes [OF ci i(4) wk dec DATA])
      have pl: "cpayload (acodec (node l (\<not> b))) = cpayload (acodec ?a)" "0 < cpayload (acodec (node l (\<not> b)))"
        using i(2,4) by (auto simp: mirror_def sender_ok_def config_ok_def)
      have uniq: "\<forall>e. (s, m, e) \<in> ?S \<longrightarrow> e = x"
        using i(5) S unfolding numbered_def by blast
      note G = receive_genuine [OF i(1,3) S uniq pl j rd [unfolded f]]
      have fm: "fmessage f = m" "fstream f = s"
        by (simp_all add: f message_frame_def part_frame_def)
      have "acks = [ack]" if "r = Inr (acks, ms, evs)" for acks ms evs
        using rd that by (auto simp: receive_data_def Let_def split: if_splits sum.splits)
      moreover have "(s', m, d) \<in> ?S" if "r = Inr (acks, ms, evs)" "(s', d) \<in> set ms" for acks ms evs s' d
        using G(2) [OF that(1)] that(2) S by auto
      ultimately show ?thesis
        using G(1) receive_data_delivers [OF rd] ackf wm fm by auto
    qed
  qed
  then show "parts_ok ?S a"
    and "r = Inr (acks, ms, evs) \<Longrightarrow>
       (\<forall>v \<in> set acks. \<exists>f. fkind f \<noteq> DATA \<and> frame_ok f \<and> encode_frame ci (acodec ?a) f = Inr v) \<and>
       (\<forall>(s, d) \<in> set ms. (s, wire_message ci ?a w, d) \<in> ?S)"
    and "\<exists>s. delivers (s, wire_message ci ?a w) ?a r a"
    by blast+
qed

lemma receive_step_ok:
  assumes ci: "aead_ok ci" and inv: "side_ok ci l b" "side_ok ci l (\<not> b)"
    and w: "w \<in> wires l (\<not> b) \<or> (\<forall>f. decode_frame ci (acodec (node l b)) w \<noteq> Inr f)"
    and r: "receive ci nfc now w (node l b) = (r, a)"
  shows "side_ok ci (in_step ci b w r a l) x"
proof -
  let ?a = "node l b" and ?m = "wire_message ci (node l b) w"
  have i: "sender_ok ?a" "receiver_ok ?a" "traffic_ok ci (sent l b) ?a" "numbered (sent l b) ?a"
    "once_ok ?a (got l b) (events l b)" "set (got l b) \<subseteq> sent l (\<not> b)"
    using inv(1) by (simp_all add: side_ok_def)
  note F = receive_facts [OF ci inv w r]
  have k: "sender_ok a" "receiver_ok a" "traffic_ok ci (sent l b) a" "acodec a = acodec ?a"
    "numbered (sent l b) a" "closed a = closed ?a"
    using receive_keeps [OF i(1), of ci nfc now w] receive_receiver_ok [OF i(2), of ci nfc now w]
      receive_traffic [OF i(3), of nfc now w] receive_next [of ci nfc now w ?a] numbered_mono [OF i(4) counts_up_same] r
    by simp_all
  obtain s where del: "delivers (s, ?m) ?a r a"
    using F(3) by blast
  have once: "once_ok a (got l b @ map (\<lambda>(s, d). (s, ?m, d)) ms) (events l b @ evs)" if r': "r = Inr (acks, ms, evs)" for acks ms evs
  proof (cases "ms = [] \<and> evs = []")
    case True
    then show ?thesis
      using del i(5) k(6) r' by (auto simp: delivers_def once_ok_def)
  next
    case False
    then have d: "(s, ?m) \<notin> completed ?a" "length ms + length evs = 1" "\<forall>(s', d) \<in> set ms. s' = s" "remembers (s, ?m) ?a a"
      using del r' by (auto simp: delivers_def)
    have "\<not> closed ?a"
      using r r' by (auto simp: receive_def ensure_open_def raise_if_def)
    then show ?thesis
      using d i(2) k(6) by (intro once_ok_deliver [OF i(5)]) (auto simp: receiver_ok_def)
  qed
  show ?thesis
  proof (cases r)
    case (Inl e)
    then have "once_ok a (got l b) (events l b)"
      using del i(5) k(6) by (auto simp: delivers_def once_ok_def)
    then show ?thesis
      using inv k F(1) Inl by (cases "x = b") (auto simp: side_ok_def in_step_def)
  next
    case (Inr y)
    obtain acks ms evs where y: "y = (acks, ms, evs)" by (cases y)
    have f: "\<forall>v \<in> set acks. wire_ok ci (acodec ?a) (sent l b) v" "\<forall>(s, d) \<in> set ms. (s, ?m, d) \<in> sent l (\<not> b)"
      using F(2) [of acks ms evs] Inr y by (auto simp: wire_ok_def)
    show ?thesis
      using inv k F(1) f i(6) once [of acks ms evs] Inr y by (cases "x = b") (auto simp: side_ok_def in_step_def)
  qed
qed

lemma link_step_ok:
  assumes "link_step ci nfc l l'" "aead_ok ci" "\<forall>b. side_ok ci l b"
  shows "side_ok ci l' x"
  using assms(1)
proof cases
  case (ls_flow now stream data b r a)
  show ?thesis
  proof (cases "send ci now stream data (node l b) = (r, a)")
    case True
    then show ?thesis
      using send_step_ok assms(3) ls_flow(1) by blast
  next
    case False
    then obtain e where "r = Inl e" "a = node l b"
      using flow_cases [of ci now stream data "node l b"] ls_flow(2) by auto
    then have "l' = l"
      by (simp add: ls_flow(1) out_step_def frames_of_def sent_by_def)
    then show ?thesis
      using assms(3) by simp
  qed
qed (use assms in \<open>auto intro: send_step_ok outbound_step_ok retransmit_step_ok extension_step_ok close_step_ok receive_step_ok\<close>)

lemma link_start_ok:
  assumes a: "adapter_init core key 0 exts lims transport = Inr a" and b: "adapter_init core key 1 exts lims transport = Inr b"
    and lims: "\<forall>l. lims = Some l \<longrightarrow> limits_ok l"
  shows "side_ok ci \<lparr>node = (\<lambda>x. if x then b else a), wires = (\<lambda>_. {}), sent = (\<lambda>_. {}), got = (\<lambda>_. []), events = (\<lambda>_. [])\<rparr> x"
proof -
  obtain p pol l c where A: "map_of profiles p = Some pol" "l = (case lims of None \<Rightarrow> default_limits | Some l \<Rightarrow> l)"
    "codec_init key (if payload_bytes l = 0 then ppayload pol else payload_bytes l) 0 (max_streams l) = Inr c"
    and fa: "acodec a = c" "pending a = []" "queues a = replicate (nat (max_streams l)) []" "incoming a = []"
      "completed_order a = []" and p: "profile_name core transport = Inr p"
    using a by (auto simp: adapter_init_def Let_def split: option.splits)
  obtain p' pol' l' c' where B: "map_of profiles p' = Some pol'" "l' = (case lims of None \<Rightarrow> default_limits | Some l \<Rightarrow> l)"
    "codec_init key (if payload_bytes l' = 0 then ppayload pol' else payload_bytes l') 1 (max_streams l') = Inr c'"
    and fb: "acodec b = c'" "pending b = []" "queues b = replicate (nat (max_streams l')) []" "incoming b = []"
      "completed_order b = []" and p': "profile_name core transport = Inr p'"
    using b by (auto simp: adapter_init_def Let_def split: option.splits)
  have "mirror c c' \<and> mirror c' c"
    using codec_init_mirror [of key _ 0 _ c c'] A B p p' by auto
  then show ?thesis
    using adapter_init_sender_ok [OF a lims] adapter_init_sender_ok [OF b lims]
      adapter_init_receiver_ok [OF a lims] adapter_init_receiver_ok [OF b lims] fa fb
    by (auto simp: side_ok_def traffic_ok_def numbered_def parts_ok_def once_ok_def)
qed

lemma link_run_ok:
  assumes "link_run ci nfc l" "aead_ok ci"
  shows "side_ok ci l b"
  using assms
proof (induction arbitrary: b rule: link_run.induct)
  case (lr_start core key exts lims transport a b)
  then have "\<forall>l. lims = Some l \<longrightarrow> limits_ok l"
    using limits_init_ok by blast
  then show ?case
    using link_start_ok lr_start by blast
next
  case (lr_step l l')
  then show ?case using link_step_ok by blast
qed

end
