(* ===== verification/S6_Demo.thy ===== *)
theory S6_Demo
  imports S6_Channel
begin

text \<open>
  A concrete pair of adapters and a cipher that keeps the promises of \<open>aead_ok\<close>, for the
  witnesses: the theorems are applied to a run in which a message really travels.
\<close>

definition null_aead :: aead where
  "null_aead =
     \<lparr>aead_encrypt = (\<lambda>k n p ad. p @ replicate 16 0),
      aead_decrypt = (\<lambda>k n c ad. if 16 \<le> length c \<and> drop (length c - 16) c = replicate 16 0
                                then Some (take (length c - 16) c) else None)\<rparr>"

lemma null_aead_ok: "aead_ok null_aead"
  by (auto simp: aead_ok_def null_aead_def split: if_splits) (metis append_take_drop_id)

definition demo_key :: bytes where
  "demo_key = replicate 32 0"

definition demo :: "nat \<Rightarrow> adapter" where
  "demo side =
     \<lparr>alimits = default_limits, apolicy = the (map_of profiles ''ada''),
      acodec = \<lparr>tx = derive demo_key side, rx = derive demo_key (1 - side), cpayload = 448, cstreams = 64\<rparr>,
      extensions = [asc ''note''], next_message = replicate 64 0, pending = [], queues = replicate 64 [],
      active_streams = [], incoming = [], incoming_bytes = 0, buffered = 0, completed = {}, completed_order = [],
      outgoing = [], srtt = None, rto = 1 / 5, closed = False\<rparr>"

lemma demo_init:
  assumes "side = 0 \<or> side = 1"
  shows "adapter_init ''ada'' demo_key side [asc ''note''] None None = Inr (demo side)"
  using assms
  by (auto simp: adapter_init_def profile_name_def profiles_def policies_def Let_def default_limits_def codec_init_def
      raise_if_def demo_def demo_key_def asc_def)

definition demo_data :: bytes where
  "demo_data = [1, 2, 3]"

definition demo_wire :: bytes where
  "demo_wire = pack_header 1 0 0 0 1 (length demo_data) @ [1, 2, 3] @ replicate 16 0"

lemma demo_encode: "encode_frame null_aead (acodec (demo side)) (message_frame 448 0 0 demo_data 0) = Inr demo_wire"
  by (simp add: encode_frame_def message_frame_def part_frame_def demo_def demo_data_def demo_wire_def null_aead_def
      chunk_def chunk_count_def kind_byte_def Let_def)

lemma demo_reachable: "side = 0 \<or> side = 1 \<Longrightarrow> reachable ci nfc (demo side)"
  by (rule re_init [OF demo_init]) simp_all

lemma demo_mirror: "mirror (acodec (demo 0)) (acodec (demo 1)) \<and> mirror (acodec (demo 1)) (acodec (demo 0))"
  by (simp add: mirror_def demo_def)

lemma demo_send: "\<exists>a. send null_aead 0 0 demo_data (demo 0) = (Inr [demo_wire], a)"
proof -
  let ?a = "enqueue 0 demo_data 1 (demo 0)"
  have c: "chunk_count (cpayload (acodec (demo 0))) demo_data = 1"
    by (simp add: demo_def demo_data_def chunk_count_def)
  have al: "send_allowed 0 demo_data (demo 0)"
    using c by (simp add: send_allowed_def check_send_Inr)
       (simp add: demo_def default_limits_def demo_data_def)
  have "\<exists>b. emit null_aead 0 0 (?a\<lparr>active_streams := []\<rparr>) = (Inr demo_wire, b) \<and> active_streams b = []"
    using demo_encode [of 0]
    by (simp add: emit_def enqueue_def Let_def demo_def data_frame_def message_frame_def part_frame_def demo_data_def
        chunk_count_def)
  then obtain b where e: "emit null_aead 0 0 (?a\<lparr>active_streams := []\<rparr>) = (Inr demo_wire, b)" "active_streams b = []"
    by blast
  have "outbound_loop null_aead 0 ?a [] = (Inr [demo_wire], b)"
    using e by (subst outbound_loop.simps)
      (simp add: outbound_loop.simps [of null_aead 0 b] enqueue_def Let_def demo_def window_def profiles_def policies_def
        default_limits_def)
  then have "send null_aead 0 0 demo_data (demo 0) = (Inr [demo_wire], b)"
    using send_accepts [OF al, of null_aead 0] c
    by (simp add: outbound_def ensure_open_def raise_if_def) (simp add: enqueue_def Let_def demo_def)
  then show ?thesis by blast
qed

lemma demo_receive:
  obtains ack a where "receive null_aead id 0 demo_wire (demo 1) = (Inr ([ack], [(0, demo_data)], []), a)"
proof -
  let ?f = "message_frame 448 0 0 demo_data 0"
  have op: "\<not> closed (demo 1)" and ok: "receiver_ok (demo 1)"
    using reachable_ok [OF demo_reachable [of 1 null_aead id]] by (simp_all add: demo_def)
  obtain ack where r: "receive null_aead id 0 demo_wire (demo 1) = receive_data 0 ack ?f (demo 1)"
    by (rule receive_message_frame [OF null_aead_ok _ op demo_encode [of 0]]) (use demo_mirror in blast)
  have n: "chunk_count 448 demo_data = 1" "chunk 448 demo_data 0 = demo_data" "demo_data \<noteq> []"
    by (simp_all add: chunk_count_def chunk_def demo_data_def)
  have h: "holding (chunk 448 demo_data) 1 (0, 0) {} (demo 1)"
    by (simp add: holding_def demo_def default_limits_def n psubset_eq) (simp add: demo_data_def)
  have len: "int (length demo_data) \<le> max_message (alimits (demo 1))"
    by (simp add: demo_def default_limits_def demo_data_def)
  have ne: "chunk 448 demo_data 0 \<noteq> []"
    using n by simp
  have fits: "(\<Sum>i \<in> {0 ..< 1 :: nat}. int (length (chunk 448 demo_data i))) \<le> max_message (alimits (demo 1))"
    using n len by simp
  obtain a where "receive_data 0 ack (part_frame (chunk 448 demo_data) 1 0 0 0) (demo 1) =
      (Inr ([ack], if insert 0 {} = {0 ..< 1 :: nat} then [(0, concat (map (chunk 448 demo_data) [0 ..< 1]))] else [], []), a)"
    by (rule holding_step [OF ok h less_one [THEN iffD2, OF refl] ne fits, of 0 ack])
  then have "receive null_aead id 0 demo_wire (demo 1) = (Inr ([ack], [(0, demo_data)], []), a)"
    using r n by (simp add: message_frame_def)
  then show thesis by (rule that)
qed

text \<open>A run of the system in which one message is sent and delivered.\<close>

lemma demo_run: "\<exists>l. link_run null_aead id l \<and> got l True = [(0, 0, demo_data)] \<and> events l True = []"
proof -
  let ?l0 = "\<lparr>node = (\<lambda>x. if x then demo 1 else demo 0), wires = (\<lambda>_. {}), sent = (\<lambda>_. {}), got = (\<lambda>_. []),
    events = (\<lambda>_. [])\<rparr>"
  have l0: "link_run null_aead id ?l0"
    by (rule lr_start [OF demo_init demo_init]) simp_all
  obtain a where s: "send null_aead 0 0 demo_data (demo 0) = (Inr [demo_wire], a)"
    using demo_send by blast
  define l1 where "l1 = out_step False a (frames_of (Inr [demo_wire])) (sent_by 0 demo_data (demo 0) (Inr [demo_wire])) ?l0"
  have l1: "link_run null_aead id l1"
    unfolding l1_def using ls_send [of null_aead 0 0 demo_data ?l0 False "Inr [demo_wire]" a id] s
    by (intro lr_step [OF l0]) simp
  obtain ack b where r: "receive null_aead id 0 demo_wire (demo 1) = (Inr ([ack], [(0, demo_data)], []), b)"
    by (rule demo_receive)
  have n: "node l1 True = demo 1" "demo_wire \<in> wires l1 False"
    by (simp_all add: l1_def out_step_def frames_of_def)
  have "link_run null_aead id (in_step null_aead True demo_wire (Inr ([ack], [(0, demo_data)], [])) b l1)"
    by (rule lr_step [OF l1 ls_receive]) (use n r in simp_all)
  moreover have "decode_frame null_aead (acodec (demo 1)) demo_wire = Inr (message_frame 448 0 0 demo_data 0)"
    using s6na.dec_enc [OF _ _ demo_encode [of 0], of "acodec (demo 1)"] null_aead_ok demo_mirror
    by (simp add: frame_ok_def message_frame_def part_frame_def)
  then have "wire_message null_aead (demo 1) demo_wire = 0"
    by (simp add: wire_message_def message_frame_def part_frame_def)
  then have "got (in_step null_aead True demo_wire (Inr ([ack], [(0, demo_data)], [])) b l1) True = [(0, 0, demo_data)]"
    "events (in_step null_aead True demo_wire (Inr ([ack], [(0, demo_data)], [])) b l1) True = []"
    using n by (simp_all add: in_step_def) (simp_all add: l1_def out_step_def)
  ultimately show ?thesis by blast
qed

end
