(* ===== verification/S6_Flow.thy ===== *)
theory S6_Flow
  imports S6_Sender
begin

text \<open>
  The credit of the flow-controlled sender: the frames of unacknowledged messages are exactly
  the frames in flight and in the queues, so a send within the credit leaves nothing queued.
\<close>

section \<open>Counting frames by message\<close>

lemma sum_by_key:
  fixes f :: "'a \<Rightarrow> nat"
  assumes "finite K" "\<forall>x \<in> set xs. g x \<in> K"
  shows "(\<Sum>k \<in> K. sum_list (map (\<lambda>x. if g x = k then f x else 0) xs)) = sum_list (map f xs)"
  using assms(2)
proof (induction xs)
  case (Cons x xs)
  have "(\<Sum>k \<in> K. if g x = k then f x else 0) = f x"
    using assms(1) Cons.prems by simp
  then show ?case
    using Cons by (simp add: sum.distrib)
qed simp

lemma sum_list_concat_map: "sum_list (map f (concat xss)) = sum_list (map (\<lambda>xs. sum_list (map f xs)) xss)" for f :: "'a \<Rightarrow> nat"
  by (induction xss) simp_all

lemma sum_list_nth: "sum_list (map f xs) = sum_list (map (\<lambda>i. f (xs ! i)) [0 ..< length xs])" for f :: "'a \<Rightarrow> nat"
  by (metis (no_types, lifting) map_eq_conv map_map map_nth o_apply)

lemma queued_in: "sender_ok a \<Longrightarrow> s < length (queues a) \<Longrightarrow> q \<in> set (queues a ! s) \<Longrightarrow> queued_ok a s q"
  by (simp add: sender_ok_def queues_ok_def)

definition queued_pairs :: "adapter \<Rightarrow> (nat \<times> queued) list" where
  "queued_pairs a = concat (map (\<lambda>s. map (Pair s) (queues a ! s)) [0 ..< length (queues a)])"

lemma unsent_pairs: "unsent (queues a) = sum_list (map (\<lambda>(s, q). qcount q - qindex q) (queued_pairs a))"
proof -
  have "unsent (queues a) = sum_list (map (\<lambda>s. sum_list (map (\<lambda>i. qcount i - qindex i) (queues a ! s))) [0 ..< length (queues a)])"
    unfolding unsent_def by (rule sum_list_nth)
  then show ?thesis
    by (simp add: queued_pairs_def sum_list_concat_map comp_def)
qed

lemma waiting_pairs:
  "waiting a k = sum_list (map (\<lambda>x. if (fst x, qmessage (snd x)) = k then qcount (snd x) - qindex (snd x) else 0) (queued_pairs a))"
proof -
  let ?g = "\<lambda>s. sum_list (map (\<lambda>q. if (s, qmessage q) = k then qcount q - qindex q else 0) (queues a ! s))"
  have z: "?g s = (if s = fst k then waiting a k else 0)" if "s < length (queues a)" for s
    using that by (cases k) (auto simp: waiting_def)
  have "sum_list (map ?g [0 ..< length (queues a)]) = (\<Sum>s \<in> {0 ..< length (queues a)}. ?g s)"
    by (simp add: interv_sum_list_conv_sum_set_nat)
  also have "\<dots> = (\<Sum>s \<in> {0 ..< length (queues a)}. if s = fst k then waiting a k else 0)"
    using z by (intro sum.cong) auto
  also have "\<dots> = waiting a k"
    by (auto simp: waiting_def)
  finally show ?thesis
    by (simp add: queued_pairs_def sum_list_concat_map comp_def cong: if_cong)
qed

lemma length_filter_sum: "length (filter P xs) = sum_list (map (\<lambda>x. if P x then 1 else 0) xs)"
  by (induction xs) auto

lemma dsum_keys: "dict_ok d \<Longrightarrow> (\<And>k v. map_of d k = Some v \<Longrightarrow> f v = int (h k)) \<Longrightarrow> dsum f d = int (\<Sum>k \<in> set (map fst d). h k)"
proof (induction d)
  case (Cons p d)
  obtain k v where p: "p = (k, v)" by (cases p)
  have "dsum f d = int (\<Sum>k \<in> set (map fst d). h k)"
  proof (rule Cons.IH)
    show "dict_ok d" using Cons.prems(1) by (simp add: dict_ok_def)
    show "f w = int (h j)" if "map_of d j = Some w" for j w
    proof -
      have "j \<noteq> k" using that Cons.prems(1) p by (auto simp: dict_ok_def dest!: map_of_SomeD) force
      then show ?thesis using Cons.prems(2) [of j w] that p by simp
    qed
  qed
  moreover have "f v = int (h k)" using Cons.prems(2) [of k v] p by simp
  ultimately show ?case
    using Cons.prems(1) p by (simp add: dict_ok_def)
qed simp

text \<open>The unacknowledged frames of all messages are the frames in flight and in the queues.\<close>

lemma outgoing_total:
  assumes ok: "sender_ok a"
  shows "dsum fst (outgoing a) = int (length (pending a) + unsent (queues a))"
proof -
  have acc: "account_ok a" using ok by (simp add: sender_ok_def)
  define K where "K = set (map fst (outgoing a))"
  have K: "finite K" and out: "k \<in> K" if "0 < load a k" for k
    using account_absent [OF acc, of k] that by (auto simp: K_def map_of_eq_None_iff)
  have finK: "finite K" by (simp add: K_def)
  have "dsum fst (outgoing a) = int (\<Sum>k \<in> K. load a k)"
    unfolding K_def using acc account_entry [OF acc] by (intro dsum_keys) (auto simp: account_ok_def)
  also have "(\<Sum>k \<in> K. load a k) = (\<Sum>k \<in> K. in_flight a k) + (\<Sum>k \<in> K. waiting a k)"
    by (simp add: load_def sum.distrib)
  also have "(\<Sum>k \<in> K. in_flight a k) = length (pending a)"
  proof -
    let ?g = "\<lambda>(s, m, i). (s, m) :: nat \<times> nat"
    have mem: "?g x \<in> K" if "x \<in> set (pkeys a)" for x
    proof (rule out)
      have "x \<in> set (filter (\<lambda>(s, m, i). (s, m) = ?g x) (pkeys a))"
        using that by (auto split: prod.splits)
      then show "0 < load a (?g x)"
        using length_pos_if_in_set by (fastforce simp: load_def in_flight_def)
    qed
    have "in_flight a k = sum_list (map (\<lambda>x. if ?g x = k then 1 else 0) (pkeys a))" for k
      unfolding in_flight_def length_filter_sum by (auto intro!: arg_cong [of _ _ sum_list] map_cong)
    then have "(\<Sum>k \<in> K. in_flight a k) = sum_list (map (\<lambda>_. 1) (pkeys a))"
      using sum_by_key [OF finK, of "pkeys a" ?g "\<lambda>_. 1"] mem by simp
    then show ?thesis by (simp add: pkeys_def comp_def sum_list_triv)
  qed
  also have "(\<Sum>k \<in> K. waiting a k) = unsent (queues a)"
  proof -
    have mem: "(fst x, qmessage (snd x)) \<in> K" if x_in: "x \<in> set (queued_pairs a)" for x
    proof (rule out)
      obtain s q where x: "x = (s, q)" "s < length (queues a)" "q \<in> set (queues a ! s)"
        using x_in by (auto simp: queued_pairs_def)
      have "qcount q - qindex q \<in> set (map (\<lambda>r. if qmessage r = qmessage q then qcount r - qindex r else 0) (queues a ! s))"
        using x(3) by force
      then have "qcount q - qindex q \<le> sum_list (map (\<lambda>r. if qmessage r = qmessage q then qcount r - qindex r else 0) (queues a ! s))"
        by (rule member_le_sum_list) simp
      then have "qcount q - qindex q \<le> waiting a (s, qmessage q)"
        using x(2) by (simp add: waiting_def)
      moreover have "qindex q < qcount q"
        using queued_in [OF ok x(2,3)] by (simp add: queued_ok_def)
      ultimately have "0 < waiting a (s, qmessage q)"
        by simp
      then show "0 < load a (fst x, qmessage (snd x))" using x by (simp add: load_def)
    qed
    have "(\<Sum>k \<in> K. waiting a k) = sum_list (map (\<lambda>x. qcount (snd x) - qindex (snd x)) (queued_pairs a))"
      unfolding waiting_pairs using mem by (intro sum_by_key [OF finK]) simp
    then show ?thesis by (simp add: unsent_pairs case_prod_unfold)
  qed
  finally show ?thesis by simp
qed

section \<open>A send within the credit\<close>

lemma outbound_loop_total:
  "outbound_loop ci now a frames = (Inr fs, b) \<Longrightarrow> sender_ok a \<Longrightarrow>
     length (pending b) + unsent (queues b) = length (pending a) + unsent (queues a) \<and> window b = window a"
proof (induction ci now a frames rule: outbound_loop.induct)
  case (1 ci now a frames)
  show ?case
  proof (cases "int (length (pending a)) < window a \<and> active_streams a \<noteq> []")
    case True
    then obtain s act where act: "active_streams a = s # act"
      by (cases "active_streams a") auto
    obtain q rest w item queue c where "s < length (queues a)" "queues a ! s = q # rest" "queued_ok a s q"
      "encode_frame ci (acodec a) (data_frame (cpayload (acodec a)) s q) = Inr w"
      "queue = (if qindex q + 1 = qcount q then rest else q\<lparr>qindex := qindex q + 1\<rparr> # rest)" "swire item = w"
      and c: "c = a\<lparr>pending := pending a @ [((s, qmessage q, qindex q), item)], queues := (queues a)[s := queue],
            active_streams := (if queue = [] then act else act @ [s])\<rparr>"
      and e: "emit ci now s (a\<lparr>active_streams := act\<rparr>) = (Inr w, c)"
      by (rule emit_facts [OF 1(3) act conjunct1 [OF True], of ci now])
    have ok: "sender_ok c"
      using emit_ok [OF 1(3) act, of ci now] True e by auto
    have u: "Suc (unsent (queues c)) = unsent (queues a)"
      using emit_unsent [OF e] by simp
    have w: "length (pending c) = Suc (length (pending a))" "window c = window a"
      by (simp_all add: c window_def)
    have loop: "outbound_loop ci now c (frames @ [w]) = (Inr fs, b)"
      using 1(2) True act e by (simp add: outbound_loop.simps [of ci now a])
    have "length (pending b) + unsent (queues b) = length (pending c) + unsent (queues c) \<and> window b = window c"
      using 1(1) True act e loop ok by fastforce
    then show ?thesis
      using u w by simp
  next
    case False
    then show ?thesis
      using 1(2) unfolding outbound_loop.simps [of ci now a] if_not_P [OF False] by simp
  qed
qed

lemma unsent_zero:
  assumes "sender_ok a" "unsent (queues a) = 0" "s < length (queues a)"
  shows "queues a ! s = []"
proof (rule ccontr)
  assume "queues a ! s \<noteq> []"
  then obtain q where q: "q \<in> set (queues a ! s)"
    by (cases "queues a ! s") auto
  then have "qindex q < qcount q"
    using queued_in [OF assms(1,3) q] by (simp add: queued_ok_def)
  moreover have "qcount q - qindex q = 0"
    using assms(2,3) q by (force simp: unsent_def in_set_conv_nth)
  ultimately show False by simp
qed

lemma enqueue_unsent:
  assumes "s < length (queues a)"
  shows "unsent (queues (enqueue s data n a)) = unsent (queues a) + n" "pending (enqueue s data n a) = pending a"
    "window (enqueue s data n a) = window a"
proof -
  have "unsent ((queues a)[s := queues a ! s @ [\<lparr>qmessage = m, qdata = data, qindex = 0, qcount = n\<rparr>]]) = unsent (queues a) + n" for m
    using sum_list_update_nat [OF assms, of "\<lambda>q. sum_list (map (\<lambda>i. qcount i - qindex i) q)"
        "queues a ! s @ [\<lparr>qmessage = m, qdata = data, qindex = 0, qcount = n\<rparr>]"]
    by (simp add: unsent_def)
  then show "unsent (queues (enqueue s data n a)) = unsent (queues a) + n" "pending (enqueue s data n a) = pending a"
    "window (enqueue s data n a) = window a"
    by (simp_all add: enqueue_def Let_def window_def)
qed

lemma flow_controlled_drains:
  assumes ok: "sender_ok a" and r: "send_flow_controlled ci now stream data a = (Inr fs, b)"
  shows "\<forall>s < length (queues b). queues b ! s = []" "int (length (pending b)) \<le> window a"
proof -
  let ?n = "chunk_count (cpayload (acodec a)) data"
  have c: "check_send stream data a = Inr ?n" and cr: "int ?n \<le> application_credit a"
    and s: "send ci now stream data a = (Inr fs, b)"
    using r by (auto simp: send_flow_controlled_def check_send_Inr split: sum.splits)
  have al: "send_allowed stream data a"
    using send_refuses [of stream data a ci now] s by fastforce
  define e where "e = enqueue (nat stream) data ?n a"
  have st: "nat stream < length (queues a)" "int (nat stream) = stream" and op: "\<not> closed a"
    using c ok by (auto simp: check_send_Inr sender_ok_def config_ok_def)
  have eok: "sender_ok e"
    unfolding e_def using al st by (intro enqueue_ok [OF ok]) (simp_all add: send_allowed_def)
  have "0 < ?n"
    using chunk_count_pos [of "cpayload (acodec a)" data] c ok by (auto simp: check_send_Inr sender_ok_def config_ok_def)
  then have "int (length (pending a) + unsent (queues a)) + int ?n \<le> window a"
    using cr op outgoing_total [OF ok] by (auto simp: application_credit_def split: if_splits)
  then have tot: "int (length (pending e) + unsent (queues e)) \<le> window a" and we: "window e = window a"
    using enqueue_unsent [OF st(1), of data ?n] by (simp_all add: e_def)
  have o: "outbound_loop ci now e [] = (Inr fs, b)"
    using s send_accepts [OF al, of ci now] op
    by (simp add: e_def outbound_def ensure_open_def raise_if_def) (simp add: enqueue_def Let_def)
  have t: "int (length (pending b) + unsent (queues b)) \<le> window a" "window b = window a"
    using outbound_loop_total [OF o eok] tot we by simp_all
  obtain b' fs' where "outbound_loop ci now e [] = (Inr fs', b')" and bok: "sender_ok b'"
    and d: "active_streams b' = [] \<or> int (length (pending b')) = window b'"
    using outbound_loop_ok [OF eok, of ci now "[]"] by auto
  then have b: "b' = b" using o by simp
  show "\<forall>s < length (queues b). queues b ! s = []"
  proof (cases "active_streams b = []")
    case True
    then show ?thesis
      using bok b by (auto simp: sender_ok_def active_ok_def)
  next
    case False
    then have "unsent (queues b) = 0"
      using d t b by simp
    then show ?thesis
      using unsent_zero bok b by blast
  qed
  show "int (length (pending b)) \<le> window a"
    using t by simp
qed

end
