(* ===== verification/S6_Network.thy ===== *)
theory S6_Network
  imports S6_Demo S6_Flow
begin

text \<open>
  The properties of the network adapter (\<^verbatim>\<open>Network-Adapter/shadow6_network.py\<close>), stated over its
  own operations, each with a witness where it has hypotheses.
\<close>

lemma message_frame_ok [simp]: "frame_ok (message_frame pl s m d i)"
  by (simp add: frame_ok_def message_frame_def part_frame_def)

lemma demo_decode: "decode_frame null_aead (acodec (demo 1)) demo_wire = Inr (message_frame 448 0 0 demo_data 0)"
  by (rule decode_encode_frame [OF null_aead_ok conjunct1 [OF demo_mirror] message_frame_ok demo_encode])

lemma demo_codec: "side = 0 \<or> side = 1 \<Longrightarrow> codec_init demo_key 448 side 64 = Inr (acodec (demo side))"
  by (auto simp: codec_init_def raise_if_def demo_def demo_key_def)

section \<open>Delivery\<close>

text \<open>C3. The frames of a message, in any order and with any repetitions, make an open adapter with
  room for the message deliver exactly that message, once, as soon as all its chunks are in the
  sequence.\<close>

theorem reassembly_exact:
  assumes "aead_ok ci" "reachable ci nfc a" "\<not> closed a" "mirror c (acodec a)" "cpayload c = pl"
    and "data \<noteq> []" "int (length data) \<le> max_message (alimits a)"
    and "(s, m) \<notin> completed a" "map_of (incoming a) (s, m) = None" "length (incoming a) < 4096"
    and "incoming_bytes a + int (length data) \<le> max_inflight (alimits a)"
    and "list_all2 (\<lambda>i (now, w). encode_frame ci c (message_frame pl s m data i) = Inr w) order ws"
    and "set order = {0 ..< chunk_count pl data}"
  shows "fst (receive_many ci nfc ws a) = [(s, data)]"
proof -
  have ok: "sender_ok a" "receiver_ok a"
    using reachable_ok [OF assms(2)] by auto
  then have pl: "0 < pl"
    using assms(4,5) by (auto simp: mirror_def sender_ok_def config_ok_def)
  have "holding (chunk pl data) (chunk_count pl data) (s, m) {} a"
    using assms chunk_lengths [OF pl, of data] chunk_count_pos [OF pl, of data] by (auto simp: holding_def)
  then show ?thesis
    using receive_many_holding [OF assms(12,1) pl assms(4,3) ok(2)] assms(7,13) by simp
qed

theorem reassembly_exact_witness:
  "fst (receive_many null_aead id [(0, demo_wire), (1, demo_wire)] (demo 1)) = [(0, demo_data)]"
proof (rule reassembly_exact [where c = "acodec (demo 0)" and pl = 448 and m = 0 and order = "[0, 0]"])
  show "reachable null_aead id (demo 1)" by (rule demo_reachable) simp
  show "mirror (acodec (demo 0)) (acodec (demo 1))" using demo_mirror by simp
  show "list_all2 (\<lambda>i (now, w). encode_frame null_aead (acodec (demo 0)) (message_frame 448 0 0 demo_data i) = Inr w)
      [0, 0] [(0, demo_wire), (1, demo_wire)]"
    using demo_encode [of 0] by simp
qed (simp_all add: null_aead_ok demo_def default_limits_def demo_data_def chunk_count_def lessThan_Suc atLeast0LessThan)

text \<open>C1. Whatever the network does with the frames of the two sides, and whatever frames that do not
  authenticate are injected, a side delivers only messages that the other side sent, unchanged and
  on their stream.\<close>

theorem link_integrity:
  assumes "aead_ok ci" "link_run ci nfc l" "(s, m, d) \<in> set (got l b)"
  shows "(s, m, d) \<in> sent l (\<not> b)"
  using link_run_ok [OF assms(2,1), of b] assms(3) by (auto simp: side_ok_def)

theorem link_integrity_witness:
  "\<exists>l. link_run null_aead id l \<and> (0, 0, demo_data) \<in> set (got l True) \<and> (0, 0, demo_data) \<in> sent l False"
proof -
  obtain l where l: "link_run null_aead id l" "got l True = [(0, 0, demo_data)]"
    using demo_run by blast
  then show ?thesis
    using link_integrity [OF null_aead_ok l(1), of 0 0 demo_data True] by auto
qed



section \<open>Resources\<close>

text \<open>C4. In every reachable state the memory of an adapter is bounded by its limits: the bytes of
  unacknowledged messages and of open reassemblies by \<open>max_inflight\<close>, the frames in flight by the
  window, and the numbers of messages, reassemblies and remembered messages by 4096.\<close>

theorem adapter_bounded:
  assumes "reachable ci nfc a"
  shows "buffered a = dsum snd (outgoing a) \<and> buffered a \<le> max_inflight (alimits a) \<and> length (outgoing a) \<le> 4096 \<and>
    int (length (pending a)) \<le> window a \<and>
    incoming_bytes a = dsum rbytes (incoming a) \<and> incoming_bytes a \<le> max_inflight (alimits a) \<and>
    length (incoming a) \<le> 4096 \<and> card (completed a) \<le> 4096"
  using reachable_ok [OF assms]
  by (auto simp: sender_ok_def account_ok_def window_ok_def receiver_ok_def incoming_ok_def completed_ok_def distinct_card)

theorem adapter_bounded_witness:
  "buffered (snd (send null_aead 0 0 demo_data (demo 0))) \<le> 16777216 \<and>
   int (length (pending (snd (send null_aead 0 0 demo_data (demo 0))))) \<le> window (snd (send null_aead 0 0 demo_data (demo 0)))"
proof -
  let ?a = "snd (send null_aead 0 0 demo_data (demo 0))"
  have "reachable null_aead id ?a"
    by (rule re_step [OF demo_reachable st_send]) simp
  then have "buffered ?a \<le> max_inflight (alimits ?a) \<and> int (length (pending ?a)) \<le> window ?a"
    using adapter_bounded [of null_aead id ?a] by simp
  moreover have "alimits ?a = alimits (demo 0)"
    using send_recv [of "demo 0" null_aead 0 0 demo_data] by (simp add: same_receiver_def)
  ultimately show ?thesis
    by (simp add: demo_def default_limits_def)
qed

text \<open>C5. Sending never fails on a reachable open adapter, and stops only when no stream has a frame
  waiting or the window is full.\<close>

theorem outbound_progress:
  assumes "reachable ci nfc a" "\<not> closed a"
  shows "\<exists>fs b. outbound ci now a = (Inr fs, b) \<and>
    ((\<forall>s < length (queues b). queues b ! s = []) \<or> int (length (pending b)) = window b)"
proof -
  have ok: "sender_ok a"
    using reachable_ok [OF assms(1)] by simp
  obtain fs b where o: "outbound ci now a = (Inr fs, b)" and bok: "sender_ok b"
    and st: "active_streams b = [] \<or> int (length (pending b)) = window b"
    by (rule outbound_ok [OF ok assms(2), of ci now])
  have "\<forall>s < length (queues b). queues b ! s = []" if "active_streams b = []"
    using bok that unfolding sender_ok_def active_ok_def by simp
  then have "(\<forall>s < length (queues b). queues b ! s = []) \<or> int (length (pending b)) = window b"
    using st by blast
  with o show ?thesis by (intro exI conjI)
qed

theorem outbound_progress_witness:
  "\<exists>fs b. outbound null_aead 0 (demo 0) = (Inr fs, b) \<and>
    ((\<forall>s < length (queues b). queues b ! s = []) \<or> int (length (pending b)) = window b)"
  by (rule outbound_progress [OF demo_reachable [of 0 null_aead id]]) (simp_all add: demo_def)

text \<open>A flow-controlled send that is accepted puts every frame on the wire at once: no stream has
  anything queued afterwards, and the window is not exceeded.\<close>

theorem flow_controlled_immediate:
  assumes "reachable ci nfc a" "send_flow_controlled ci now stream data a = (Inr fs, b)"
  shows "(\<forall>s < length (queues b). queues b ! s = []) \<and> int (length (pending b)) \<le> window a"
  using flow_controlled_drains [OF _ assms(2)] reachable_ok [OF assms(1)] by blast

theorem flow_controlled_immediate_witness:
  "\<exists>b. send_flow_controlled null_aead 0 0 demo_data (demo 0) = (Inr [demo_wire], b) \<and>
     (\<forall>s < length (queues b). queues b ! s = [])"
proof -
  obtain b where s: "send null_aead 0 0 demo_data (demo 0) = (Inr [demo_wire], b)"
    using demo_send by blast
  have "send_flow_controlled null_aead 0 0 demo_data (demo 0) = send null_aead 0 0 demo_data (demo 0)"
    by (simp add: send_flow_controlled_def check_send_def ensure_open_def raise_if_def demo_def default_limits_def
        demo_data_def chunk_count_def application_credit_def window_def profiles_def policies_def)
  then show ?thesis
    using flow_controlled_immediate [of null_aead id "demo 0" 0 0 demo_data "[demo_wire]" b] demo_reachable [of 0] s
    by auto
qed

section \<open>Errors\<close>

lemma portable_str_raises: "portable_str s = Inl e \<Longrightarrow> is_value_error e"
  by (auto simp: portable_str_def ebind_Inl utf8_encode_def split: if_splits)

lemma portable_value_raises: "portable_value k v = Inl e \<Longrightarrow> is_value_error e"
proof (induction v arbitrary: k)
  case (JList xs)
  then show ?case
    by (subst (asm) (2) portable_value.simps) (auto dest!: each_Inl split: if_splits)
next
  case (JObj d)
  then show ?case
    by (subst (asm) (2) portable_value.simps)
       (fastforce dest!: each_Inl portable_str_raises simp: ebind_Inl split: if_splits)
qed (subst (asm) portable_value.simps, auto dest: portable_str_raises split: if_splits)+

lemma portable_payload_raises: "portable_payload v = Inl e \<Longrightarrow> is_value_error e"
  using portable_value_raises
  by (auto simp: portable_payload_def ebind_Inl json_bytes_def json_dumps_def split: if_splits)

definition receive_error :: "exn \<Rightarrow> bool" where
  "receive_error e \<longleftrightarrow>
     is_value_error e \<or> e = PermissionError ''received extension is not enabled'' \<or> e = TypeError ''unhashable type'' \<or>
     e = AdapterClosed ''S6NA adapter is closed'' \<or> e = AdapterBackpressure ''reassembly message limit reached'' \<or>
     e = AdapterBackpressure ''reassembly limit reached''"

lemma check_extension_raises: "check_extension exts p v = Inl e \<Longrightarrow> receive_error e"
  using portable_payload_raises
  by (auto simp: check_extension_def receive_error_def ebind_Inl Let_def split: if_splits pyval.splits)

lemma receive_extension_raises:
  assumes "receive_extension nfc ack f a = (Inl e, b)"
  shows "receive_error e"
proof -
  have "ebind (portable_json nfc 65536 (BytesIn (fpayload f))) (check_extension (extensions a) (fpayload f)) = Inl e"
    using assms by (auto simp: receive_extension_def Let_def split: if_splits sum.splits)
  then show ?thesis
    using check_extension_raises strict_json_value_error by (auto simp: ebind_Inl portable_json_def receive_error_def)
qed

lemma add_chunk_raises: "add_chunk now f a = Inl e \<Longrightarrow> receive_error e"
  by (auto simp: add_chunk_def add_part_def reassembly_state_def receive_error_def ebind_Inl split: if_splits option.splits)

lemma decode_frame_raises: "decode_frame ci c w = Inl e \<Longrightarrow> is_value_error e"
  by (auto simp: decode_frame_def Let_def split: if_splits option.splits)



section \<open>Frames\<close>

text \<open>C7. A frame encoded by one side of a key is decoded by the other side to the same frame.\<close>

theorem frame_roundtrip:
  assumes "aead_ok ci" "codec_init key p side n = Inr c" "codec_init key p (1 - side) n = Inr d"
    and "frame_ok f" "encode_frame ci c f = Inr w"
  shows "decode_frame ci d w = Inr f"
  using decode_encode_frame codec_init_mirror assms by blast

theorem frame_roundtrip_witness:
  "decode_frame null_aead (acodec (demo 1)) demo_wire = Inr (message_frame 448 0 0 demo_data 0)"
  using frame_roundtrip [OF null_aead_ok demo_codec [of 0] _ message_frame_ok demo_encode, of "acodec (demo 1)"] demo_codec [of 1]
  by simp

text \<open>C8. The decoder accepts no second spelling of a frame: what it accepts is exactly what the
  encoder of the other side produces for the decoded frame.\<close>

theorem frame_canonical:
  assumes "aead_ok ci" "codec_init key p side n = Inr c" "codec_init key p (1 - side) n = Inr d"
    and "decode_frame ci d w = Inr f"
  shows "encode_frame ci c f = Inr w"
  using encode_decode_frame codec_init_mirror assms by blast

theorem frame_canonical_witness:
  "encode_frame null_aead (acodec (demo 0)) (message_frame 448 0 0 demo_data 0) = Inr demo_wire"
  using frame_canonical [OF null_aead_ok demo_codec [of 0] _ demo_decode] demo_codec [of 1] by simp

text \<open>Limits read from a configuration file are within the absolute caps.\<close>

theorem loaded_limits_capped:
  assumes "load_limits nfc euid source = Inr l"
  shows "limits_ok l"
  using assms by (rule load_limits_ok)

theorem loaded_limits_capped_witness: "load_limits id 0 None = Inr default_limits \<and> limits_ok default_limits"
  using loaded_limits_capped [of id 0 None default_limits] by (simp add: load_limits_def)

lemma demo_receive_completes:
  assumes r: "receive null_aead id 0 demo_wire (demo 1) = (Inr (acks, ms, []), b)" and ms: "ms \<noteq> []"
  shows "(0, 0) \<in> completed b"
proof -
  note dec = demo_decode
  obtain ack where "encode_frame null_aead (acodec (demo 1)) ((message_frame 448 0 0 demo_data 0)\<lparr>fkind := ACK, fpayload := []\<rparr>) = Inr ack"
    using ack_encodes [OF dec] by blast
  then have "receive_data 0 ack (message_frame 448 0 0 demo_data 0) (demo 1) = (Inr (acks, ms, []), b)"
    using r dec by (simp add: receive_def ensure_open_def raise_if_def message_frame_def part_frame_def)
       (simp add: demo_def)
  from receive_data_delivers [OF this] show ?thesis
    using ms by (auto simp: delivers_def remembers_def remember_def message_frame_def part_frame_def demo_def Let_def)
qed

section \<open>Where the code is weaker than it should be\<close>

text \<open>C9. When a datagram from an unpinned address follows one that completes a message in the same
  call of \<open>poll\<close>, the call raises: the message was acknowledged and is remembered as
  complete, but the caller never gets it, and its frames will only be acknowledged again.\<close>

theorem poll_discards:
  assumes "reachable ci nfc a" "0 \<le> timeout" "timeout \<le> 5" "aaddr p = peer" "aaddr q \<noteq> peer"
    and "receive ci nfc (arecv p) (awire p) a = (Inr ([ack], [(s, d)], []), b)" "k \<in> completed b"
  shows "\<exists>out c. poll ci nfc peer timeout [p, q] now a = (Inl (PermissionError ''datagram from unpinned peer''), out, c) \<and>
    ack \<in> set out \<and> k \<in> completed c"
proof -
  have "sender_ok b"
    using receive_keeps [of a ci nfc "arecv p" "awire p"] reachable_ok [OF assms(1)] assms(6) by simp
  moreover have op: "\<not> closed a"
    using assms(6) by (auto simp: receive_def ensure_open_def raise_if_def)
  moreover have "closed b = closed a"
    using receive_next [of ci nfc "arecv p" "awire p" a] assms(6) by simp
  ultimately obtain fs c where o: "outbound ci (aout p) b = (Inr fs, c)"
    using outbound_ok [of b ci "aout p"] by metis
  have "k \<in> completed c"
    using outbound_recv [of b ci "aout p"] o assms(7) by (simp add: same_receiver_def)
  moreover have "poll_loop ci nfc peer 64 [p, q] ([], []) [] a =
      (Inl (PermissionError ''datagram from unpinned peer''), [ack] @ fs, c)"
    using assms(4-6) o by (simp add: numeral_eq_Suc)
  ultimately show ?thesis
    using op assms(2,3) by (simp add: poll_def ensure_open_def raise_if_def)
qed

theorem poll_discards_witness:
  "\<exists>ack out c. poll null_aead id (0 :: nat) 1
     [\<lparr>awire = demo_wire, aaddr = 0, arecv = 0, aout = 0\<rparr>, \<lparr>awire = [], aaddr = 1, arecv = 0, aout = 0\<rparr>] 0 (demo 1) =
     (Inl (PermissionError ''datagram from unpinned peer''), out, c) \<and> ack \<in> set out \<and> (0, 0) \<in> completed c"
proof -
  obtain ack b where r: "receive null_aead id 0 demo_wire (demo 1) = (Inr ([ack], [(0, demo_data)], []), b)"
    by (rule demo_receive)
  have "(0, 0) \<in> completed b"
    using demo_receive_completes [OF r] by simp
  then show ?thesis
    using demo_reachable [of 1 null_aead id] poll_discards [of null_aead id "demo 1" 1 "\<lparr>awire = demo_wire, aaddr = 0 :: nat, arecv = 0, aout = 0\<rparr>" 0
        "\<lparr>awire = [], aaddr = 1, arecv = 0, aout = 0\<rparr>" ack 0 demo_data b "(0, 0)" 0] r
    by auto
qed

section \<open>Extensions\<close>

lemma portable_list:
  "portable_value k (JList xs) = Inr () \<longleftrightarrow> k \<le> 8 \<and> length xs \<le> 64 \<and> (\<forall>x \<in> set xs. portable_value (k + 1) x = Inr ())"
  by (subst portable_value.simps) auto

lemma portable_obj:
  "portable_value k (JObj d) = Inr () \<longleftrightarrow>
     k \<le> 8 \<and> length d \<le> 64 \<and> (\<forall>(key, v) \<in> set d. k < 8 \<and> portable_str key = Inr () \<and> portable_value (k + 1) v = Inr ())"
  by (subst portable_value.simps) (auto simp: case_prod_beta split: if_splits)

lemma portable_atoms:
  "portable_value k (JInt i) = Inr () \<longleftrightarrow> k \<le> 8 \<and> - max_portable \<le> i \<and> i \<le> max_portable"
  "portable_value k (JStr s) = Inr () \<longleftrightarrow> k \<le> 8 \<and> portable_str s = Inr ()"
  "portable_value k JNull = Inr () \<longleftrightarrow> k \<le> 8"
  "portable_value k (JBool b) = Inr () \<longleftrightarrow> k \<le> 8"
  "portable_value k (JFloat r) \<noteq> Inr ()"
  by (simp_all add: portable_value.simps [of k "JInt i"] portable_value.simps [of k "JStr s"]
      portable_value.simps [of k JNull] portable_value.simps [of k "JBool b"] portable_value.simps [of k "JFloat r"] not_less)

lemmas portable_iff = portable_list portable_obj portable_atoms

lemma portable_str_scalars: "portable_str s = Inr u \<Longrightarrow> scalars s"
  by (auto simp: portable_str_def utf8_encode_def split: if_splits)

lemma portable_jv_ok: "json_doc v \<Longrightarrow> portable_value k v = Inr () \<Longrightarrow> jv_ok v"
proof (induction v arbitrary: k)
  case (JInt i)
  then show ?case by (simp add: portable_iff portable_int_short)
next
  case (JStr s)
  then show ?case by (auto simp: portable_iff dest: portable_str_scalars)
next
  case (JList xs)
  then show ?case by (auto simp: portable_iff list_all_iff)
next
  case (JObj d)
  then show ?case by (fastforce simp: portable_iff list_all_iff dest: portable_str_scalars)
qed simp_all

lemma portable_cdepth: "portable_value k v = Inr () \<Longrightarrow> k + cdepth v \<le> 9"
proof (induction v arbitrary: k)
  case (JList xs)
  have "cdepth x \<le> 8 - k" if "x \<in> set xs" for x
  proof -
    have "k + 1 + cdepth x \<le> 9"
      using JList.IH [OF that, of "k + 1"] JList.prems that by (auto simp: portable_iff)
    then show ?thesis by linarith
  qed
  moreover have "k \<le> 8" using JList.prems by (simp add: portable_iff)
  ultimately show ?case using fold_max_le [of "map cdepth xs" 0 "8 - k"] by auto
next
  case (JObj d)
  have "cdepth v \<le> 8 - k" if "(key, v) \<in> set d" for key v
  proof -
    have "k + 1 + cdepth v \<le> 9"
      using JObj.IH [OF that, of v "k + 1"] JObj.prems that by (auto simp: portable_iff)
    then show ?thesis by linarith
  qed
  moreover have "k \<le> 8" using JObj.prems by (simp add: portable_iff)
  ultimately show ?case using fold_max_le [of "map (\<lambda>(k, v). cdepth v) d" 0 "8 - k"] by auto
qed (simp_all add: portable_iff)

lemma catch_unicode_ok: "catch_unicode (Inr x) msg = Inr x"
  by simp

lemma portable_json_text:
  assumes "json_doc v" "portable_value 0 v = Inr ()" "length (json_text v) \<le> 65536"
  shows "portable_json nfc 65536 (BytesIn (map bt (json_text v))) =
    catch_unicode (ebind (bounded nfc 65536 0 (jnorm v)) (\<lambda>_. Inr (jnorm v))) ''invalid bounded JSON''"
proof -
  have ok: "jv_ok v" using assms(1,2) by (rule portable_jv_ok)
  have dec: "utf8_decode (map bt (json_text v)) = Inr (json_text v)"
    using utf8_encode_ascii [OF ascii_json_text [OF ok]] by (rule utf8_decode_encode)
  have "0 + int (cdepth v) \<le> 17" using portable_cdepth [OF assms(2)] by simp
  from depth_scan_text [OF ok this, of "[]"] have sc: "depth_scan 0 False False (json_text v)" by simp
  have ld: "json_loads (strict_hooks (\<lambda>_. None) False False) (json_text v) = Inr (jnorm v)"
    using plain_strict_hooks ok by (rule json_loads_text)
  show ?thesis
    using assms(3) by (simp add: portable_json_def strict_json_def dec sc ld catch_unicode_ok)
qed



end
