(* ===== verification/S6_Python.thy ===== *)
theory S6_Python
  imports S6_Storage
begin

text \<open>
  The parts of Python and of its standard library that the validators of several components
  share: access to the fields of a decoded document, \<^verbatim>\<open>str\<close> methods on ASCII text,
  \<^verbatim>\<open>int(text)\<close>, the regular expressions of identifiers, \<^verbatim>\<open>json.loads\<close> with its default
  hooks and \<^verbatim>\<open>base64\<close>.
\<close>

section \<open>Documents\<close>

text \<open>
  \<open>fld d k\<close> is \<^verbatim>\<open>d[k]\<close> once the key is known to be there, and \<open>getd d k x\<close> is
  \<^verbatim>\<open>d.get(k, x)\<close>. \<open>item\<close> is \<^verbatim>\<open>d[k]\<close> where it can raise.
\<close>

type_synonym pydict = "(ustr \<times> pyval) list"

definition getd :: "pydict \<Rightarrow> string \<Rightarrow> pyval \<Rightarrow> pyval" where
  "getd d k x = (case map_of d (asc k) of None \<Rightarrow> x | Some v \<Rightarrow> v)"

definition fld :: "pydict \<Rightarrow> string \<Rightarrow> pyval" where
  "fld d k = getd d k JNull"

definition item :: "pydict \<Rightarrow> ustr \<Rightarrow> pyval res" where
  "item d k = (case map_of d k of None \<Rightarrow> Inl (KeyError ''missing key'') | Some v \<Rightarrow> Inr v)"

definition keys :: "pydict \<Rightarrow> ustr list" where
  "keys d = map fst d"

definition names :: "string list \<Rightarrow> ustr set" where
  "names ks = set (map asc ks)"

text \<open>\<^verbatim>\<open>set(d) == {...}\<close> and \<^verbatim>\<open>set(d) - {...}\<close> being empty.\<close>

definition keys_are :: "string list \<Rightarrow> pydict \<Rightarrow> bool" where
  "keys_are ks d \<longleftrightarrow> set (keys d) = names ks"

definition keys_in :: "string list \<Rightarrow> pydict \<Rightarrow> bool" where
  "keys_in ks d \<longleftrightarrow> set (keys d) \<subseteq> names ks"

definition jobj :: "(string \<times> pyval) list \<Rightarrow> pyval" where
  "jobj d = JObj (map (\<lambda>(k, v). (asc k, v)) d)"

abbreviation jstr :: "string \<Rightarrow> pyval" where
  "jstr s \<equiv> JStr (asc s)"

definition is_obj :: "pyval \<Rightarrow> bool" where
  "is_obj v = (case v of JObj _ \<Rightarrow> True | _ \<Rightarrow> False)"

definition is_list :: "pyval \<Rightarrow> bool" where
  "is_list v = (case v of JList _ \<Rightarrow> True | _ \<Rightarrow> False)"

definition is_bool :: "pyval \<Rightarrow> bool" where
  "is_bool v = (case v of JBool _ \<Rightarrow> True | _ \<Rightarrow> False)"

text \<open>Total selectors, used only where the constructor has been tested.\<close>

definition the_int :: "pyval \<Rightarrow> int" where
  "the_int v = (case v of JInt i \<Rightarrow> i | _ \<Rightarrow> 0)"

definition the_str :: "pyval \<Rightarrow> ustr" where
  "the_str v = (case v of JStr s \<Rightarrow> s | _ \<Rightarrow> [])"

definition the_list :: "pyval \<Rightarrow> pyval list" where
  "the_list v = (case v of JList xs \<Rightarrow> xs | _ \<Rightarrow> [])"

definition the_obj :: "pyval \<Rightarrow> pydict" where
  "the_obj v = (case v of JObj d \<Rightarrow> d | _ \<Rightarrow> [])"

definition the_bool :: "pyval \<Rightarrow> bool" where
  "the_bool v = (case v of JBool b \<Rightarrow> b | _ \<Rightarrow> False)"

text \<open>\<^verbatim>\<open>type(v) is int and low <= v <= high\<close>, and a string with a bounded length.\<close>

definition int_in :: "int \<Rightarrow> int \<Rightarrow> pyval \<Rightarrow> bool" where
  "int_in low high v \<longleftrightarrow> (case v of JInt i \<Rightarrow> low \<le> i \<and> i \<le> high | _ \<Rightarrow> False)"

definition str_len :: "nat \<Rightarrow> nat \<Rightarrow> pyval \<Rightarrow> bool" where
  "str_len low high v \<longleftrightarrow> (case v of JStr s \<Rightarrow> low \<le> length s \<and> length s \<le> high | _ \<Rightarrow> False)"

lemma is_kind [simp]:
  "is_obj (JObj d)" "is_list (JList xs)" "is_bool (JBool b)" "is_str (JStr s)" "is_int (JInt i)"
  by (simp_all add: is_obj_def is_list_def is_bool_def is_str_def is_int_def)

lemma the_kind [simp]:
  "the_int (JInt i) = i" "the_str (JStr s) = s" "the_list (JList xs) = xs" "the_obj (JObj d) = d"
  "the_bool (JBool b) = b"
  by (simp_all add: the_int_def the_str_def the_list_def the_obj_def the_bool_def)

lemma is_kindE:
  "is_obj v \<Longrightarrow> v = JObj (the_obj v)" "is_list v \<Longrightarrow> v = JList (the_list v)"
  "is_str v \<Longrightarrow> v = JStr (the_str v)" "is_int v \<Longrightarrow> v = JInt (the_int v)"
  "is_bool v \<Longrightarrow> v = JBool (the_bool v)"
  by (cases v; simp add: is_obj_def is_list_def is_str_def is_int_def is_bool_def)+

lemma int_in_iff: "int_in low high v \<longleftrightarrow> (\<exists>i. v = JInt i \<and> low \<le> i \<and> i \<le> high)"
  by (cases v) (simp_all add: int_in_def)

lemma int_in_simps [simp]: "int_in low high (JInt i) \<longleftrightarrow> low \<le> i \<and> i \<le> high"
  by (simp add: int_in_def)

lemma str_len_simps [simp]: "str_len low high (JStr s) \<longleftrightarrow> low \<le> length s \<and> length s \<le> high"
  by (simp add: str_len_def)

lemma str_len_iff: "str_len low high v \<longleftrightarrow> (\<exists>s. v = JStr s \<and> low \<le> length s \<and> length s \<le> high)"
  by (cases v) (simp_all add: str_len_def)

lemma map_of_literal: "map_of (map (\<lambda>(k, v). (asc k, v)) kvs) (asc k) = map_of kvs k"
  by (induction kvs) auto

lemma fld_jobj: "fld (the_obj (jobj kvs)) k = (case map_of kvs k of None \<Rightarrow> JNull | Some v \<Rightarrow> v)"
  by (simp add: fld_def getd_def jobj_def map_of_literal)

lemma is_obj_jobj [simp]: "is_obj (jobj kvs)"
  by (simp add: jobj_def)

lemma keys_jobj: "set (keys (the_obj (jobj kvs))) = asc ` fst ` set kvs"
  by (force simp: keys_def jobj_def)

lemma keys_are_item: "keys_are ks d \<Longrightarrow> k \<in> set ks \<Longrightarrow> map_of d (asc k) = Some (fld d k)"
proof -
  assume "keys_are ks d" "k \<in> set ks"
  then have "asc k \<in> fst ` set d" by (auto simp: keys_are_def keys_def names_def)
  then obtain v where "map_of d (asc k) = Some v" by (cases "map_of d (asc k)") (auto simp: map_of_eq_None_iff)
  then show ?thesis by (simp add: fld_def getd_def)
qed

definition without :: "string \<Rightarrow> pydict \<Rightarrow> pydict" where
  "without name d = filter (\<lambda>(k, _). k \<noteq> asc name) d"

text \<open>A loop or comprehension that collects results and stops at the first exception.\<close>

fun emap :: "('a \<Rightarrow> 'e + 'b) \<Rightarrow> 'a list \<Rightarrow> 'e + 'b list" where
  "emap f [] = Inr []"
| "emap f (x # xs) = ebind (f x) (\<lambda>y. ebind (emap f xs) (\<lambda>ys. Inr (y # ys)))"

lemma emap_Inr: "emap f xs = Inr ys \<longleftrightarrow> list_all2 (\<lambda>x y. f x = Inr y) xs ys"
  by (induction xs arbitrary: ys) (auto simp: list_all2_Cons1)

lemma emap_map: "\<forall>x \<in> set xs. f x = Inr (g x) \<Longrightarrow> emap f xs = Inr (map g xs)"
  by (induction xs) auto

lemma emap_cong [fundef_cong]:
  "xs = ys \<Longrightarrow> (\<And>x. x \<in> set ys \<Longrightarrow> f x = g x) \<Longrightarrow> emap f xs = emap g ys"
  by (induction ys arbitrary: xs) auto

section \<open>Characters and text\<close>

definition is_lower :: "nat \<Rightarrow> bool" where
  "is_lower c \<longleftrightarrow> 97 \<le> c \<and> c \<le> 122"

definition is_upper :: "nat \<Rightarrow> bool" where
  "is_upper c \<longleftrightarrow> 65 \<le> c \<and> c \<le> 90"

definition is_word :: "nat \<Rightarrow> bool" where
  "is_word c \<longleftrightarrow> is_lower c \<or> is_upper c \<or> is_digit c"

definition text_of :: "(nat \<Rightarrow> bool) \<Rightarrow> nat \<Rightarrow> nat \<Rightarrow> ustr \<Rightarrow> bool" where
  "text_of cls low high s \<longleftrightarrow> list_all cls s \<and> low \<le> length s \<and> length s \<le> high"

definition is_hexd :: "nat \<Rightarrow> bool" where
  "is_hexd c \<longleftrightarrow> is_digit c \<or> (97 \<le> c \<and> c \<le> 102)"

definition one_of :: "string \<Rightarrow> nat \<Rightarrow> bool" where
  "one_of s c \<longleftrightarrow> c \<in> set (asc s)"

text \<open>
  \<^verbatim>\<open>re.fullmatch\<close> of one character class followed by a counted repetition of another:
  \<^verbatim>\<open>[first][rest]{low,high}\<close>, and of a fixed count of one class.
\<close>

definition matches :: "(nat \<Rightarrow> bool) \<Rightarrow> (nat \<Rightarrow> bool) \<Rightarrow> nat \<Rightarrow> nat \<Rightarrow> ustr \<Rightarrow> bool" where
  "matches first rest low high s =
     (case s of [] \<Rightarrow> False | c # r \<Rightarrow> first c \<and> list_all rest r \<and> low \<le> length r \<and> length r \<le> high)"

definition hex_text :: "nat \<Rightarrow> ustr \<Rightarrow> bool" where
  "hex_text n s \<longleftrightarrow> length s = n \<and> list_all is_hexd s"

text \<open>ASCII whitespace as \<^verbatim>\<open>str.strip\<close> and \<^verbatim>\<open>str.split\<close> see it, and line boundaries.\<close>

definition is_space :: "nat \<Rightarrow> bool" where
  "is_space c \<longleftrightarrow> (9 \<le> c \<and> c \<le> 13) \<or> (28 \<le> c \<and> c \<le> 32)"

definition is_eol :: "nat \<Rightarrow> bool" where
  "is_eol c \<longleftrightarrow> (10 \<le> c \<and> c \<le> 13) \<or> (28 \<le> c \<and> c \<le> 30)"

definition strip :: "ustr \<Rightarrow> ustr" where
  "strip s = rev (dropWhile is_space (rev (dropWhile is_space s)))"

fun words_from :: "ustr \<Rightarrow> ustr \<Rightarrow> ustr list" where
  "words_from w [] = (if w = [] then [] else [w])"
| "words_from w (c # s) =
     (if is_space c then (if w = [] then words_from [] s else w # words_from [] s)
      else words_from (w @ [c]) s)"

definition split_ws :: "ustr \<Rightarrow> ustr list" where
  "split_ws s = words_from [] s"

text \<open>\<^verbatim>\<open>splitlines\<close>: a carriage return and the line feed after it are one boundary.\<close>

fun lines_from :: "ustr \<Rightarrow> ustr \<Rightarrow> ustr list" where
  "lines_from w [] = (if w = [] then [] else [w])"
| "lines_from w [c] = (if is_eol c then [w] else [w @ [c]])"
| "lines_from w (c # c' # s) =
     (if c = 13 \<and> c' = 10 then w # lines_from [] s
      else if is_eol c then w # lines_from [] (c' # s)
      else lines_from (w @ [c]) (c' # s))"

definition splitlines :: "ustr \<Rightarrow> ustr list" where
  "splitlines s = lines_from [] s"

text \<open>\<^verbatim>\<open>s.split(sep, n)\<close> for a one-character separator; \<open>split_on\<close> has no count.\<close>

fun split_upto :: "nat \<Rightarrow> nat \<Rightarrow> ustr \<Rightarrow> ustr list" where
  "split_upto sep 0 s = [s]"
| "split_upto sep (Suc n) s =
     (if sep \<in> set s then takeWhile (\<lambda>c. c \<noteq> sep) s # split_upto sep n (tl (dropWhile (\<lambda>c. c \<noteq> sep) s))
      else [s])"

definition split_on :: "nat \<Rightarrow> ustr \<Rightarrow> ustr list" where
  "split_on sep s = split_upto sep (length s) s"

definition lstrip_char :: "nat \<Rightarrow> ustr \<Rightarrow> ustr" where
  "lstrip_char c s = dropWhile (\<lambda>x. x = c) s"

definition startswith :: "string \<Rightarrow> ustr \<Rightarrow> bool" where
  "startswith p s \<longleftrightarrow> take (length p) s = asc p"

text \<open>\<^verbatim>\<open>b.decode('ascii')\<close> and \<^verbatim>\<open>int(text)\<close> on ASCII text: surrounding whitespace, a sign,
  digits with single underscores between them, at most 4300 digits.\<close>

definition ascii_decode :: "bytes \<Rightarrow> ustr res" where
  "ascii_decode bs =
     (if list_all (\<lambda>b. unat b < 128) bs then Inr (map unat bs) else Inl (UnicodeError ''ordinal not in range''))"

fun digits_ok :: "bool \<Rightarrow> ustr \<Rightarrow> bool" where
  "digits_ok after [] = after"
| "digits_ok after (c # s) =
     (if is_digit c then digits_ok True s else c = 95 \<and> after \<and> digits_ok False s)"

definition py_int :: "ustr \<Rightarrow> int res" where
  "py_int s =
     (let t = strip s;
          neg = (t \<noteq> [] \<and> hd t = 45);
          body = (if t \<noteq> [] \<and> (hd t = 45 \<or> hd t = 43) then tl t else t);
          ds = filter is_digit body
      in if \<not> digits_ok False body \<or> 4300 < length ds then Inl (ValueError ''invalid literal for int()'')
         else Inr (if neg then - int (read_nat ds) else int (read_nat ds)))"

section \<open>Documents written and read back\<close>

text \<open>\<^verbatim>\<open>json.loads(text)\<close> with its default hooks; \<open>flt\<close> is \<open>None\<close> on an overflow to infinity.\<close>

definition std_hooks :: "(ustr \<Rightarrow> ustr option) \<Rightarrow> hooks" where
  "std_hooks flt =
     \<lparr>h_int = JInt,
      h_float = (\<lambda>raw. Inr (JFloat (case flt raw of Some r \<Rightarrow> r
                   | None \<Rightarrow> if raw \<noteq> [] \<and> hd raw = 45 then asc ''-inf'' else asc ''inf''))),
      h_const = (\<lambda>raw. Inr (JFloat (if raw = asc ''NaN'' then asc ''nan''
                   else if raw = asc ''-Infinity'' then asc ''-inf'' else asc ''inf''))),
      h_pairs = (\<lambda>items. Inr (JObj (fold (\<lambda>(k, v). dset k v) items [])))\<rparr>"

definition json_copy :: "(ustr \<Rightarrow> ustr option) \<Rightarrow> pyval \<Rightarrow> pyval res" where
  "json_copy flt v = ebind (json_dumps v) (json_loads (std_hooks flt))"

lemma fold_dset_distinct:
  "distinct (map fst items) \<Longrightarrow> set (map fst acc) \<inter> set (map fst items) = {} \<Longrightarrow>
     fold (\<lambda>(k, v). dset k v) items acc = acc @ items"
proof (induction items arbitrary: acc)
  case (Cons p items)
  obtain k v where p: "p = (k, v)" by (cases p)
  have "k \<notin> fst ` set acc" using Cons.prems p by auto
  then have "map_of acc k = None" by (simp add: map_of_eq_None_iff)
  then have "dset k v acc = acc @ [(k, v)]" by (rule dset_new)
  with Cons.IH [of "acc @ [(k, v)]"] Cons.prems p show ?case by auto
qed simp

lemma plain_std_hooks: "plain_hooks (std_hooks flt)"
  by (simp add: plain_hooks_def std_hooks_def fold_dset_distinct [of _ "[]", simplified])

lemma jv_ok_finite: "jv_ok v \<Longrightarrow> \<not> has_nonfinite v"
proof (induction v)
  case (JObj d)
  then show ?case by (fastforce simp: list_all_iff list_ex_iff)
qed (auto simp: list_all_iff list_ex_iff)

lemma json_dumps_ok: "jv_ok v \<Longrightarrow> json_dumps v = Inr (json_text v)"
  by (simp add: json_dumps_def jv_ok_finite)

lemma json_copy_ok: "jv_ok v \<Longrightarrow> json_copy flt v = Inr (jnorm v)"
  by (simp add: json_copy_def json_dumps_ok json_loads_text plain_std_hooks)

lemma json_bytes_ok: "jv_ok v \<Longrightarrow> json_bytes v = Inr (map bt (json_text v))"
  by (simp add: json_bytes_def json_dumps_ok)

lemma map_bt_inject: "ascii s \<Longrightarrow> ascii t \<Longrightarrow> map bt s = map bt t \<longleftrightarrow> s = t"
  by (metis utf8_encode_ascii utf8_encode_inject)

lemma json_bytes_inject:
  "jv_ok v \<Longrightarrow> jv_ok w \<Longrightarrow> json_bytes v = json_bytes w \<longleftrightarrow> jnorm v = jnorm w"
proof -
  assume v: "jv_ok v" and w: "jv_ok w"
  have "json_text v = json_text w \<longleftrightarrow> jnorm v = jnorm w"
    using json_text_inject [OF v w] by (metis json_text_jnorm)
  then show ?thesis
    by (simp add: json_bytes_ok v w map_bt_inject [OF ascii_json_text [OF v] ascii_json_text [OF w]]
        del: map_eq_conv)
qed

lemma map_of_sort_key: "distinct (map fst d) \<Longrightarrow> map_of (sort_key fst d) = map_of d"
proof -
  assume d: "distinct (map fst d)"
  then have "distinct (map fst (sort_key fst d))"
    by (metis distinct_map distinct_sort inj_on_cong set_sort)
  with d show ?thesis by (simp add: map_of_inject_set)
qed

lemma map_of_jnorm:
  "distinct (map fst d) \<Longrightarrow> map_of (the_obj (jnorm (JObj d))) k = map_option jnorm (map_of d k)"
  by (simp add: map_of_sort_key comp_def case_prod_beta map_of_map [of jnorm d, simplified case_prod_beta])

lemma distinct_literal: "distinct (map fst (map (\<lambda>(k, v). (asc k, v)) kvs)) = distinct (map fst kvs)"
  by (induction kvs) (auto simp: image_iff)

lemma fld_jnorm_jobj:
  "distinct (map fst kvs) \<Longrightarrow>
     fld (the_obj (jnorm (jobj kvs))) k = (case map_of kvs k of None \<Rightarrow> JNull | Some v \<Rightarrow> jnorm v)"
  unfolding fld_def getd_def jobj_def
  by (subst map_of_jnorm) (simp_all only: distinct_literal map_of_literal, simp split: option.split)

lemma fld_jnorm:
  "distinct (map fst d) \<Longrightarrow> fld (the_obj (jnorm (JObj d))) k = jnorm (fld d k)"
  by (simp add: fld_def getd_def map_of_jnorm split: option.split del: jnorm.simps(2))

lemma jnorm_idem: "jv_ok v \<Longrightarrow> jnorm (jnorm v) = jnorm v"
  by (rule json_text_inject) simp_all

lemma jv_ok_fld: "jv_ok (JObj d) \<Longrightarrow> jv_ok (fld d k)"
  by (auto simp: fld_def getd_def list_all_iff dest: map_of_SomeD split: option.split)

lemma keys_jnorm: "set (keys (the_obj (jnorm (JObj d)))) = set (keys d)"
  by (simp add: keys_def image_image case_prod_beta)

lemma keys_jnorm_jobj: "set (keys (the_obj (jnorm (jobj kvs)))) = asc ` fst ` set kvs"
  by (metis jobj_def keys_jnorm keys_jobj the_kind(4))

lemma is_obj_jnorm [simp]: "is_obj (jnorm v) = is_obj v"
  by (cases v) (simp_all add: is_obj_def)

section \<open>Base64\<close>

definition b64_char :: "nat \<Rightarrow> nat" where
  "b64_char n =
     (if n < 26 then 65 + n else if n < 52 then 97 + (n - 26) else if n < 62 then 48 + (n - 52)
      else if n = 62 then 43 else 47)"

definition b64_value :: "nat \<Rightarrow> nat option" where
  "b64_value c =
     (if is_upper c then Some (c - 65) else if is_lower c then Some (c - 97 + 26)
      else if is_digit c then Some (c - 48 + 52) else if c = 43 then Some 62
      else if c = 47 then Some 63 else None)"

fun b64encode :: "bytes \<Rightarrow> ustr" where
  "b64encode [] = []"
| "b64encode [a] = [b64_char (unat a div 4), b64_char (unat a mod 4 * 16), 61, 61]"
| "b64encode [a, b] =
     [b64_char (unat a div 4), b64_char (unat a mod 4 * 16 + unat b div 16), b64_char (unat b mod 16 * 4), 61]"
| "b64encode (a # b # c # r) =
     b64_char (unat a div 4) # b64_char (unat a mod 4 * 16 + unat b div 16) #
     b64_char (unat b mod 16 * 4 + unat c div 64) # b64_char (unat c mod 64) # b64encode r"

text \<open>
  \<^verbatim>\<open>base64.b64decode(s, validate=True)\<close>: groups of four characters of the alphabet, the last
  one possibly padded; anything else is \<^verbatim>\<open>binascii.Error\<close>, a \<^verbatim>\<open>ValueError\<close>. The bits left
  over in a padded group are ignored.
\<close>

fun b64_groups :: "ustr \<Rightarrow> bytes option" where
  "b64_groups [] = Some []"
| "b64_groups (p # q # x # y # r) =
     (case (b64_value p, b64_value q) of
        (Some i, Some j) \<Rightarrow>
          (if x = 61 \<and> y = 61 \<and> r = [] then Some [bt (i * 4 + j div 16)]
           else
             (case b64_value x of
                None \<Rightarrow> None
              | Some k \<Rightarrow>
                  if y = 61 \<and> r = [] then Some [bt (i * 4 + j div 16), bt (j mod 16 * 16 + k div 4)]
                  else
                    (case (b64_value y, b64_groups r) of
                       (Some l, Some rest) \<Rightarrow>
                         Some (bt (i * 4 + j div 16) # bt (j mod 16 * 16 + k div 4) # bt (k mod 4 * 64 + l) # rest)
                     | _ \<Rightarrow> None)))
      | _ \<Rightarrow> None)"
| "b64_groups _ = None"

definition b64decode :: "ustr \<Rightarrow> bytes res" where
  "b64decode s = (case b64_groups s of None \<Rightarrow> Inl (ValueError ''Invalid base64-encoded string'') | Some b \<Rightarrow> Inr b)"

lemma b64_value_char [simp]: "n < 64 \<Longrightarrow> b64_value (b64_char n) = Some n"
  by (auto simp: b64_value_def b64_char_def is_upper_def is_lower_def is_digit_def)

lemma b64_char_pad [simp]: "b64_char n \<noteq> 61"
  by (auto simp: b64_char_def)

lemma b64_bits:
  fixes a b c :: byte
  shows "unat a div 4 < 64" "unat a mod 4 * 16 < 64" "unat a mod 4 * 16 + unat b div 16 < 64"
    "unat b mod 16 * 4 + unat c div 64 < 64" "unat b mod 16 * 4 < 64" "unat c mod 64 < 64"
    "unat a div 4 * 4 + (unat a mod 4 * 16) div 16 = unat a"
    "unat a div 4 * 4 + (unat a mod 4 * 16 + unat b div 16) div 16 = unat a"
    "(unat a mod 4 * 16 + unat b div 16) mod 16 * 16 + (unat b mod 16 * 4) div 4 = unat b"
    "(unat a mod 4 * 16 + unat b div 16) mod 16 * 16 + (unat b mod 16 * 4 + unat c div 64) div 4 = unat b"
    "(unat b mod 16 * 4 + unat c div 64) mod 4 * 64 + unat c mod 64 = unat c"
proof -
  have a: "unat a div 4 < 64" "unat b div 16 < 16" "unat c div 64 < 4"
    using unat_byte_less [of a] unat_byte_less [of b] unat_byte_less [of c]
    by (simp_all add: less_mult_imp_div_less)
  then show "unat a div 4 < 64" "unat a mod 4 * 16 < 64" "unat b mod 16 * 4 < 64" "unat c mod 64 < 64"
    by simp_all
  have "unat a mod 4 < 4" "unat b mod 16 < 16" by simp_all
  then show "unat a mod 4 * 16 + unat b div 16 < 64" "unat b mod 16 * 4 + unat c div 64 < 64"
    using a by linarith+
  have d: "(unat a mod 4 * 16 + unat b div 16) div 16 = unat a mod 4"
    "(unat a mod 4 * 16 + unat b div 16) mod 16 = unat b div 16"
    "(unat b mod 16 * 4 + unat c div 64) div 4 = unat b mod 16"
    "(unat b mod 16 * 4 + unat c div 64) mod 4 = unat c div 64"
    using a by simp_all
  show "unat a div 4 * 4 + (unat a mod 4 * 16) div 16 = unat a"
    "unat a div 4 * 4 + (unat a mod 4 * 16 + unat b div 16) div 16 = unat a"
    "(unat a mod 4 * 16 + unat b div 16) mod 16 * 16 + (unat b mod 16 * 4) div 4 = unat b"
    "(unat a mod 4 * 16 + unat b div 16) mod 16 * 16 + (unat b mod 16 * 4 + unat c div 64) div 4 = unat b"
    "(unat b mod 16 * 4 + unat c div 64) mod 4 * 64 + unat c mod 64 = unat c"
    using a by (simp_all add: d mod_less)
qed

lemma bt_unat [simp]: "bt (unat a) = (a :: byte)"
  by simp

lemma b64_groups_encode: "b64_groups (b64encode bs) = Some bs"
proof (induction bs rule: b64encode.induct)
  case (4 a b c r)
  show ?case
    by (simp only: b64encode.simps b64_groups.simps b64_value_char b64_bits option.case prod.case
        b64_char_pad simp_thms if_False 4 bt_unat)
next
  case (2 a)
  show ?case
    by (simp only: b64encode.simps b64_groups.simps b64_value_char b64_bits option.case prod.case
        simp_thms if_True bt_unat)
next
  case (3 a b)
  show ?case
    by (simp only: b64encode.simps b64_groups.simps b64_value_char b64_bits option.case prod.case
        b64_char_pad simp_thms if_True if_False bt_unat)
qed simp

lemma b64_roundtrip [simp]: "b64decode (b64encode bs) = Inr bs"
  by (simp add: b64decode_def b64_groups_encode)

lemma length_b64encode: "length (b64encode bs) = 4 * ((length bs + 2) div 3)"
proof (induction bs rule: b64encode.induct)
  case (4 a b c r)
  have "(length r + 5) div 3 = (length r + 2) div 3 + 1"
    using div_add_self2 [of 3 "length r + 2"] by simp
  with 4 show ?case by (simp add: add.commute)
qed simp_all

end
