(* ===== verification/S6_Crypto.thy ===== *)
theory S6_Crypto
  imports S6_Python S6_Digest
begin

text \<open>
  The Ed25519 signatures of the third-party \<^verbatim>\<open>cryptography\<close> package, as a parameter of the
  components that use them, and \<^verbatim>\<open>bytes.fromhex\<close>. A private key is represented by its 32 raw
  bytes.
\<close>

section \<open>Signatures\<close>

record signer =
  sig_public :: "bytes \<Rightarrow> bytes"
  sig_sign :: "bytes \<Rightarrow> bytes \<Rightarrow> bytes"
  sig_verify :: "bytes \<Rightarrow> bytes \<Rightarrow> bytes \<Rightarrow> bool"

text \<open>
  What the package documents: a public key has 32 bytes, a signature 64, and a signature made
  with a private key verifies under its public key for the same message.
\<close>

definition signer_ok :: "signer \<Rightarrow> bool" where
  "signer_ok s \<longleftrightarrow>
     (\<forall>sk. length (sig_public s sk) = 32) \<and> (\<forall>sk m. length (sig_sign s sk m) = 64) \<and>
     (\<forall>sk m. sig_verify s (sig_public s sk) (sig_sign s sk m) m)"

text \<open>A concrete signer that keeps these promises, for the witnesses: every
  signature is the same string of zeros.\<close>

definition toy_signer :: signer where
  "toy_signer =
     \<lparr>sig_public = (\<lambda>sk. take 32 (sk @ replicate 32 0)),
      sig_sign = (\<lambda>sk m. replicate 64 0),
      sig_verify = (\<lambda>pk s m. s = replicate 64 0)\<rparr>"

lemma toy_signer_ok: "signer_ok toy_signer"
  by (simp add: signer_ok_def toy_signer_def min_def)

section \<open>Hexadecimal text\<close>

definition hex_val :: "nat \<Rightarrow> nat" where
  "hex_val c = (if c \<le> 57 then c - 48 else c - 87)"

text \<open>\<^verbatim>\<open>bytes.fromhex\<close> on text the caller has matched against \<^verbatim>\<open>[0-9a-f]{n}\<close>.\<close>

fun from_hex :: "ustr \<Rightarrow> bytes" where
  "from_hex (a # b # r) = bt (hex_val a * 16 + hex_val b) # from_hex r"
| "from_hex _ = []"

lemma hex_val_hexd [simp]: "d < 16 \<Longrightarrow> hex_val (hexd d) = d"
  by (auto simp: hex_val_def hexd_def)

lemma is_hexd_hexd: "d < 16 \<Longrightarrow> is_hexd (hexd d)"
  by (auto simp: is_hexd_def hexd_def is_digit_def)

lemma byte_nibbles: "unat (b :: byte) div 16 < 16"
  using less_mult_imp_div_less [of "unat b" 16 16] unat_byte_less [of b] by simp

lemma from_to_hex [simp]: "from_hex (to_hex bs) = bs"
proof (induction bs)
  case (Cons b bs)
  have "unat b div 16 * 16 + unat b mod 16 = unat b" by simp
  then show ?case using Cons by (simp add: to_hex_def byte_nibbles del: of_nat_add of_nat_mult)
qed (simp add: to_hex_def)

lemma hex_text_to_hex: "length bs = n \<Longrightarrow> hex_text (2 * n) (to_hex bs)"
proof -
  assume "length bs = n"
  moreover have "list_all is_hexd (to_hex bs)"
    by (induction bs) (simp_all add: to_hex_def is_hexd_hexd byte_nibbles)
  ultimately show ?thesis by (simp add: hex_text_def)
qed

lemma length_from_hex: "length (from_hex s) = length s div 2"
  by (induction s rule: from_hex.induct) auto

lemma ascii_to_hex: "ascii (to_hex bs)"
proof -
  have "hexd d < 128" if "d < 16" for d using that by (auto simp: hexd_def)
  then show ?thesis by (induction bs) (simp_all add: to_hex_def byte_nibbles)
qed

end
