(* ===== verification/S6_Limits.thy ===== *)
theory S6_Limits
  imports S6_Crypto
begin

text \<open>
  \<^verbatim>\<open>Crosed/limits.py\<close>: the host budget read from the operating system, the operator's limits
  policy, the resolution of a profile's limits against both, and the resource plan of the
  Gate, Envelope, Guard and credited components. \<open>flt\<close> is \<^verbatim>\<open>float(text)\<close> as in
  \<^verbatim>\<open>S6_Storage\<close>; it matters only for documents that hold floats.
\<close>

section \<open>Integers and bounded files\<close>

definition MAX_INTEGER :: int where
  "MAX_INTEGER = 2 ^ 53 - 1"

definition canonical :: "pyval \<Rightarrow> bytes res" where
  "canonical v = json_bytes v"

definition integer_from :: "int \<Rightarrow> pyval \<Rightarrow> int res" where
  "integer_from minimum v =
     ebind (raise_if (\<not> int_in minimum MAX_INTEGER v) (ValueError ''InvalidLimitInteger'')) (\<lambda>_.
       Inr (the_int v))"

abbreviation integer :: "pyval \<Rightarrow> int res" where
  "integer \<equiv> integer_from 1"

text \<open>
  The result of opening a file: another \<open>OSError\<close>, \<open>None\<close> for \<^verbatim>\<open>FileNotFoundError\<close>, or its
  content.
\<close>

type_synonym opened_file = "bytes option res"

definition bounded_read :: "opened_file \<Rightarrow> ustr option res" where
  "bounded_read file =
     ebind file (\<lambda>content.
       (case content of
          None \<Rightarrow> Inr None
        | Some bs \<Rightarrow>
            let data = take 4097 bs in
            ebind (raise_if (4096 < length data) (ValueError ''HostBudgetInputTooLarge'')) (\<lambda>_.
            ebind (ascii_decode data) (\<lambda>t. Inr (Some (strip t))))))"

section \<open>The host budget\<close>

record host_budget =
  memory_bytes :: int
  fd_ceiling :: int
  cpu_units :: int
  platform :: ustr
  memory_sources :: "ustr list"
  fd_sources :: "ustr list"
  cpu_sources :: "ustr list"

definition check_sources :: "pyval list \<Rightarrow> unit res" where
  "check_sources values =
     raise_if (8 < length values \<or> list_ex (\<lambda>v. \<not> str_len 1 128 v) values)
       (ValueError ''InvalidHostBudgetSources'')"

text \<open>\<^verbatim>\<open>HostBudget(...)\<close> with its \<^verbatim>\<open>__post_init__\<close>.\<close>

definition host_init ::
  "pyval \<Rightarrow> pyval \<Rightarrow> pyval \<Rightarrow> pyval \<Rightarrow> pyval list \<Rightarrow> pyval list \<Rightarrow> pyval list \<Rightarrow> host_budget res" where
  "host_init memory fds cpus plat msources fsources csources =
     ebind (integer memory) (\<lambda>m.
     ebind (integer fds) (\<lambda>f.
     ebind (integer cpus) (\<lambda>c.
     ebind (raise_if (\<not> str_len 1 64 plat) (ValueError ''InvalidHostBudgetPlatform'')) (\<lambda>_.
     ebind (each check_sources [msources, fsources, csources]) (\<lambda>_.
       Inr \<lparr>memory_bytes = m, fd_ceiling = f, cpu_units = c, platform = the_str plat,
            memory_sources = map the_str msources, fd_sources = map the_str fsources,
            cpu_sources = map the_str csources\<rparr>)))))"

definition jstrs :: "ustr list \<Rightarrow> pyval" where
  "jstrs ss = JList (map JStr ss)"

definition host_to_dict :: "host_budget \<Rightarrow> pyval" where
  "host_to_dict h = jobj
     [(''schema'', jstr ''shadow6.host-budget.v1''), (''platform'', JStr (platform h)),
      (''memory_bytes'', JInt (memory_bytes h)), (''fd_ceiling'', JInt (fd_ceiling h)),
      (''cpu_units'', JInt (cpu_units h)), (''memory_sources'', jstrs (memory_sources h)),
      (''fd_sources'', jstrs (fd_sources h)), (''cpu_sources'', jstrs (cpu_sources h))]"

definition host_fields :: "string list" where
  "host_fields = [''schema'', ''platform'', ''memory_bytes'', ''fd_ceiling'', ''cpu_units'',
     ''memory_sources'', ''fd_sources'', ''cpu_sources'']"

definition host_from_dict :: "pyval \<Rightarrow> host_budget res" where
  "host_from_dict v =
     (let d = the_obj v in
      ebind (raise_if (\<not> is_obj v \<or> \<not> keys_are host_fields d
                       \<or> fld d ''schema'' \<noteq> jstr ''shadow6.host-budget.v1'')
              (ValueError ''InvalidHostBudgetSchema'')) (\<lambda>_.
      ebind (raise_if (list_ex (\<lambda>n. \<not> is_list (fld d n)) [''memory_sources'', ''fd_sources'', ''cpu_sources''])
              (ValueError ''InvalidHostBudgetSources'')) (\<lambda>_.
      host_init (fld d ''memory_bytes'') (fld d ''fd_ceiling'') (fld d ''cpu_units'') (fld d ''platform'')
        (the_list (fld d ''memory_sources'')) (the_list (fld d ''fd_sources''))
        (the_list (fld d ''cpu_sources'')))))"

subsection \<open>Capturing the budget\<close>

text \<open>
  What the operating system answers: the resource limits (\<open>-1\<close> is \<^verbatim>\<open>RLIM_INFINITY\<close>), the
  page counts, the processor counts, and the files below the cgroup and proc roots by the
  parts of their paths.
\<close>

record sysview =
  backend :: bool
  soft :: int
  hard :: int
  phys_pages :: int
  page_size :: int
  cpu_count :: "int option"
  affinity :: "int option"
  sys_platform :: ustr
  cgroup_file :: "ustr list \<Rightarrow> opened_file"
  proc_file :: "ustr list \<Rightarrow> opened_file"

definition path_parts :: "ustr \<Rightarrow> ustr list" where
  "path_parts s = filter (\<lambda>p. p \<noteq> [] \<and> p \<noteq> asc ''.'') (split_on 47 s)"

text \<open>\<^verbatim>\<open>current\<close>, its parent, and so on down to the cgroup root.\<close>

function ancestors_of :: "ustr list \<Rightarrow> ustr list list" where
  "ancestors_of current = current # (if current = [] then [] else ancestors_of (butlast current))"
  by pat_completeness auto
termination
  by (relation "measure length") auto

declare ancestors_of.simps [simp del]

definition membership_row :: "ustr \<Rightarrow> ustr list list \<Rightarrow> ustr list list res" where
  "membership_row row ancestors =
     (let parts = split_upto 58 2 row in
      if length parts \<noteq> 3 then Inl (ValueError ''InvalidHostCgroupMembership'')
      else if parts ! 0 = asc ''0'' \<and> parts ! 1 = []
      then
        (let relative = path_parts (lstrip_char 47 (parts ! 2)) in
         ebind (raise_if (asc ''..'' \<in> set relative) (ValueError ''InvalidHostCgroupMembership'')) (\<lambda>_.
           Inr (ancestors @ ancestors_of relative)))
      else Inr ancestors)"

definition cgroup_ancestors :: "sysview \<Rightarrow> ustr list list res" where
  "cgroup_ancestors v =
     ebind (bounded_read (proc_file v [asc ''self'', asc ''cgroup''])) (\<lambda>memberships.
     ebind (case memberships of None \<Rightarrow> Inr [] | Some t \<Rightarrow> efold membership_row (splitlines t) []) (\<lambda>found.
       let ancestors = (if found = [] then [[]] else found) in
       ebind (raise_if (64 < length ancestors) (ValueError ''HostCgroupHierarchyLimit'')) (\<lambda>_.
         Inr ancestors)))"

text \<open>The budget while it is being lowered: memory limits, CPU units and where they come from.\<close>

record ceilings =
  mem :: "int list"
  mem_from :: "ustr list"
  cpu :: int
  cpu_from :: "ustr list"

definition note_source :: "ustr \<Rightarrow> ustr list \<Rightarrow> ustr list" where
  "note_source s ss = (if s \<in> set ss then ss else ss @ [s])"

definition cgroup_memory :: "ustr option \<Rightarrow> ceilings \<Rightarrow> ceilings res" where
  "cgroup_memory maximum c =
     (case maximum of
        None \<Rightarrow> Inr c
      | Some t \<Rightarrow>
          if t = asc ''max'' then Inr c
          else
            ebind (py_int t) (\<lambda>i.
            ebind (integer (JInt i)) (\<lambda>m.
              Inr (c\<lparr>mem := mem c @ [m], mem_from := note_source (asc ''cgroup-v2'') (mem_from c)\<rparr>))))"

definition cgroup_cpu :: "ustr option \<Rightarrow> ceilings \<Rightarrow> ceilings res" where
  "cgroup_cpu quota c =
     (if quota = None \<or> quota = Some [] then Inr c
      else
        (let values = split_ws (the quota) in
         if length values \<noteq> 2 then Inl (ValueError ''InvalidHostCPUQuota'')
         else
           ebind (py_int (values ! 1)) (\<lambda>p.
           ebind (integer (JInt p)) (\<lambda>period.
             if values ! 0 = asc ''max'' then Inr c
             else
               ebind (py_int (values ! 0)) (\<lambda>a.
               ebind (integer (JInt a)) (\<lambda>allocation.
                 Inr (c\<lparr>cpu := min (cpu c) ((allocation + period - 1) div period),
                        cpu_from := note_source (asc ''cgroup-v2'') (cpu_from c)\<rparr>)))))))"

definition cgroup_step :: "sysview \<Rightarrow> ustr list \<Rightarrow> ceilings \<Rightarrow> ceilings res" where
  "cgroup_step v parent c =
     ebind (bounded_read (cgroup_file v (parent @ [asc ''memory.max'']))) (\<lambda>maximum.
     ebind (cgroup_memory maximum c) (\<lambda>c1.
     ebind (bounded_read (cgroup_file v (parent @ [asc ''cpu.max'']))) (\<lambda>quota.
       cgroup_cpu quota c1)))"

definition legacy_memory :: "sysview \<Rightarrow> int \<Rightarrow> ceilings \<Rightarrow> ceilings res" where
  "legacy_memory v physical c =
     ebind (bounded_read (cgroup_file v [asc ''memory'', asc ''memory.limit_in_bytes''])) (\<lambda>legacy.
       (case legacy of
          None \<Rightarrow> Inr c
        | Some t \<Rightarrow>
            ebind (py_int t) (\<lambda>value.
            ebind (raise_if (value < 1) (ValueError ''InvalidHostMemoryLimit'')) (\<lambda>_.
              Inr (c\<lparr>mem := mem c @ [min value physical], mem_from := mem_from c @ [asc ''cgroup-v1'']\<rparr>)))))"

definition linux_ceilings :: "sysview \<Rightarrow> int \<Rightarrow> ceilings \<Rightarrow> ceilings res" where
  "linux_ceilings v physical c =
     ebind (cgroup_ancestors v) (\<lambda>ancestors.
     ebind (efold (cgroup_step v) ancestors c) (legacy_memory v physical))"

fun lmin :: "int list \<Rightarrow> int" where
  "lmin [] = 0"
| "lmin (x # xs) = fold min xs x"

definition on_linux :: "sysview \<Rightarrow> bool" where
  "on_linux v \<longleftrightarrow> sys_platform v = asc ''linux''"

definition fd_limits_of :: "sysview \<Rightarrow> (int list \<times> ustr option) res" where
  "fd_limits_of v =
     (let base = filter (\<lambda>n. n \<noteq> -1 \<and> 0 < n) [soft v, hard v] in
      ebind (if on_linux v then bounded_read (proc_file v [asc ''sys'', asc ''fs'', asc ''nr_open''])
             else Inr None) (\<lambda>kernel_fds.
      ebind (case kernel_fds of
               None \<Rightarrow> Inr base
             | Some t \<Rightarrow> ebind (py_int t) (\<lambda>i. ebind (integer (JInt i)) (\<lambda>n. Inr (base @ [n])))) (\<lambda>fds.
      ebind (raise_if (fds = []) (ValueError ''HostBudgetUnavailable'')) (\<lambda>_.
        Inr (fds, kernel_fds)))))"

definition base_ceilings :: "sysview \<Rightarrow> int \<Rightarrow> ceilings res" where
  "base_ceilings v physical =
     ebind (integer (JInt physical)) (\<lambda>m.
     ebind (integer (JInt (case cpu_count v of None \<Rightarrow> 1 | Some n \<Rightarrow> if n = 0 then 1 else n))) (\<lambda>c0.
     ebind (case affinity v of
              None \<Rightarrow> Inr (c0, [asc ''online-cpus''])
            | Some n \<Rightarrow>
                ebind (integer (JInt n)) (\<lambda>a.
                  Inr (min c0 a, [asc ''online-cpus'', asc ''process-affinity'']))) (\<lambda>(c, cf).
       Inr \<lparr>mem = [m], mem_from = [asc ''physical-ram''], cpu = c, cpu_from = cf\<rparr>)))"

definition capture :: "sysview \<Rightarrow> host_budget res" where
  "capture v =
     ebind (raise_if (\<not> backend v) (ValueError ''HostBudgetUnavailable'')) (\<lambda>_.
     let physical = phys_pages v * page_size v in
     ebind (fd_limits_of v) (\<lambda>(fd_limits, kernel_fds).
     ebind (base_ceilings v physical) (\<lambda>c0.
     ebind (if on_linux v then linux_ceilings v physical c0 else Inr c0) (\<lambda>c.
       host_init (JInt (lmin (mem c))) (JInt (lmin fd_limits)) (JInt (cpu c)) (JStr (sys_platform v))
         (map JStr (mem_from c))
         (jstr ''rlimit-nofile'' # (if kernel_fds = None \<or> kernel_fds = Some [] then [] else [jstr ''kernel-nr-open'']))
         (map JStr (cpu_from c))))))"

section \<open>The operator's policy\<close>

definition safe_policy :: pyval where
  "safe_policy = jobj [(''mode'', jstr ''safe''), (''operator_overrides'', JObj [])]"

definition validate_policy :: "(ustr \<Rightarrow> ustr option) \<Rightarrow> pyval \<Rightarrow> pyval res" where
  "validate_policy flt given =
     (let value = (if given = JNull then safe_policy else given);
          d = the_obj value; mode = fld d ''mode''; over = fld d ''operator_overrides'' in
      ebind (raise_if (\<not> is_obj value \<or> \<not> keys_are [''mode'', ''operator_overrides''] d
                       \<or> mode \<notin> {jstr ''safe'', jstr ''elastic'', jstr ''custom''}
                       \<or> \<not> is_obj over \<or> 64 < length (the_obj over))
              (ValueError ''InvalidLimitsPolicy'')) (\<lambda>_.
      ebind (raise_if (mode \<noteq> jstr ''custom'' \<and> the_obj over \<noteq> [])
              (ValueError ''OperatorOverridesRequireCustomMode'')) (\<lambda>_.
      ebind (each (\<lambda>(name, requested).
               ebind (raise_if (\<not> (1 \<le> length name \<and> length name \<le> 64)) (ValueError ''InvalidLimitDimension'')) (\<lambda>_.
               ebind (integer requested) (\<lambda>_. Inr ()))) (the_obj over)) (\<lambda>_.
      json_copy flt value))))"

section \<open>Resolving the limits of a profile\<close>

record limit_row =
  safe_default :: int
  recommended :: int
  operator_request :: "int option"
  host_derived_ceiling :: int
  hard_protocol_limit :: "int option"
  implementation_ceiling :: "int option"
  effective :: int
  row_source :: ustr
  row_enforced_by :: ustr

text \<open>
  The tables of a limit model by dimension. An empty list or string has no dimensions either;
  any other value is not a table and indexing it by a dimension raises.
\<close>

fun table :: "pyval \<Rightarrow> pydict res" where
  "table (JObj d) = Inr d"
| "table (JList []) = Inr []"
| "table (JStr []) = Inr []"
| "table _ = Inl (TypeError ''not a table of limits'')"

record limit_tables =
  hard_limits :: pydict
  safe_defaults :: pydict
  recommended_limits :: pydict
  capacity_models :: pydict
  enforced_by :: pydict

definition model_fields :: "string list" where
  "model_fields = [''schema'', ''hard_protocol_limits'', ''safe_defaults'', ''recommended_limits'',
     ''capacity_models'', ''enforced_by'']"

definition model_tables :: "pyval \<Rightarrow> limit_tables res" where
  "model_tables model =
     (let m = the_obj model in
      ebind (raise_if (\<not> is_obj model \<or> \<not> keys_are model_fields m
                       \<or> fld m ''schema'' \<noteq> jstr ''shadow6.profile-limits.v1'')
              (ValueError ''InvalidProfileLimitsModel'')) (\<lambda>_.
      ebind (table (fld m ''safe_defaults'')) (\<lambda>sd.
      ebind (table (fld m ''hard_protocol_limits'')) (\<lambda>hl.
      ebind (table (fld m ''recommended_limits'')) (\<lambda>rl.
      ebind (table (fld m ''capacity_models'')) (\<lambda>cm.
      ebind (table (fld m ''enforced_by'')) (\<lambda>eb.
      ebind (raise_if (list_ex (\<lambda>t. set (keys t) \<noteq> set (keys sd)) [hl, sd, rl, cm, eb])
              (ValueError ''LimitDimensionMismatch'')) (\<lambda>_.
        Inr \<lparr>hard_limits = hl, safe_defaults = sd, recommended_limits = rl, capacity_models = cm,
             enforced_by = eb\<rparr>))))))))"

definition optional_integer :: "pyval \<Rightarrow> int option res" where
  "optional_integer v = (if v = JNull then Inr None else ebind (integer v) (\<lambda>i. Inr (Some i)))"

definition host_ceiling :: "host_budget \<Rightarrow> int \<Rightarrow> int \<Rightarrow> int option \<Rightarrow> int" where
  "host_ceiling host memory_cost fd_cost native =
     lmin ([MAX_INTEGER]
       @ (if memory_cost \<noteq> 0 then [memory_bytes host div 2 div memory_cost] else [])
       @ (if fd_cost \<noteq> 0 then [max 0 (fd_ceiling host - 64) div fd_cost] else [])
       @ (case native of None \<Rightarrow> [] | Some n \<Rightarrow> [n]))"

definition capacity_fields :: "string list" where
  "capacity_fields = [''memory_per_unit'', ''fds_per_unit'', ''native_ceiling'', ''mutable'']"

text \<open>The declared values of one dimension, checked.\<close>

record dimension =
  d_safe :: int
  d_recommended :: int
  d_hard :: "int option"
  d_memory :: int
  d_fds :: int
  d_native :: "int option"
  d_mutable :: bool

definition capacity_of :: "pyval \<Rightarrow> (int \<times> int \<times> int option \<times> bool) res" where
  "capacity_of cv =
     (let capacity = the_obj cv in
      ebind (raise_if (\<not> is_obj cv \<or> \<not> keys_are capacity_fields capacity) (ValueError ''InvalidCapacityModel'')) (\<lambda>_.
      ebind (integer_from 0 (fld capacity ''memory_per_unit'')) (\<lambda>memory_cost.
      ebind (integer_from 0 (fld capacity ''fds_per_unit'')) (\<lambda>fd_cost.
      ebind (optional_integer (fld capacity ''native_ceiling'')) (\<lambda>native.
      ebind (raise_if (\<not> is_bool (fld capacity ''mutable'')) (ValueError ''InvalidLimitMutability'')) (\<lambda>_.
        Inr (memory_cost, fd_cost, native, the_bool (fld capacity ''mutable''))))))))"

definition declared :: "limit_tables \<Rightarrow> ustr \<Rightarrow> dimension res" where
  "declared t name =
     ebind (item (safe_defaults t) name) (\<lambda>sv.
     ebind (integer sv) (\<lambda>safe.
     ebind (item (recommended_limits t) name) (\<lambda>rv.
     ebind (integer rv) (\<lambda>rec.
     ebind (item (hard_limits t) name) (\<lambda>hv.
     ebind (optional_integer hv) (\<lambda>hard.
     ebind (item (capacity_models t) name) (\<lambda>cv.
     ebind (capacity_of cv) (\<lambda>(memory_cost, fd_cost, native, mutable).
       Inr \<lparr>d_safe = safe, d_recommended = rec, d_hard = hard, d_memory = memory_cost, d_fds = fd_cost,
            d_native = native, d_mutable = mutable\<rparr>))))))))"

text \<open>The value a dimension gets, from its declaration, the policy and the host.\<close>

definition candidate :: "ustr \<Rightarrow> int option \<Rightarrow> host_budget \<Rightarrow> dimension \<Rightarrow> int" where
  "candidate mode request host d =
     (case request of
        Some r \<Rightarrow> r
      | None \<Rightarrow> if mode = asc ''safe'' \<or> mode = asc ''custom'' then d_safe d
                else min MAX_INTEGER (d_recommended d * cpu_units host))"

definition choose_limit :: "ustr \<Rightarrow> int option \<Rightarrow> host_budget \<Rightarrow> dimension \<Rightarrow> int res" where
  "choose_limit mode request host d =
     (let ceiling = host_ceiling host (d_memory d) (d_fds d) (d_native d) in
      ebind (raise_if (case request of
                         None \<Rightarrow> False
                       | Some r \<Rightarrow> (case d_hard d of None \<Rightarrow> False | Some h \<Rightarrow> h < r) \<or> ceiling < r)
              (ValueError ''LimitRequestExceedsCeiling'')) (\<lambda>_.
      let eff = min (min (candidate mode request host d) ceiling)
                  (case d_hard d of None \<Rightarrow> MAX_INTEGER | Some h \<Rightarrow> h) in
      ebind (raise_if (eff < 1) (ValueError ''HostBudgetInsufficient'')) (\<lambda>_.
      ebind (raise_if (\<not> d_mutable d \<and> eff \<noteq> d_safe d) (ValueError ''LimitNotRuntimeConfigurable'')) (\<lambda>_.
        Inr eff))))"

text \<open>One turn of the loop over the sorted dimensions.\<close>

definition resolve_dimension ::
  "limit_tables \<Rightarrow> ustr \<Rightarrow> pydict \<Rightarrow> host_budget \<Rightarrow> ustr \<Rightarrow> limit_row res" where
  "resolve_dimension t mode overrides host name =
     ebind (declared t name) (\<lambda>d.
     let request = map_option the_int (map_of overrides name) in
     ebind (choose_limit mode request host d) (\<lambda>eff.
     ebind (item (enforced_by t) name) (\<lambda>ev.
     ebind (raise_if (\<not> is_str ev \<or> ev = JStr []) (ValueError ''MissingLimitEnforcer'')) (\<lambda>_.
       Inr \<lparr>safe_default = d_safe d, recommended = d_recommended d, operator_request = request,
            host_derived_ceiling = host_ceiling host (d_memory d) (d_fds d) (d_native d),
            hard_protocol_limit = d_hard d, implementation_ceiling = d_native d, effective = eff,
            row_source = (if request = None then mode else asc ''operator''),
            row_enforced_by = the_str ev\<rparr>))))"

text \<open>
  The rows of all dimensions. The limit model, the mode and the overrides come with them; the
  caller puts them into the resolution.
\<close>

definition limit_rows ::
  "limit_tables \<Rightarrow> ustr \<Rightarrow> pydict \<Rightarrow> host_budget \<Rightarrow> (ustr \<times> limit_row) list res" where
  "limit_rows t mode overrides host =
     ebind (raise_if (\<not> set (keys overrides) \<subseteq> set (keys (safe_defaults t)))
             (ValueError ''UnknownLimitOverride'')) (\<lambda>_.
     emap (\<lambda>name. ebind (resolve_dimension t mode overrides host name) (\<lambda>row. Inr (name, row)))
       (sort (keys (safe_defaults t))))"

definition jopt :: "int option \<Rightarrow> pyval" where
  "jopt x = (case x of None \<Rightarrow> JNull | Some i \<Rightarrow> JInt i)"

definition row_json :: "limit_row \<Rightarrow> pyval" where
  "row_json r = jobj
     [(''safe_default'', JInt (safe_default r)), (''recommended'', JInt (recommended r)),
      (''operator_request'', jopt (operator_request r)),
      (''host_derived_ceiling'', JInt (host_derived_ceiling r)),
      (''hard_protocol_limit'', jopt (hard_protocol_limit r)),
      (''implementation_ceiling'', jopt (implementation_ceiling r)),
      (''effective'', JInt (effective r)), (''source'', JStr (row_source r)),
      (''enforced_by'', JStr (row_enforced_by r)), (''enforcement'', jstr ''required-before-ready'')]"

definition resolution_json ::
  "pyval \<Rightarrow> ustr \<Rightarrow> pyval \<Rightarrow> host_budget \<Rightarrow> (ustr \<times> limit_row) list \<Rightarrow> ustr \<Rightarrow> pyval" where
  "resolution_json profile_id mode policy host rows digest = jobj
     [(''schema'', jstr ''shadow6.limit-resolution.v1''), (''profile'', profile_id), (''mode'', JStr mode),
      (''policy'', policy), (''host_budget'', host_to_dict host),
      (''dimensions'', JObj (map (\<lambda>(n, r). (n, row_json r)) rows)),
      (''effective_limits'', JObj (map (\<lambda>(n, r). (n, JInt (effective r))) rows)),
      (''model_digest'', JStr digest)]"

definition sha256_of :: "pyval \<Rightarrow> ustr res" where
  "sha256_of v = ebind (canonical v) (\<lambda>b. Inr (asc ''sha256:'' @ sha256_hex b))"

definition resolve :: "(ustr \<Rightarrow> ustr option) \<Rightarrow> pydict \<Rightarrow> pyval \<Rightarrow> host_budget \<Rightarrow> pyval res" where
  "resolve flt profile given host =
     ebind (validate_policy flt given) (\<lambda>policy.
     let mode = the_str (fld (the_obj policy) ''mode'');
         overrides = the_obj (fld (the_obj policy) ''operator_overrides'');
         model = fld profile ''limit_model'' in
     ebind (model_tables model) (\<lambda>t.
     ebind (limit_rows t mode overrides host) (\<lambda>rows.
     ebind (item profile (asc ''id'')) (\<lambda>profile_id.
     ebind (sha256_of model) (\<lambda>digest.
       Inr (resolution_json profile_id mode policy host rows digest))))))"

text \<open>\<^verbatim>\<open>LimitResolution.to_dict\<close> and \<^verbatim>\<open>digest\<close> of the document.\<close>

definition resolution_to_dict :: "(ustr \<Rightarrow> ustr option) \<Rightarrow> pyval \<Rightarrow> pyval res" where
  "resolution_to_dict flt document = json_copy flt document"

definition resolution_digest :: "pyval \<Rightarrow> ustr res" where
  "resolution_digest document = sha256_of document"

definition resolution_fields :: "string list" where
  "resolution_fields = [''schema'', ''profile'', ''mode'', ''policy'', ''host_budget'', ''dimensions'',
     ''effective_limits'', ''model_digest'']"

text \<open>\<open>current\<close> is the budget captured now, when the caller asks for the host to be compared.\<close>

definition validate ::
  "(ustr \<Rightarrow> ustr option) \<Rightarrow> pyval \<Rightarrow> pydict \<Rightarrow> pyval \<Rightarrow> host_budget res option \<Rightarrow> pyval res" where
  "validate flt resolution profile policy current =
     (let d = the_obj resolution in
      ebind (raise_if (\<not> is_obj resolution \<or> \<not> keys_are resolution_fields d)
              (ValueError ''InvalidLimitResolutionSchema'')) (\<lambda>_.
      ebind (host_from_dict (fld d ''host_budget'')) (\<lambda>host.
      ebind (resolve flt profile (if policy \<noteq> JNull then policy else fld d ''policy'') host) (\<lambda>document.
      ebind (resolution_to_dict flt document) (\<lambda>expected.
      ebind (canonical expected) (\<lambda>eb.
      ebind (canonical resolution) (\<lambda>rb.
      ebind (raise_if (eb \<noteq> rb) (ValueError ''LimitResolutionDrift'')) (\<lambda>_.
      ebind (case current of
               None \<Rightarrow> Inr ()
             | Some now \<Rightarrow> ebind now (\<lambda>h. raise_if (host_to_dict h \<noteq> host_to_dict host) (ValueError ''HostBudgetDrift''))) (\<lambda>_.
        Inr expected)))))))))"

section \<open>The resource plan of the components\<close>

text \<open>A component's row of the plan, with the two estimates that are summed.\<close>

record component =
  estimated_fds :: int
  estimated_memory :: int
  component_row :: "(string \<times> pyval) list"

text \<open>The nested function \<^verbatim>\<open>limit\<close>.\<close>

definition climit :: "pydict \<Rightarrow> string \<Rightarrow> int \<Rightarrow> int \<Rightarrow> int \<Rightarrow> int res" where
  "climit row name dflt low high =
     (let v = getd row name (JInt dflt) in
      ebind (raise_if (\<not> int_in low high v) (ValueError (''InvalidComponentLimit: '' @ name))) (\<lambda>_.
        Inr (the_int v)))"

definition gate_component :: "pyval \<Rightarrow> component res" where
  "gate_component gate =
     ebind (raise_if (\<not> is_obj gate) (ValueError ''InvalidGateLimitConfig'')) (\<lambda>_.
     let lv = getd (the_obj gate) ''limits'' (JObj []); values = the_obj lv in
     ebind (raise_if (\<not> is_obj lv \<or> \<not> keys_in [''max_connections'', ''max_frame_bytes'', ''idle_seconds''] values)
             (ValueError ''InvalidGateLimitConfig'')) (\<lambda>_.
     ebind (climit values ''max_connections'' 128 1 4096) (\<lambda>connections.
     ebind (climit values ''max_frame_bytes'' 65507 1024 65507) (\<lambda>frame.
     ebind (climit values ''idle_seconds'' 120 5 86400) (\<lambda>idle.
     let fds = 16 + 2 * connections; memory = connections * frame in
     Inr \<lparr>estimated_fds = fds, estimated_memory = memory, component_row =
       [(''max_connections'', JInt connections), (''max_frame_bytes'', JInt frame),
        (''idle_seconds'', JInt idle), (''estimated_fds'', JInt fds),
        (''estimated_memory_bytes'', JInt memory), (''enforced_by'', jstr ''Gate.config.limits'')]\<rparr>)))))"

definition enumber :: "pydict \<Rightarrow> string \<Rightarrow> int \<Rightarrow> int \<Rightarrow> int \<Rightarrow> int res" where
  "enumber envelope name dflt low high =
     (let raw = getd envelope name (JStr (show_int dflt)); s = the_str raw in
      ebind (raise_if (\<not> is_str raw \<or> \<not> ascii s \<or> s = [] \<or> \<not> list_all is_digit s)
              (ValueError (''InvalidComponentLimit: '' @ name))) (\<lambda>_.
      ebind (py_int s) (\<lambda>i.
      ebind (raise_if (\<not> (low \<le> i \<and> i \<le> high)) (ValueError (''InvalidComponentLimit: '' @ name))) (\<lambda>_.
        Inr i))))"

definition waiters_per_session :: int where
  "waiters_per_session = 4"

definition sdp_bytes :: int where
  "sdp_bytes = 32768"

definition envelope_component :: "pyval \<Rightarrow> component res" where
  "envelope_component ev =
     ebind (raise_if (\<not> is_obj ev) (ValueError ''InvalidEnvelopeLimitConfig'')) (\<lambda>_.
     let envelope = the_obj ev in
     ebind (enumber envelope ''max_sessions'' 32 1 128) (\<lambda>sessions.
     ebind (enumber envelope ''max_preauth'' 16 1 128) (\<lambda>preauth.
     ebind (enumber envelope ''max_frame'' 16384 256 65507) (\<lambda>frame.
     ebind (enumber envelope ''idle_timeout'' 30 1 300) (\<lambda>idle.
     ebind (raise_if (sessions < preauth) (ValueError ''EnvelopePreauthExceedsSessions'')) (\<lambda>_.
     let signalling = (if fld envelope ''carrier'' = jstr ''webrtc'' then waiters_per_session * sessions else 0);
         fds = 16 + 2 * sessions + (if signalling \<noteq> 0 then 1 + signalling else 0);
         memory = 2 * sessions * frame + (if signalling \<noteq> 0 then signalling * sdp_bytes else 0) in
     Inr \<lparr>estimated_fds = fds, estimated_memory = memory, component_row =
       [(''max_sessions'', JInt sessions), (''max_preauth'', JInt preauth), (''max_frame'', JInt frame),
        (''idle_timeout'', JInt idle), (''estimated_fds'', JInt fds), (''estimated_memory_bytes'', JInt memory),
        (''signalling_client_limit'', JInt signalling),
        (''enforced_by'', jstr (''S6EPE.config.max_sessions/max_preauth/max_frame'' @
           (if signalling \<noteq> 0 then ''; S6SG1 bounded semaphore from resolved session limit'' else [])))]\<rparr>))))))"

definition guard_fields :: "string list" where
  "guard_fields = [''role'', ''target_backend'', ''spa_config'', ''lpd_limiter'', ''anti_probe'',
     ''stealth_timing'', ''broker_shield'']"

definition feature_fields :: "(string \<times> string list) list" where
  "feature_fields =
     [(''spa_config'', [''enabled'', ''listen_host'', ''secret'', ''knock_port'', ''public_tcp_port'',
        ''agent_tcp_port'', ''unlock_window'']),
      (''lpd_limiter'', [''enabled'', ''rate'', ''burst'', ''public_port'', ''agent_port'']),
      (''anti_probe'', [''enabled'', ''public_port'', ''local_port'', ''max_fails'', ''ban_duration_sec'']),
      (''stealth_timing'', [''enabled'', ''broker_wss_addr'', ''server_name'', ''chaff_interval_ms'',
        ''jitter_min_ms'', ''jitter_max_ms'']),
      (''broker_shield'', [''enabled'', ''public_host'', ''public_port'', ''local_broker_port'',
        ''secret_path'', ''max_conn_per_ip'', ''tls_cert_file'', ''tls_key_file''])]"

text \<open>
  The five features of a Guard, read from its configuration: each an object with known fields
  and a Boolean \<^verbatim>\<open>enabled\<close>. Every failure is the same error.
\<close>

definition guard_features :: "pydict \<Rightarrow> (string \<times> pydict) list res" where
  "guard_features guard =
     (let features = map (\<lambda>(name, _). (name, getd guard name (JObj []))) feature_fields in
      ebind (raise_if (list_ex (\<lambda>(_, v). \<not> is_obj v) features) (ValueError ''InvalidGuardLimitConfig'')) (\<lambda>_.
      ebind (raise_if (list_ex (\<lambda>(name, allowed). \<not> keys_in allowed (the_obj (the (map_of features name)))) feature_fields)
              (ValueError ''InvalidGuardLimitConfig'')) (\<lambda>_.
      ebind (raise_if (list_ex (\<lambda>(_, v). \<not> is_bool (getd (the_obj v) ''enabled'' (JBool False))) features)
              (ValueError ''InvalidGuardLimitConfig'')) (\<lambda>_.
        Inr (map (\<lambda>(name, v). (name, the_obj v)) features)))))"

definition enabled :: "(string \<times> pydict) list \<Rightarrow> string \<Rightarrow> bool" where
  "enabled features name = the_bool (getd (the (map_of features name)) ''enabled'' (JBool False))"

definition guard_role_ok :: "pyval \<Rightarrow> (string \<times> pydict) list \<Rightarrow> bool" where
  "guard_role_ok role features \<longleftrightarrow>
     role \<in> {jstr ''agent_guard'', jstr ''client_guard'', jstr ''broker_guard''} \<and>
     (role = jstr ''agent_guard'' \<longrightarrow> list_ex (enabled features) [''spa_config'', ''lpd_limiter'', ''anti_probe'']) \<and>
     (role = jstr ''client_guard'' \<longrightarrow> enabled features ''stealth_timing'') \<and>
     (role = jstr ''broker_guard'' \<longrightarrow> enabled features ''broker_shield'')"

definition guard_component :: "pyval \<Rightarrow> component res" where
  "guard_component gv =
     (let guard = the_obj gv in
      ebind (raise_if (\<not> is_obj gv \<or> \<not> keys_in guard_fields guard) (ValueError ''InvalidGuardLimitConfig'')) (\<lambda>_.
      ebind (guard_features guard) (\<lambda>features.
      ebind (raise_if (\<not> guard_role_ok (fld guard ''role'') features) (ValueError ''InvalidGuardLimitConfig'')) (\<lambda>_.
      let spa = enabled features ''spa_config''; lpd = enabled features ''lpd_limiter'';
          probe = enabled features ''anti_probe''; shield = enabled features ''broker_shield'';
          tracked0 = (if spa then 2 * 50000 else 0) + (if lpd then 50000 else 0) + (if probe then 3 * 50000 else 0);
          pv = getd (the (map_of features ''broker_shield'')) ''max_conn_per_ip'' (JInt 0) in
      ebind (raise_if (\<not> int_in 0 10000 pv) (ValueError ''InvalidGuardLimitConfig'')) (\<lambda>_.
      let per_ip = (if shield then (if the_int pv = 0 then 64 else the_int pv) else 0);
          spa_connections = (if spa then 256 else 0);
          broker_connections = (if shield then 256 else 0);
          datagram_workers = (if lpd then 256 else 0);
          active_connections = spa_connections + broker_connections;
          listeners = 2 * of_bool spa + 2 * of_bool lpd + of_bool probe + of_bool shield;
          fds = 16 + listeners + 2 * spa_connections + datagram_workers + 2 * broker_connections;
          tracked = tracked0 + broker_connections;
          memory = tracked * 512 + spa_connections * 80 * 1024 + broker_connections * 96 * 1024
                   + datagram_workers * 16 * 1024 in
      Inr \<lparr>estimated_fds = fds, estimated_memory = memory, component_row =
        [(''max_tracked_ips'', JInt 50000), (''max_active_connections'', JInt active_connections),
         (''max_active_datagram_workers'', JInt datagram_workers), (''max_connections_per_ip'', JInt per_ip),
         (''tracked_state_entries'', JInt tracked), (''estimated_fds'', JInt fds),
         (''estimated_memory_bytes'', JInt memory),
         (''enforced_by'', jstr ''Guard.maxTrackedIPs/SPA-slots/BrokerShield-boundedListener'')]\<rparr>)))))"

definition credited_fields :: "string list" where
  "credited_fields = [''schema'', ''core'', ''key_file'', ''bind'', ''peer'', ''side'', ''stream'', ''limits'']"

definition credited_bounds :: "(string \<times> int \<times> int \<times> int) list" where
  "credited_bounds =
     [(''max_message'', 16 * 1024 * 1024, 1024, 256 * 1024 * 1024),
      (''max_streams'', 64, 1, 4096),
      (''max_inflight'', 16 * 1024 * 1024, 1024, 512 * 1024 * 1024),
      (''max_window'', 64, 1, 4096),
      (''reassembly_seconds'', 30, 1, 300),
      (''max_extensions'', 16, 0, 128),
      (''payload_bytes'', 0, 0, 65536),
      (''window_frames'', 0, 0, 4096)]"

definition credited_component :: "pyval \<Rightarrow> component res" where
  "credited_component cv =
     (let credited = the_obj cv in
      ebind (raise_if (\<not> is_obj cv \<or> \<not> keys_in credited_fields credited
                       \<or> \<not> names [''schema'', ''core'', ''key_file'', ''bind'', ''peer''] \<subseteq> set (keys credited)
                       \<or> fld credited ''schema'' \<noteq> jstr ''shadow6.s6na-attachment.v1'')
              (ValueError ''InvalidCreditedLimitConfig'')) (\<lambda>_.
      let lv = getd credited ''limits'' (JObj []); limits = the_obj lv in
      ebind (raise_if (\<not> is_obj lv \<or> \<not> keys_in (map fst credited_bounds) limits)
              (ValueError ''InvalidCreditedLimitConfig'')) (\<lambda>_.
      ebind (emap (\<lambda>(name, dflt, low, high). ebind (climit limits name dflt low high) (\<lambda>i. Inr (name, i)))
               credited_bounds) (\<lambda>resolved.
      let r = (\<lambda>n. the (map_of resolved n)) in
      ebind (raise_if (r ''max_inflight'' < r ''max_message''
                       \<or> (r ''payload_bytes'' \<noteq> 0 \<and> r ''payload_bytes'' < 64))
              (ValueError ''InvalidCreditedLimitConfig'')) (\<lambda>_.
      let payload = (if r ''payload_bytes'' = 0 then 65536 else r ''payload_bytes'');
          window = min (r ''max_window'') (if r ''window_frames'' = 0 then 64 else r ''window_frames'');
          memory = 2 * r ''max_inflight'' + window * (payload + 128) + 8192 * 512 + r ''max_streams'' * 256 in
      Inr \<lparr>estimated_fds = 17, estimated_memory = memory, component_row =
        [(''max_message'', JInt (r ''max_message'')), (''max_streams'', JInt (r ''max_streams'')),
         (''max_inflight'', JInt (r ''max_inflight'')), (''max_window'', JInt (r ''max_window'')),
         (''reassembly_seconds'', JInt (r ''reassembly_seconds'')),
         (''max_extensions'', JInt (r ''max_extensions'')), (''payload_bytes'', JInt payload),
         (''window_frames'', JInt window), (''estimated_fds'', JInt 17),
         (''estimated_memory_bytes'', JInt memory),
         (''enforced_by'', jstr ''S6NA.Limits/DataFrameCredit/UDP-peer-pin'')]\<rparr>)))))"

definition component_kinds :: "(string \<times> (pyval \<Rightarrow> component res)) list" where
  "component_kinds =
     [(''gate'', gate_component), (''envelope'', envelope_component), (''guard'', guard_component),
      (''credited'', credited_component)]"

text \<open>The components that are present, in the order the code takes them.\<close>

definition plan_components :: "pydict \<Rightarrow> (string \<times> component) list res" where
  "plan_components inputs =
     emap (\<lambda>(name, f). ebind (f (fld inputs name)) (\<lambda>c. Inr (name, c)))
       (filter (\<lambda>(name, f). fld inputs name \<noteq> JNull) component_kinds)"

definition resolve_components :: "pyval \<Rightarrow> host_budget \<Rightarrow> pyval \<Rightarrow> pyval res" where
  "resolve_components iv host fdv =
     (let inputs = the_obj iv in
      ebind (raise_if (\<not> is_obj iv \<or> \<not> keys_in (map fst component_kinds) inputs)
              (ValueError ''InvalidComponentLimitsInput'')) (\<lambda>_.
      ebind (integer fdv) (\<lambda>process_fds.
      ebind (plan_components inputs) (\<lambda>output.
      let peak_fds = fold max (map (estimated_fds \<circ> snd) output) 0;
          total_fds = sum_list (map (estimated_fds \<circ> snd) output);
          total_memory = sum_list (map (estimated_memory \<circ> snd) output) in
      ebind (raise_if (process_fds < peak_fds) (ValueError ''ComponentLimitExceedsProcessFds'')) (\<lambda>_.
      ebind (raise_if (fd_ceiling host < total_fds) (ValueError ''ComponentLimitExceedsHostFds'')) (\<lambda>_.
      ebind (raise_if (memory_bytes host div 2 < total_memory) (ValueError ''ComponentLimitExceedsHostMemory'')) (\<lambda>_.
        Inr (jobj [(''schema'', jstr ''shadow6.component-limit-resolution.v1''),
          (''process_fds'', JInt process_fds), (''estimated_peak_process_fds'', JInt peak_fds),
          (''estimated_total_fds'', JInt total_fds), (''estimated_total_memory_bytes'', JInt total_memory),
          (''host_budget'', host_to_dict host),
          (''components'', jobj (map (\<lambda>(n, c). (n, jobj (component_row c))) output))]))))))))"

definition component_resolution_fields :: "string list" where
  "component_resolution_fields = [''schema'', ''process_fds'', ''estimated_peak_process_fds'',
     ''estimated_total_fds'', ''estimated_total_memory_bytes'', ''host_budget'', ''components'']"

definition validate_components :: "pyval \<Rightarrow> pyval \<Rightarrow> host_budget \<Rightarrow> pyval \<Rightarrow> pyval res" where
  "validate_components resolution inputs host fdv =
     ebind (raise_if (\<not> is_obj resolution \<or> \<not> keys_are component_resolution_fields (the_obj resolution))
             (ValueError ''InvalidComponentLimitsSchema'')) (\<lambda>_.
     ebind (resolve_components inputs host fdv) (\<lambda>expected.
     ebind (canonical expected) (\<lambda>eb.
     ebind (canonical resolution) (\<lambda>rb.
     ebind (raise_if (eb \<noteq> rb) (ValueError ''ComponentLimitsDrift'')) (\<lambda>_.
       Inr expected)))))"

section \<open>The host budget\<close>

definition host_ok :: "host_budget \<Rightarrow> bool" where
  "host_ok h \<longleftrightarrow>
     1 \<le> memory_bytes h \<and> memory_bytes h \<le> MAX_INTEGER \<and> 1 \<le> fd_ceiling h \<and> fd_ceiling h \<le> MAX_INTEGER \<and>
     1 \<le> cpu_units h \<and> cpu_units h \<le> MAX_INTEGER \<and> 1 \<le> length (platform h) \<and> length (platform h) \<le> 64 \<and>
     (\<forall>ss \<in> {memory_sources h, fd_sources h, cpu_sources h}.
        length ss \<le> 8 \<and> (\<forall>s \<in> set ss. 1 \<le> length s \<and> length s \<le> 128))"

lemma integer_from_Inr [simp]:
  "integer_from low v = Inr i \<longleftrightarrow> v = JInt i \<and> low \<le> i \<and> i \<le> MAX_INTEGER"
  by (auto simp: integer_from_def int_in_iff)

lemma map_JStr: "(\<forall>v \<in> set vs. \<exists>s. v = JStr s) \<Longrightarrow> vs = map JStr (map the_str vs)"
  by (induction vs) auto

lemma check_sources_Inr:
  "check_sources vs = Inr () \<longleftrightarrow>
     length vs \<le> 8 \<and> vs = map JStr (map the_str vs) \<and> (\<forall>s \<in> set (map the_str vs). 1 \<le> length s \<and> length s \<le> 128)"
  (is "?l = ?r")
proof
  assume l: ?l
  then have s: "\<forall>v \<in> set vs. \<exists>s. v = JStr s \<and> 1 \<le> length s \<and> length s \<le> 128"
    by (auto simp: check_sources_def list_ex_iff str_len_iff)
  then have "vs = map JStr (map the_str vs)" by (intro map_JStr) blast
  with l s show ?r by (fastforce simp: check_sources_def not_less)
next
  assume r: ?r
  then obtain ss where "vs = map JStr ss" "\<forall>s \<in> set ss. 1 \<le> length s \<and> length s \<le> 128" "length vs \<le> 8"
    by (metis (no_types))
  then show ?l by (auto simp: check_sources_def list_ex_iff)
qed

lemma host_init_ok:
  assumes "host_init m f c p ms fs cs = Inr h"
  shows "host_ok h" and "m = JInt (memory_bytes h)" and "f = JInt (fd_ceiling h)" and "c = JInt (cpu_units h)"
    and "p = JStr (platform h)" and "ms = map JStr (memory_sources h)" and "fs = map JStr (fd_sources h)"
    and "cs = map JStr (cpu_sources h)"
proof -
  from assms show "host_ok h" "m = JInt (memory_bytes h)" "f = JInt (fd_ceiling h)" "c = JInt (cpu_units h)"
    "p = JStr (platform h)" "ms = map JStr (memory_sources h)" "fs = map JStr (fd_sources h)"
    "cs = map JStr (cpu_sources h)"
    by (auto simp: host_init_def check_sources_Inr str_len_iff host_ok_def simp del: set_map list.map_comp)
qed

lemma host_init_complete:
  assumes "host_ok h"
  shows "host_init (JInt (memory_bytes h)) (JInt (fd_ceiling h)) (JInt (cpu_units h)) (JStr (platform h))
     (map JStr (memory_sources h)) (map JStr (fd_sources h)) (map JStr (cpu_sources h)) = Inr h"
proof -
  have "check_sources (map JStr ss) = Inr ()" if "ss \<in> {memory_sources h, fd_sources h, cpu_sources h}" for ss
    using assms that by (auto simp: check_sources_def host_ok_def list_ex_iff)
  then show ?thesis using assms by (simp add: host_init_def host_ok_def comp_def)
qed

lemma jnorm_jstrs [simp]: "jnorm (jstrs ss) = jstrs ss"
  by (simp add: jstrs_def comp_def)

lemma host_dict_roundtrip:
  assumes "host_ok h"
  shows "host_from_dict (jnorm (host_to_dict h)) = Inr h"
proof -
  have "keys_are host_fields (the_obj (jnorm (host_to_dict h)))"
    unfolding keys_are_def host_to_dict_def by (subst keys_jnorm_jobj) (simp add: names_def host_fields_def)
  moreover have "is_obj (jnorm (host_to_dict h))" by (simp add: host_to_dict_def)
  moreover have "fld (the_obj (jnorm (host_to_dict h))) k =
     (case map_of [(''schema'', jstr ''shadow6.host-budget.v1''), (''platform'', JStr (platform h)),
      (''memory_bytes'', JInt (memory_bytes h)), (''fd_ceiling'', JInt (fd_ceiling h)),
      (''cpu_units'', JInt (cpu_units h)), (''memory_sources'', jstrs (memory_sources h)),
      (''fd_sources'', jstrs (fd_sources h)), (''cpu_sources'', jstrs (cpu_sources h))] k
      of None \<Rightarrow> JNull | Some v \<Rightarrow> jnorm v)" for k
    unfolding host_to_dict_def by (rule fld_jnorm_jobj) simp
  ultimately show ?thesis
    using host_init_complete [OF assms] by (simp add: host_from_dict_def Let_def jstrs_def comp_def)
qed

subsection \<open>What is captured\<close>

lemma lmin_le: "x \<in> set xs \<Longrightarrow> lmin xs \<le> x"
proof -
  have "fold min ys a \<le> a \<and> (\<forall>y \<in> set ys. fold min ys a \<le> y)" for ys and a :: int
    by (induction ys arbitrary: a) (simp, fastforce)
  then show "x \<in> set xs \<Longrightarrow> lmin xs \<le> x" by (cases xs) auto
qed

lemma cgroup_memory_mono:
  "cgroup_memory t c = Inr c' \<Longrightarrow> set (mem c) \<subseteq> set (mem c') \<and> cpu c' = cpu c"
  by (auto simp: cgroup_memory_def split: option.splits if_splits)

lemma cgroup_cpu_mono:
  "cgroup_cpu t c = Inr c' \<Longrightarrow> mem c' = mem c \<and> cpu c' \<le> cpu c"
  by (auto simp: cgroup_cpu_def Let_def split: if_splits)

lemma cgroup_step_mono:
  "cgroup_step v p c = Inr c' \<Longrightarrow> set (mem c) \<subseteq> set (mem c') \<and> cpu c' \<le> cpu c"
  by (fastforce simp: cgroup_step_def dest: cgroup_memory_mono cgroup_cpu_mono)

lemma cgroup_efold_mono:
  "efold (cgroup_step v) ps c = Inr c' \<Longrightarrow> set (mem c) \<subseteq> set (mem c') \<and> cpu c' \<le> cpu c"
proof (induction ps arbitrary: c)
  case (Cons p ps)
  then obtain c1 where "cgroup_step v p c = Inr c1" "efold (cgroup_step v) ps c1 = Inr c'" by auto
  from cgroup_step_mono [OF this(1)] Cons.IH [OF this(2)] show ?case by (meson order_trans)
qed simp

lemma legacy_mono:
  "legacy_memory v n c = Inr c' \<Longrightarrow> set (mem c) \<subseteq> set (mem c') \<and> cpu c' \<le> cpu c"
  by (auto simp: legacy_memory_def split: option.splits)

text \<open>A limit file of one ancestor, as \<open>cgroup_step\<close> reads it.\<close>

definition memory_limit :: "sysview \<Rightarrow> ustr list \<Rightarrow> int option" where
  "memory_limit v p =
     (case bounded_read (cgroup_file v (p @ [asc ''memory.max''])) of
        Inr (Some t) \<Rightarrow> if t = asc ''max'' then None else (case py_int t of Inr m \<Rightarrow> Some m | _ \<Rightarrow> None)
      | _ \<Rightarrow> None)"

definition cpu_limit :: "sysview \<Rightarrow> ustr list \<Rightarrow> int option" where
  "cpu_limit v p =
     (case bounded_read (cgroup_file v (p @ [asc ''cpu.max''])) of
        Inr (Some t) \<Rightarrow>
          (case split_ws t of
             [q, d] \<Rightarrow> (case (py_int q, py_int d) of (Inr a, Inr b) \<Rightarrow> Some ((a + b - 1) div b) | _ \<Rightarrow> None)
           | _ \<Rightarrow> None)
      | _ \<Rightarrow> None)"

lemma py_int_max: "py_int (asc ''max'') = Inl (ValueError ''invalid literal for int()'')"
  by code_simp

lemma split_ws_Nil: "split_ws [] = []"
  by (simp add: split_ws_def)

lemma cgroup_cpu_limit:
  assumes "cgroup_cpu (Some t) c = Inr c'" and "split_ws t = [q, d]" "py_int q = Inr a" "py_int d = Inr b"
  shows "cpu c' \<le> (a + b - 1) div b"
proof -
  have "q \<noteq> asc ''max''" using assms(3) py_int_max by auto
  moreover have "t \<noteq> []" using assms(2) split_ws_Nil by auto
  ultimately show ?thesis using assms by (auto simp: cgroup_cpu_def)
qed

lemma cgroup_memory_limit:
  assumes "cgroup_memory (Some t) c = Inr c'" and "t \<noteq> asc ''max''" "py_int t = Inr m"
  shows "m \<in> set (mem c')"
  using assms by (auto simp: cgroup_memory_def)

lemma cgroup_step_limits:
  assumes "cgroup_step v p c = Inr c'"
  shows "memory_limit v p = Some m \<Longrightarrow> m \<in> set (mem c')" and "cpu_limit v p = Some n \<Longrightarrow> cpu c' \<le> n"
proof -
  from assms obtain maximum c1 quota where
    m: "bounded_read (cgroup_file v (p @ [asc ''memory.max''])) = Inr maximum"
    and c1: "cgroup_memory maximum c = Inr c1"
    and q: "bounded_read (cgroup_file v (p @ [asc ''cpu.max''])) = Inr quota"
    and c': "cgroup_cpu quota c1 = Inr c'"
    by (auto simp: cgroup_step_def)
  show "m \<in> set (mem c')" if "memory_limit v p = Some m"
  proof -
    from that m obtain t where "maximum = Some t" "t \<noteq> asc ''max''" "py_int t = Inr m"
      by (auto simp: memory_limit_def split: option.splits if_splits sum.splits)
    with c1 cgroup_memory_limit have "m \<in> set (mem c1)" by blast
    with cgroup_cpu_mono [OF c'] show ?thesis by simp
  qed
  show "cpu c' \<le> n" if "cpu_limit v p = Some n"
  proof -
    from that q obtain t x d a b where "quota = Some t" "split_ws t = [x, d]" "py_int x = Inr a" "py_int d = Inr b"
      "n = (a + b - 1) div b"
      by (auto simp: cpu_limit_def split: option.splits list.splits sum.splits)
    with c' cgroup_cpu_limit show ?thesis by blast
  qed
qed

lemma cgroup_efold_limits:
  assumes "efold (cgroup_step v) ps c = Inr c'" and "p \<in> set ps"
  shows "memory_limit v p = Some m \<Longrightarrow> m \<in> set (mem c')" and "cpu_limit v p = Some n \<Longrightarrow> cpu c' \<le> n"
proof -
  from assms obtain qs rs where ps: "ps = qs @ p # rs" by (metis split_list)
  with assms(1) obtain c1 c2 where "cgroup_step v p c1 = Inr c2" and r: "efold (cgroup_step v) rs c2 = Inr c'"
    by (auto simp: efold_append)
  note l = cgroup_step_limits [OF this(1)] and mono = cgroup_efold_mono [OF r]
  show "memory_limit v p = Some m \<Longrightarrow> m \<in> set (mem c')" using l(1) mono by blast
  show "cpu_limit v p = Some n \<Longrightarrow> cpu c' \<le> n" using l(2) mono by (meson order_trans)
qed

lemma captured_parts:
  assumes "capture v = Inr h"
  obtains fds kfds c0 c where "fd_limits_of v = Inr (fds, kfds)" "base_ceilings v (phys_pages v * page_size v) = Inr c0"
    "(if on_linux v then linux_ceilings v (phys_pages v * page_size v) c0 else Inr c0) = Inr c"
    "memory_bytes h = lmin (mem c)" "fd_ceiling h = lmin fds" "cpu_units h = cpu c" "host_ok h"
proof -
  from assms obtain fds kfds c0 c where a: "fd_limits_of v = Inr (fds, kfds)"
    "base_ceilings v (phys_pages v * page_size v) = Inr c0"
    "(if on_linux v then linux_ceilings v (phys_pages v * page_size v) c0 else Inr c0) = Inr c"
    and h: "host_init (JInt (lmin (mem c))) (JInt (lmin fds)) (JInt (cpu c)) (JStr (sys_platform v))
         (map JStr (mem_from c))
         (jstr ''rlimit-nofile'' # (if kfds = None \<or> kfds = Some [] then [] else [jstr ''kernel-nr-open'']))
         (map JStr (cpu_from c)) = Inr h"
    by (auto simp add: capture_def Let_def split: prod.splits)
  note i = host_init_ok [OF h]
  show thesis by (rule that [OF a]) (use i in simp_all)
qed

lemma fd_limits_contain:
  "fd_limits_of v = Inr (fds, kfds) \<Longrightarrow> n \<in> {soft v, hard v} \<Longrightarrow> 0 < n \<Longrightarrow> n \<in> set fds"
  by (auto simp: fd_limits_of_def Let_def split: option.splits if_splits)

lemma base_ceilings_contain:
  "base_ceilings v n = Inr c \<Longrightarrow> n \<in> set (mem c) \<and> (\<forall>a. affinity v = Some a \<longrightarrow> cpu c \<le> a)
     \<and> (\<forall>k. cpu_count v = Some k \<longrightarrow> 0 < k \<longrightarrow> cpu c \<le> k)"
  by (auto simp: base_ceilings_def split: option.splits)

text \<open>Everything the captured budget is bounded by.\<close>

lemma captured_bounds:
  assumes "capture v = Inr h"
  shows "host_ok h" and "memory_bytes h \<le> phys_pages v * page_size v"
    and "n \<in> {soft v, hard v} \<Longrightarrow> 0 < n \<Longrightarrow> fd_ceiling h \<le> n"
    and "affinity v = Some a \<Longrightarrow> cpu_units h \<le> a" and "cpu_count v = Some k \<Longrightarrow> 0 < k \<Longrightarrow> cpu_units h \<le> k"
    and "on_linux v \<Longrightarrow> cgroup_ancestors v = Inr ps \<Longrightarrow> p \<in> set ps \<Longrightarrow> memory_limit v p = Some m \<Longrightarrow> memory_bytes h \<le> m"
    and "on_linux v \<Longrightarrow> cgroup_ancestors v = Inr ps \<Longrightarrow> p \<in> set ps \<Longrightarrow> cpu_limit v p = Some q \<Longrightarrow> cpu_units h \<le> q"
proof -
  from assms obtain fds kfds c0 c where f: "fd_limits_of v = Inr (fds, kfds)"
    and b: "base_ceilings v (phys_pages v * page_size v) = Inr c0"
    and l: "(if on_linux v then linux_ceilings v (phys_pages v * page_size v) c0 else Inr c0) = Inr c"
    and h: "memory_bytes h = lmin (mem c)" "fd_ceiling h = lmin fds" "cpu_units h = cpu c" "host_ok h"
    by (rule captured_parts)
  have mono: "set (mem c0) \<subseteq> set (mem c) \<and> cpu c \<le> cpu c0"
  proof (cases "on_linux v")
    case True
    with l obtain c1 ancestors where e: "efold (cgroup_step v) ancestors c0 = Inr c1"
      "legacy_memory v (phys_pages v * page_size v) c1 = Inr c"
      by (auto simp: linux_ceilings_def)
    from cgroup_efold_mono [OF e(1)] legacy_mono [OF e(2)] show ?thesis by auto
  next
    case False
    with l show ?thesis by simp
  qed
  note base = base_ceilings_contain [OF b]
  show "host_ok h" by (rule h)
  have "phys_pages v * page_size v \<in> set (mem c)" using base mono by blast
  then show "memory_bytes h \<le> phys_pages v * page_size v" unfolding h by (rule lmin_le)
  show "fd_ceiling h \<le> n" if "n \<in> {soft v, hard v}" "0 < n"
    unfolding h by (rule lmin_le) (rule fd_limits_contain [OF f that])
  show "cpu_units h \<le> a" if "affinity v = Some a" using base mono h(3) that by (metis order_trans)
  show "cpu_units h \<le> k" if "cpu_count v = Some k" "0 < k" using base mono h(3) that by (metis order_trans)
  assume linux: "on_linux v" and ps: "cgroup_ancestors v = Inr ps" and p: "p \<in> set ps"
  from linux l ps obtain c1 where e: "efold (cgroup_step v) ps c0 = Inr c1"
    and g: "legacy_memory v (phys_pages v * page_size v) c1 = Inr c"
    by (auto simp: linux_ceilings_def)
  note lim = cgroup_efold_limits [OF e p] and m1 = legacy_mono [OF g]
  show "memory_bytes h \<le> m" if "memory_limit v p = Some m"
    unfolding h by (rule lmin_le) (use lim(1) [OF that] m1 in blast)
  show "cpu_units h \<le> q" if "cpu_limit v p = Some q"
    using lim(2) [OF that] m1 h by linarith
qed

section \<open>The effective limits\<close>

lemma host_ceiling_le:
  "host_ceiling host mc fc native \<le> MAX_INTEGER"
  "mc \<noteq> 0 \<Longrightarrow> host_ceiling host mc fc native \<le> memory_bytes host div 2 div mc"
  "fc \<noteq> 0 \<Longrightarrow> host_ceiling host mc fc native \<le> max 0 (fd_ceiling host - 64) div fc"
  "native = Some n \<Longrightarrow> host_ceiling host mc fc native \<le> n"
  unfolding host_ceiling_def by (rule lmin_le; simp)+

lemma units_fit:
  fixes x a k :: int
  assumes "0 < k" "x \<le> a div k"
  shows "x * k \<le> a"
proof -
  have "x * k \<le> a div k * k" using assms by simp
  also have "\<dots> \<le> a" using assms(1) by (simp add: minus_mod_eq_div_mult [symmetric])
  finally show ?thesis .
qed

text \<open>What a row of the resolution promises, given the declaration of its dimension.\<close>

definition row_ok :: "dimension \<Rightarrow> ustr \<Rightarrow> int option \<Rightarrow> host_budget \<Rightarrow> limit_row \<Rightarrow> bool" where
  "row_ok d mode request host r \<longleftrightarrow>
     1 \<le> effective r \<and> effective r \<le> MAX_INTEGER \<and>
     (\<forall>h. d_hard d = Some h \<longrightarrow> effective r \<le> h) \<and>
     (\<forall>n. d_native d = Some n \<longrightarrow> effective r \<le> n) \<and>
     (0 < d_memory d \<longrightarrow> effective r * d_memory d \<le> memory_bytes host div 2) \<and>
     (0 < d_fds d \<longrightarrow> effective r * d_fds d \<le> max 0 (fd_ceiling host - 64)) \<and>
     operator_request r = request \<and>
     (\<forall>q. request = Some q \<longrightarrow> effective r = q) \<and>
     (request = None \<longrightarrow> mode \<in> {asc ''safe'', asc ''custom''} \<longrightarrow> effective r \<le> d_safe d) \<and>
     (\<not> d_mutable d \<longrightarrow> effective r = d_safe d)"

lemma choose_limit_ok:
  assumes "choose_limit mode request host d = Inr eff"
  shows "1 \<le> eff" "eff \<le> host_ceiling host (d_memory d) (d_fds d) (d_native d)"
    "d_hard d = Some h \<Longrightarrow> eff \<le> h" "request = Some q \<Longrightarrow> eff = q" "\<not> d_mutable d \<Longrightarrow> eff = d_safe d"
    "request = None \<Longrightarrow> mode \<in> {asc ''safe'', asc ''custom''} \<Longrightarrow> eff \<le> d_safe d"
proof -
  let ?c = "host_ceiling host (d_memory d) (d_fds d) (d_native d)"
  let ?h = "case d_hard d of None \<Rightarrow> MAX_INTEGER | Some h \<Rightarrow> h"
  from assms have e: "eff = min (min (candidate mode request host d) ?c) ?h" and p: "1 \<le> eff"
    and m: "d_mutable d \<or> eff = d_safe d"
    and r: "\<not> (case request of None \<Rightarrow> False | Some r \<Rightarrow> (case d_hard d of None \<Rightarrow> False | Some h \<Rightarrow> h < r) \<or> ?c < r)"
    unfolding choose_limit_def Let_def ebind_Inr raise_if_Inr by (simp_all only: not_less Inr_Inl_False sum.inject) blast+
  show "1 \<le> eff" "eff \<le> ?c" by (rule p) (simp add: e)
  show "d_hard d = Some h \<Longrightarrow> eff \<le> h" by (simp add: e)
  show "\<not> d_mutable d \<Longrightarrow> eff = d_safe d" using m by blast
  show "eff = q" if q: "request = Some q"
  proof -
    have "q \<le> ?c" using r q by simp
    moreover have "q \<le> ?h"
      using r q \<open>q \<le> ?c\<close> host_ceiling_le(1) [of host "d_memory d" "d_fds d" "d_native d"]
      by (cases "d_hard d") simp_all
    ultimately show ?thesis by (simp add: e candidate_def q)
  qed
  show "eff \<le> d_safe d" if "request = None" "mode \<in> {asc ''safe'', asc ''custom''}"
    using that by (auto simp: e candidate_def)
qed

lemma resolve_dimension_ok:
  assumes "resolve_dimension t mode overrides host name = Inr r"
  obtains d where "declared t name = Inr d"
    "row_ok d mode (map_option the_int (map_of overrides name)) host r"
proof -
  let ?q = "map_option the_int (map_of overrides name)"
  from assms obtain d where d: "declared t name = Inr d" and c: "choose_limit mode ?q host d = Inr (effective r)"
    and q: "operator_request r = ?q"
    by (auto simp: resolve_dimension_def Let_def)
  note k = choose_limit_ok [OF c] and h = host_ceiling_le [where host = host and mc = "d_memory d" and fc = "d_fds d" and native = "d_native d"]
  have "effective r \<le> memory_bytes host div 2 div d_memory d" if "0 < d_memory d"
    using k(2) h(2) that by simp
  then have m: "effective r * d_memory d \<le> memory_bytes host div 2" if "0 < d_memory d"
    using that units_fit by blast
  have "effective r \<le> max 0 (fd_ceiling host - 64) div d_fds d" if "0 < d_fds d"
    using k(2) h(3) that by simp
  then have f: "effective r * d_fds d \<le> max 0 (fd_ceiling host - 64)" if "0 < d_fds d"
    using that units_fit by blast
  have "row_ok d mode ?q host r"
    unfolding row_ok_def
    by (intro conjI allI impI; (rule k q m f; assumption)?) (use k(2) h(1) h(4) in force)+
  with d show ?thesis by (rule that)
qed

lemma limit_rows_ok:
  assumes "limit_rows t mode overrides host = Inr rows" and "(name, r) \<in> set rows"
  obtains d where "declared t name = Inr d"
    "row_ok d mode (map_option the_int (map_of overrides name)) host r"
proof -
  from assms(1) have "list_all2 (\<lambda>n p. resolve_dimension t mode overrides host n = Inr (snd p) \<and> fst p = n)
      (sort (keys (safe_defaults t))) rows"
    by (auto simp: limit_rows_def emap_Inr elim!: list_all2_mono)
  with assms(2) have "resolve_dimension t mode overrides host name = Inr r"
    by (auto simp: list_all2_conv_all_nth in_set_conv_nth)
  then show ?thesis by (rule resolve_dimension_ok) (rule that)
qed

lemma limit_rows_names:
  assumes "limit_rows t mode overrides host = Inr rows"
  shows "map fst rows = sort (keys (safe_defaults t))" and "set (keys overrides) \<subseteq> fst ` set rows"
proof -
  from assms have "list_all2 (\<lambda>n p. fst p = n) (sort (keys (safe_defaults t))) rows"
    by (auto simp: limit_rows_def emap_Inr elim!: list_all2_mono)
  then show "map fst rows = sort (keys (safe_defaults t))"
    by (simp add: list_all2_conv_all_nth list_eq_iff_nth_eq)
  then have "fst ` set rows = set (keys (safe_defaults t))" by (metis set_map set_sort)
  with assms show "set (keys overrides) \<subseteq> fst ` set rows" by (simp add: limit_rows_def)
qed

section \<open>A locked resolution stays valid\<close>

lemma validate_policy_Inr:
  assumes "validate_policy flt given = Inr p"
  obtains d od mode where "(if given = JNull then safe_policy else given) = JObj d"
    "keys_are [''mode'', ''operator_overrides''] d" "fld d ''mode'' = JStr mode"
    "mode \<in> {asc ''safe'', asc ''elastic'', asc ''custom''}" "fld d ''operator_overrides'' = JObj od"
    "length od \<le> 64" "mode \<noteq> asc ''custom'' \<longrightarrow> od = []"
    "\<forall>(n, v) \<in> set od. 1 \<le> length n \<and> length n \<le> 64 \<and> (\<exists>i. v = JInt i \<and> 1 \<le> i \<and> i \<le> MAX_INTEGER)"
    "json_copy flt (JObj d) = Inr p"
proof -
  let ?v = "if given = JNull then safe_policy else given"
  let ?d = "the_obj ?v" and ?o = "fld (the_obj ?v) ''operator_overrides''"
  have a: "is_obj ?v" "keys_are [''mode'', ''operator_overrides''] ?d"
    "fld ?d ''mode'' \<in> {jstr ''safe'', jstr ''elastic'', jstr ''custom''}" "is_obj ?o" "length (the_obj ?o) \<le> 64"
    "fld ?d ''mode'' \<noteq> jstr ''custom'' \<longrightarrow> the_obj ?o = []"
    and e: "\<forall>p \<in> set (the_obj ?o). (case p of (name, requested) \<Rightarrow>
               ebind (raise_if (\<not> (1 \<le> length name \<and> length name \<le> 64)) (ValueError ''InvalidLimitDimension'')) (\<lambda>_.
               ebind (integer requested) (\<lambda>_. Inr ()))) = Inr ()"
    and c: "json_copy flt ?v = Inr p"
    using assms unfolding validate_policy_def Let_def ebind_Inr raise_if_Inr each_Inr by (simp_all only: de_Morgan_disj not_not not_less simp_thms imp_conv_disj) blast+
  have v: "?v = JObj ?d" by (rule is_kindE(1) [OF a(1)])
  have o: "?o = JObj (the_obj ?o)" by (rule is_kindE(1) [OF a(4)])
  from a(3) obtain mode where m: "fld ?d ''mode'' = JStr mode" "mode \<in> {asc ''safe'', asc ''elastic'', asc ''custom''}"
    by blast
  show thesis
    by (rule that [OF v a(2) m o a(5)]) (use a(6) m(1) e c v in \<open>auto simp: case_prod_beta\<close>)
qed

lemma validate_policy_stable:
  assumes "validate_policy flt given = Inr p" and "jv_ok given"
  shows "validate_policy flt p = Inr p" and "jv_ok p" and "jnorm p = p"
    and "\<exists>mode od. fld (the_obj p) ''mode'' = JStr mode \<and> ascii mode \<and> fld (the_obj p) ''operator_overrides'' = JObj od \<and>
      (\<forall>(n, v) \<in> set od. \<exists>i. v = JInt i \<and> 1 \<le> i \<and> i \<le> MAX_INTEGER)"
proof -
  let ?v = "if given = JNull then safe_policy else given"
  have jv: "jv_ok ?v"
    using assms(2) by (simp add: safe_policy_def jobj_def asc_def is_scalar_def is_surrogate_def)
  from assms(1) obtain d od mode where v: "?v = JObj d" and k: "keys_are [''mode'', ''operator_overrides''] d"
    and m: "fld d ''mode'' = JStr mode" "mode \<in> {asc ''safe'', asc ''elastic'', asc ''custom''}"
    and o: "fld d ''operator_overrides'' = JObj od" "length od \<le> 64" "mode \<noteq> asc ''custom'' \<longrightarrow> od = []"
    and e: "\<forall>(n, v) \<in> set od. 1 \<le> length n \<and> length n \<le> 64 \<and> (\<exists>i. v = JInt i \<and> 1 \<le> i \<and> i \<le> MAX_INTEGER)"
    and c: "json_copy flt (JObj d) = Inr p"
    by (rule validate_policy_Inr)
  have jd: "jv_ok (JObj d)" using jv v by simp
  then have p: "p = jnorm (JObj d)" using c by (simp add: json_copy_ok del: jnorm.simps)
  show jp: "jv_ok p" using jd p by (metis jv_ok_jnorm)
  show np: "jnorm p = p" using jnorm_idem [OF jd] p by simp
  have dd: "distinct (map fst d)" using jd by simp
  define od' where "od' = the_obj (jnorm (JObj od))"
  have "fld (the_obj p) ''operator_overrides'' = jnorm (JObj od)"
    unfolding p fld_jnorm [OF dd] o(1) ..
  then have o': "fld (the_obj p) ''operator_overrides'' = JObj od'"
    by (simp add: od'_def)
  have m': "fld (the_obj p) ''mode'' = JStr mode"
    unfolding p fld_jnorm [OF dd] m(1) by simp
  have s': "set od' = (\<lambda>(n, v). (n, jnorm v)) ` set od" and l': "length od' = length od"
    by (simp_all add: od'_def)
  have e': "\<forall>(n, v) \<in> set od'. 1 \<le> length n \<and> length n \<le> 64 \<and> (\<exists>i. v = JInt i \<and> 1 \<le> i \<and> i \<le> MAX_INTEGER)"
    using e unfolding s' by fastforce
  have "p \<noteq> JNull" "is_obj p" by (simp_all add: p)
  moreover have "keys_are [''mode'', ''operator_overrides''] (the_obj p)"
    using k unfolding p keys_are_def keys_jnorm .
  moreover have "json_copy flt p = Inr p" using jp np by (simp add: json_copy_ok)
  moreover have "each (\<lambda>(name, requested).
               ebind (raise_if (\<not> (1 \<le> length name \<and> length name \<le> 64)) (ValueError ''InvalidLimitDimension'')) (\<lambda>_.
               ebind (integer requested) (\<lambda>_. Inr ()))) od' = Inr ()"
    using e' by (fastforce simp: case_prod_beta)
  moreover have "mode \<noteq> asc ''custom'' \<longrightarrow> od' = []" using o(3) l' by auto
  ultimately show "validate_policy flt p = Inr p"
    using m(2) o(2) l' by (auto simp add: validate_policy_def Let_def o' m')
  have "ascii mode" using m(2) by (auto simp: asc_def)
  then show "\<exists>mode od. fld (the_obj p) ''mode'' = JStr mode \<and> ascii mode \<and> fld (the_obj p) ''operator_overrides'' = JObj od \<and>
      (\<forall>(n, v) \<in> set od. \<exists>i. v = JInt i \<and> 1 \<le> i \<and> i \<le> MAX_INTEGER)"
    using m' o' e' by (intro exI [of _ mode] exI [of _ od']) blast
qed

lemma jv_ok_int: "- MAX_INTEGER \<le> i \<Longrightarrow> i \<le> MAX_INTEGER \<Longrightarrow> jv_ok (JInt i)"
  using portable_int_short [of i] by (simp add: MAX_INTEGER_def max_portable_def)

lemma jv_ok_asc: "ascii (asc k) \<Longrightarrow> jv_ok (jstr k)"
  by (simp add: ascii_scalars)

lemma ascii_asc: "ascii (asc k) \<longleftrightarrow> list_all (\<lambda>c. of_char c < (128 :: nat)) k"
  by (simp add: ascii_def asc_def list.pred_map comp_def)

lemma jv_ok_jobj:
  "distinct (map fst kvs) \<Longrightarrow> \<forall>(k, v) \<in> set kvs. ascii (asc k) \<and> jv_ok v \<Longrightarrow> jv_ok (jobj kvs)"
  by (auto simp: jobj_def distinct_literal list_all_iff ascii_scalars simp del: map_map)

lemma jv_ok_rows:
  assumes "distinct (map fst rows)" and "\<forall>(n, r) \<in> set rows. scalars n \<and> jv_ok (f r)"
  shows "jv_ok (JObj (map (\<lambda>(n, r). (n, f r)) rows))"
  using assms by (auto simp: list_all_iff map_fst_value simp del: map_map)

lemma optional_integer_Inr:
  "optional_integer v = Inr x \<Longrightarrow> x = None \<or> (\<exists>i. x = Some i \<and> 1 \<le> i \<and> i \<le> MAX_INTEGER)"
  by (auto simp: optional_integer_def split: if_splits)

lemma capacity_of_Inr:
  "capacity_of v = Inr (mc, fc, native, mutable) \<Longrightarrow>
     native = None \<or> (\<exists>i. native = Some i \<and> 1 \<le> i \<and> i \<le> MAX_INTEGER)"
  by (auto simp: capacity_of_def Let_def dest: optional_integer_Inr)

lemma declared_ranges:
  assumes "declared t name = Inr d"
  shows "1 \<le> d_safe d" "d_safe d \<le> MAX_INTEGER" "1 \<le> d_recommended d" "d_recommended d \<le> MAX_INTEGER"
    "d_hard d = None \<or> (\<exists>i. d_hard d = Some i \<and> 1 \<le> i \<and> i \<le> MAX_INTEGER)"
    "d_native d = None \<or> (\<exists>i. d_native d = Some i \<and> 1 \<le> i \<and> i \<le> MAX_INTEGER)"
  using assms by (auto simp: declared_def dest: optional_integer_Inr capacity_of_Inr)

lemma row_jv_ok:
  assumes r: "resolve_dimension t mode overrides host name = Inr r" and mode: "ascii mode"
    and o: "\<forall>(n, v) \<in> set overrides. \<exists>i. v = JInt i \<and> 1 \<le> i \<and> i \<le> MAX_INTEGER"
    and eb: "jv_ok (JObj (enforced_by t))"
  shows "jv_ok (row_json r)" and "jv_ok (JInt (effective r))"
proof -
  from r obtain d ev where d: "declared t name = Inr d"
    and c: "choose_limit mode (operator_request r) host d = Inr (effective r)"
    and ev: "map_of (enforced_by t) name = Some ev" "row_enforced_by r = the_str ev" "is_str ev"
    and f: "operator_request r = map_option the_int (map_of overrides name)" "safe_default r = d_safe d"
      "recommended r = d_recommended d" "host_derived_ceiling r = host_ceiling host (d_memory d) (d_fds d) (d_native d)"
      "hard_protocol_limit r = d_hard d" "implementation_ceiling r = d_native d"
      "row_source r = mode \<or> row_source r = asc ''operator''"
    by (auto simp: resolve_dimension_def Let_def item_def split: option.splits)
  note k = choose_limit_ok [OF c] and g = declared_ranges [OF d]
    and h = host_ceiling_le(1) [of host "d_memory d" "d_fds d" "d_native d"]
  have q: "jv_ok (jopt x)" if "x = None \<or> (\<exists>i. x = Some i \<and> 1 \<le> i \<and> i \<le> MAX_INTEGER)" for x
    using that by (auto simp: jopt_def jv_ok_int simp del: jv_ok.simps(3))
  have "operator_request r = None \<or> (\<exists>i. operator_request r = Some i \<and> 1 \<le> i \<and> i \<le> MAX_INTEGER)"
    unfolding f(1) using o by (cases "map_of overrides name") (fastforce dest: map_of_SomeD)+
  note opt = q [OF this] q [OF g(5)] q [OF g(6)]
  show e: "jv_ok (JInt (effective r))" using k(1,2) h by (intro jv_ok_int) linarith+
  have i: "jv_ok (JInt (safe_default r))" "jv_ok (JInt (recommended r))" "jv_ok (JInt (host_derived_ceiling r))"
    unfolding f(2-4) using g h k(1,2) by (intro jv_ok_int; linarith)+
  have "jv_ok ev" using eb ev(1) by (auto simp: list_all_iff dest: map_of_SomeD)
  then have s: "jv_ok (JStr (row_enforced_by r))" using ev(2,3) is_kindE(3) by metis
  have u: "jv_ok (JStr (row_source r))" using f(7) mode by (auto simp: ascii_scalars asc_def is_scalar_def is_surrogate_def)
  show "jv_ok (row_json r)"
    unfolding row_json_def using e i s u opt f(5,6)
    by (intro jv_ok_jobj) (simp_all add: ascii_asc jv_ok_asc del: jv_ok.simps)
qed

lemma sha256_of_ascii: "sha256_of v = Inr s \<Longrightarrow> ascii s"
  by (auto simp: sha256_of_def sha256_hex_def ascii_to_hex) (simp add: asc_def)

lemma table_jv_ok: "table v = Inr d \<Longrightarrow> jv_ok v \<Longrightarrow> jv_ok (JObj d)"
  by (induction v rule: table.induct) auto

lemma model_tables_jv_ok:
  assumes "model_tables m = Inr t" and "jv_ok m"
  shows "jv_ok (JObj (safe_defaults t))" and "jv_ok (JObj (enforced_by t))"
proof -
  from assms(1) have t: "table (fld (the_obj m) ''safe_defaults'') = Inr (safe_defaults t)"
    "table (fld (the_obj m) ''enforced_by'') = Inr (enforced_by t)" and o: "is_obj m"
    by (auto simp: model_tables_def Let_def)
  have "jv_ok (JObj (the_obj m))" using assms(2) is_kindE(1) [OF o] by simp
  note j = jv_ok_fld [OF this]
  show "jv_ok (JObj (safe_defaults t))" "jv_ok (JObj (enforced_by t))"
    using table_jv_ok [OF t(1) j] table_jv_ok [OF t(2) j] by blast+
qed

lemma resolve_parts:
  assumes "resolve flt profile given host = Inr doc"
  obtains policy t rows pid digest where "validate_policy flt given = Inr policy"
    "model_tables (fld profile ''limit_model'') = Inr t"
    "limit_rows t (the_str (fld (the_obj policy) ''mode'')) (the_obj (fld (the_obj policy) ''operator_overrides'')) host = Inr rows"
    "map_of profile (asc ''id'') = Some pid" "sha256_of (fld profile ''limit_model'') = Inr digest"
    "doc = resolution_json pid (the_str (fld (the_obj policy) ''mode'')) policy host rows digest"
  using assms by (auto simp: resolve_def Let_def item_def split: option.splits)

lemma resolution_jv_ok:
  assumes r: "resolve flt profile given host = Inr doc" and p: "jv_ok (JObj profile)" and g: "jv_ok given"
    and h: "jv_ok (host_to_dict host)"
  shows "jv_ok doc"
proof -
  from r obtain policy t rows pid digest where v: "validate_policy flt given = Inr policy"
    and t: "model_tables (fld profile ''limit_model'') = Inr t"
    and rows: "limit_rows t (the_str (fld (the_obj policy) ''mode'')) (the_obj (fld (the_obj policy) ''operator_overrides'')) host = Inr rows"
    and pid: "map_of profile (asc ''id'') = Some pid" and dg: "sha256_of (fld profile ''limit_model'') = Inr digest"
    and doc: "doc = resolution_json pid (the_str (fld (the_obj policy) ''mode'')) policy host rows digest"
    by (rule resolve_parts)
  note pol = validate_policy_stable [OF v g] and tj = model_tables_jv_ok [OF t jv_ok_fld [OF p]]
  from pol(4) obtain mode od where m: "fld (the_obj policy) ''mode'' = JStr mode" "ascii mode"
    and o: "fld (the_obj policy) ''operator_overrides'' = JObj od" "\<forall>(n, v) \<in> set od. \<exists>i. v = JInt i \<and> 1 \<le> i \<and> i \<le> MAX_INTEGER"
    by blast
  from rows m o have rows': "limit_rows t mode od host = Inr rows" by simp
  have names: "map fst rows = sort (keys (safe_defaults t))" by (rule limit_rows_names [OF rows'])
  then have dist: "distinct (map fst rows)" using tj(1) by (simp add: keys_def)
  have sc: "scalars n" if "(n, r) \<in> set rows" for n r
  proof -
    from that have "n \<in> set (map fst rows)" by force
    then have "n \<in> fst ` set (safe_defaults t)" by (simp add: names keys_def)
    then show ?thesis using tj(1) by (force simp: list_all_iff)
  qed
  have rj: "jv_ok (row_json r) \<and> jv_ok (JInt (effective r))" if "(n, r) \<in> set rows" for n r
  proof -
    from rows' have "list_all2 (\<lambda>n p. resolve_dimension t mode od host n = Inr (snd p)) (sort (keys (safe_defaults t))) rows"
      by (auto simp: limit_rows_def emap_Inr elim!: list_all2_mono)
    with that obtain n' where "resolve_dimension t mode od host n' = Inr r"
      by (auto simp: list_all2_conv_all_nth in_set_conv_nth)
    from row_jv_ok [OF this m(2) o(2) tj(2)] show ?thesis by blast
  qed
  have d: "jv_ok (JObj (map (\<lambda>(n, r). (n, row_json r)) rows))" "jv_ok (JObj (map (\<lambda>(n, r). (n, JInt (effective r))) rows))"
    using jv_ok_rows [OF dist, of row_json] jv_ok_rows [OF dist, of "\<lambda>r. JInt (effective r)"] sc rj by blast+
  have "jv_ok pid" using p pid by (auto simp: list_all_iff dest: map_of_SomeD)
  moreover have "jv_ok (JStr mode)" "jv_ok (JStr digest)"
    using m(2) sha256_of_ascii [OF dg] by (simp_all add: ascii_scalars)
  ultimately show ?thesis
    unfolding doc resolution_json_def m(1) the_kind using d pol(2) h
    by (intro jv_ok_jobj) (simp_all add: ascii_asc jv_ok_asc del: jv_ok.simps)
qed

lemma locked_revalidates:
  assumes r: "resolve flt profile given host = Inr doc" and p: "jv_ok (JObj profile)" and g: "jv_ok given"
    and h: "host_ok host" "jv_ok (host_to_dict host)"
  shows "resolution_to_dict flt doc = Inr (jnorm doc)"
    and "validate flt (jnorm doc) profile JNull None = Inr (jnorm doc)"
proof -
  have j: "jv_ok doc" by (rule resolution_jv_ok [OF r p g h(2)])
  then show c: "resolution_to_dict flt doc = Inr (jnorm doc)"
    by (simp add: resolution_to_dict_def json_copy_ok)
  from r obtain policy t rows pid digest where v: "validate_policy flt given = Inr policy"
    and doc: "doc = resolution_json pid (the_str (fld (the_obj policy) ''mode'')) policy host rows digest"
    by (rule resolve_parts)
  note pol = validate_policy_stable [OF v g]
  let ?kvs = "[(''schema'', jstr ''shadow6.limit-resolution.v1''), (''profile'', pid),
      (''mode'', JStr (the_str (fld (the_obj policy) ''mode''))),
      (''policy'', policy), (''host_budget'', host_to_dict host),
      (''dimensions'', JObj (map (\<lambda>(n, r). (n, row_json r)) rows)),
      (''effective_limits'', JObj (map (\<lambda>(n, r). (n, JInt (effective r))) rows)),
      (''model_digest'', JStr digest)]"
  have f: "fld (the_obj (jnorm doc)) k = (case map_of ?kvs k of None \<Rightarrow> JNull | Some v \<Rightarrow> jnorm v)" for k
    unfolding doc resolution_json_def by (rule fld_jnorm_jobj) simp
  have k: "is_obj doc" "keys_are resolution_fields (the_obj (jnorm doc))"
    unfolding doc resolution_json_def keys_are_def
    by (simp_all only: keys_jnorm_jobj is_obj_jnorm is_obj_jobj) (simp add: names_def resolution_fields_def)
  have hf: "host_from_dict (fld (the_obj (jnorm doc)) ''host_budget'') = Inr host"
    unfolding f using host_dict_roundtrip [OF h(1)] by simp
  have pf: "fld (the_obj (jnorm doc)) ''policy'' = policy"
    unfolding f using pol(3) by simp
  have again: "resolve flt profile policy host = Inr doc"
    using r by (simp add: resolve_def v pol(1))
  have can: "canonical (jnorm doc) = Inr (map bt (json_text doc))"
    unfolding canonical_def using j by (simp add: json_bytes_ok)
  show "validate flt (jnorm doc) profile JNull None = Inr (jnorm doc)"
    by (simp add: validate_def Let_def k hf pf again c can)
qed

lemma validate_sound:
  assumes "validate flt resolution profile policy current = Inr doc"
  obtains d host plain where "resolution = JObj d" "host_from_dict (fld d ''host_budget'') = Inr host"
    "resolve flt profile (if policy \<noteq> JNull then policy else fld d ''policy'') host = Inr plain"
    "resolution_to_dict flt plain = Inr doc" "canonical doc = canonical resolution"
    "\<And>now. current = Some now \<Longrightarrow> now = Inr host"
proof -
  from assms obtain host plain eb where a: "is_obj resolution"
    "host_from_dict (fld (the_obj resolution) ''host_budget'') = Inr host"
    "resolve flt profile (if policy \<noteq> JNull then policy else fld (the_obj resolution) ''policy'') host = Inr plain"
    "resolution_to_dict flt plain = Inr doc" "canonical doc = Inr eb" "canonical resolution = Inr eb"
    and cur: "(case current of None \<Rightarrow> Inr ()
             | Some now \<Rightarrow> ebind now (\<lambda>h. raise_if (host_to_dict h \<noteq> host_to_dict host) (ValueError ''HostBudgetDrift''))) = Inr ()"
    by (auto simp: validate_def Let_def)
  have inj: "h = host" if "host_to_dict h = host_to_dict host" for h
  proof -
    have ji: "jstrs a = jstrs b \<longleftrightarrow> a = b" for a b
      by (simp add: jstrs_def inj_map_eq_map inj_on_def)
    show ?thesis using that by (simp add: host_to_dict_def jobj_def ji)
  qed
  have "now = Inr host" if "current = Some now" for now
    using cur that inj by (cases now) auto
  with a is_kindE(1) [OF a(1)] show ?thesis
    by (intro that [of "the_obj resolution" host plain]) simp_all
qed

section \<open>The plan fits the host\<close>

lemma fold_max_ge: "x \<in> set xs \<Longrightarrow> x \<le> fold max xs (a :: int)"
proof -
  have "a \<le> fold max ys a \<and> (\<forall>y \<in> set ys. y \<le> fold max ys a)" for ys and a :: int
    by (induction ys arbitrary: a) (simp, fastforce)
  then show "x \<in> set xs \<Longrightarrow> x \<le> fold max xs a" by blast
qed

lemma resolve_components_Inr:
  assumes "resolve_components iv host fdv = Inr doc"
  obtains inputs process_fds rows where "iv = JObj inputs" "fdv = JInt process_fds"
    "plan_components inputs = Inr rows"
    "\<forall>(n, c) \<in> set rows. estimated_fds c \<le> process_fds"
    "sum_list (map (estimated_fds \<circ> snd) rows) \<le> fd_ceiling host"
    "sum_list (map (estimated_memory \<circ> snd) rows) \<le> memory_bytes host div 2"
    "fld (the_obj doc) ''components'' = jobj (map (\<lambda>(n, c). (n, jobj (component_row c))) rows)"
proof -
  from assms obtain process_fds rows where o: "is_obj iv" and a: "fdv = JInt process_fds"
    "plan_components (the_obj iv) = Inr rows"
    and peak: "fold max (map (estimated_fds \<circ> snd) rows) 0 \<le> process_fds"
    and b: "sum_list (map (estimated_fds \<circ> snd) rows) \<le> fd_ceiling host"
    "sum_list (map (estimated_memory \<circ> snd) rows) \<le> memory_bytes host div 2"
    and d: "fld (the_obj doc) ''components'' = jobj (map (\<lambda>(n, c). (n, jobj (component_row c))) rows)"
    by (auto simp: resolve_components_def Let_def fld_jobj not_less)
  have "estimated_fds c \<le> process_fds" if "(n, c) \<in> set rows" for n c
  proof -
    have "estimated_fds c \<in> set (map (estimated_fds \<circ> snd) rows)" using that by force
    from fold_max_ge [OF this, of 0] peak show ?thesis by linarith
  qed
  then have f: "\<forall>(n, c) \<in> set rows. estimated_fds c \<le> process_fds" by blast
  show ?thesis by (rule that [OF is_kindE(1) [OF o] a f b d])
qed

section \<open>Properties\<close>

text \<open>A small host and profile on which the theorems are instantiated.\<close>

definition sample_host :: host_budget where
  "sample_host =
     \<lparr>memory_bytes = 4096, fd_ceiling = 1024, cpu_units = 2, platform = asc ''linux'',
      memory_sources = [asc ''physical-ram''], fd_sources = [asc ''rlimit-nofile''],
      cpu_sources = [asc ''online-cpus'']\<rparr>"

definition sample_model :: pyval where
  "sample_model = jobj
     [(''schema'', jstr ''shadow6.profile-limits.v1''),
      (''hard_protocol_limits'', jobj [(''peers'', JInt 64)]),
      (''safe_defaults'', jobj [(''peers'', JInt 8)]),
      (''recommended_limits'', jobj [(''peers'', JInt 16)]),
      (''capacity_models'', jobj [(''peers'', jobj
         [(''memory_per_unit'', JInt 64), (''fds_per_unit'', JInt 2), (''native_ceiling'', JNull),
          (''mutable'', JBool True)])]),
      (''enforced_by'', jobj [(''peers'', jstr ''native'')])]"

definition sample_profile :: pydict where
  "sample_profile = the_obj (jobj [(''id'', jstr ''p''), (''limit_model'', sample_model)])"

definition sample_policy :: pyval where
  "sample_policy = jobj [(''mode'', jstr ''custom''), (''operator_overrides'', jobj [(''peers'', JInt 24)])]"

definition sample_tables :: limit_tables where
  "sample_tables = \<lparr>hard_limits = [(asc ''peers'', JInt 64)], safe_defaults = [(asc ''peers'', JInt 8)],
     recommended_limits = [(asc ''peers'', JInt 16)],
     capacity_models = [(asc ''peers'', jobj
         [(''memory_per_unit'', JInt 64), (''fds_per_unit'', JInt 2), (''native_ceiling'', JNull),
          (''mutable'', JBool True)])],
     enforced_by = [(asc ''peers'', jstr ''native'')]\<rparr>"

definition sample_row :: limit_row where
  "sample_row = \<lparr>safe_default = 8, recommended = 16, operator_request = Some 24, host_derived_ceiling = 32,
     hard_protocol_limit = Some 64, implementation_ceiling = None, effective = 24,
     row_source = asc ''operator'', row_enforced_by = asc ''native''\<rparr>"

lemmas jv_ok_doc = jv_ok_jobj jv_ok_asc jv_ok_int ascii_asc

lemma sample_jv_ok:
  "jv_ok sample_policy" "jv_ok sample_model" "jv_ok (JObj sample_profile)" "jv_ok (host_to_dict sample_host)"
proof -
  show m: "jv_ok sample_model"
    by (simp add: sample_model_def jv_ok_doc MAX_INTEGER_def del: jv_ok.simps(3-))
  show "jv_ok sample_policy"
    by (simp add: sample_policy_def jv_ok_doc MAX_INTEGER_def del: jv_ok.simps(3-))
  have "jv_ok (jobj [(''id'', jstr ''p''), (''limit_model'', sample_model)])"
    using m by (simp add: jv_ok_doc del: jv_ok.simps)
  then show "jv_ok (JObj sample_profile)"
    unfolding sample_profile_def by (simp add: jobj_def)
  have "jv_ok (jstrs [asc k])" if "ascii (asc k)" for k
    using that by (simp add: jstrs_def ascii_scalars)
  then show "jv_ok (host_to_dict sample_host)"
    by (simp add: host_to_dict_def sample_host_def jv_ok_doc MAX_INTEGER_def del: jv_ok.simps)
qed

lemma sample_resolution:
  "resolve (\<lambda>_. None) sample_profile sample_policy sample_host =
     ebind (sha256_of sample_model) (\<lambda>digest.
       Inr (resolution_json (jstr ''p'') (asc ''custom'') sample_policy sample_host [(asc ''peers'', sample_row)] digest))"
proof -
  have j: "jnorm sample_policy = sample_policy" by code_simp
  have "\<not> (\<not> is_obj sample_policy \<or> \<not> keys_are [''mode'', ''operator_overrides''] (the_obj sample_policy)
       \<or> fld (the_obj sample_policy) ''mode'' \<notin> {jstr ''safe'', jstr ''elastic'', jstr ''custom''}
       \<or> \<not> is_obj (fld (the_obj sample_policy) ''operator_overrides'')
       \<or> 64 < length (the_obj (fld (the_obj sample_policy) ''operator_overrides'')))"
    "sample_policy \<noteq> JNull" "fld (the_obj sample_policy) ''mode'' = jstr ''custom''"
    "the_obj (fld (the_obj sample_policy) ''operator_overrides'') = [(asc ''peers'', JInt 24)]"
    by code_simp+
  then have "validate_policy (\<lambda>_. None) sample_policy = Inr sample_policy"
    by (simp add: validate_policy_def Let_def json_copy_ok j sample_jv_ok MAX_INTEGER_def integer_from_def)
  moreover have "model_tables (fld sample_profile ''limit_model'') = Inr sample_tables" by code_simp
  moreover have "limit_rows sample_tables (asc ''custom'') [(asc ''peers'', JInt 24)] sample_host
      = Inr [(asc ''peers'', sample_row)]" by code_simp
  moreover have "fld sample_profile ''limit_model'' = sample_model" "item sample_profile (asc ''id'') = Inr (jstr ''p'')"
    "the_str (fld (the_obj sample_policy) ''mode'') = asc ''custom''"
    "the_obj (fld (the_obj sample_policy) ''operator_overrides'') = [(asc ''peers'', JInt 24)]"
    by code_simp+
  ultimately show ?thesis by (simp add: resolve_def Let_def)
qed

lemma sample_resolves: "\<exists>doc. resolve (\<lambda>_. None) sample_profile sample_policy sample_host = Inr doc"
proof -
  have "canonical sample_model = Inr (map bt (json_text sample_model))"
    unfolding canonical_def by (rule json_bytes_ok) (rule sample_jv_ok)
  then show ?thesis by (simp add: sample_resolution sha256_of_def)
qed

text \<open>C16. A resolution has one row per declared dimension. Its effective limit is at least 1 and
  within the protocol maximum, the implementation's ceiling and the part of the host's memory
  and descriptors the capacity model reserves for it; it is exactly what the operator asked for
  when the operator asked, never above the safe default in safe mode, and the safe default
  where the implementation cannot change it.\<close>

theorem limits_respected:
  assumes "resolve flt profile given host = Inr doc" and "jv_ok given"
  shows "\<exists>policy t rows mode overrides.
     validate_policy flt given = Inr policy \<and> model_tables (fld profile ''limit_model'') = Inr t \<and>
     fld (the_obj policy) ''mode'' = JStr mode \<and> fld (the_obj policy) ''operator_overrides'' = JObj overrides \<and>
     fld (the_obj doc) ''effective_limits'' = JObj (map (\<lambda>(n, r). (n, JInt (effective r))) rows) \<and>
     map fst rows = sort (keys (safe_defaults t)) \<and>
     (\<forall>(n, r) \<in> set rows. \<exists>d. declared t n = Inr d \<and>
        row_ok d mode (map_option the_int (map_of overrides n)) host r)"
proof -
  from assms(1) obtain policy t rows pid digest where v: "validate_policy flt given = Inr policy"
    and t: "model_tables (fld profile ''limit_model'') = Inr t"
    and rows: "limit_rows t (the_str (fld (the_obj policy) ''mode'')) (the_obj (fld (the_obj policy) ''operator_overrides'')) host = Inr rows"
    and doc: "doc = resolution_json pid (the_str (fld (the_obj policy) ''mode'')) policy host rows digest"
    by (rule resolve_parts)
  from validate_policy_stable(4) [OF v assms(2)] obtain mode overrides where
    m: "fld (the_obj policy) ''mode'' = JStr mode" "fld (the_obj policy) ''operator_overrides'' = JObj overrides"
    by blast
  with rows have r: "limit_rows t mode overrides host = Inr rows" by simp
  have "\<forall>(n, r) \<in> set rows. \<exists>d. declared t n = Inr d \<and> row_ok d mode (map_option the_int (map_of overrides n)) host r"
    using limit_rows_ok [OF r] by blast
  moreover have "fld (the_obj doc) ''effective_limits'' = JObj (map (\<lambda>(n, r). (n, JInt (effective r))) rows)"
    by (simp add: doc resolution_json_def fld_jobj)
  ultimately show ?thesis using v t m limit_rows_names(1) [OF r] by blast
qed

theorem limits_respected_witness:
  "\<exists>doc policy t rows mode overrides.
     resolve (\<lambda>_. None) sample_profile sample_policy sample_host = Inr doc \<and>
     fld (the_obj doc) ''effective_limits'' = JObj (map (\<lambda>(n, r). (n, JInt (effective r))) rows) \<and>
     map fst rows = sort (keys (safe_defaults t)) \<and>
     (\<forall>(n, r) \<in> set rows. \<exists>d. declared t n = Inr d \<and>
        row_ok d mode (map_option the_int (map_of overrides n)) sample_host r)"
proof -
  obtain doc where d: "resolve (\<lambda>_. None) sample_profile sample_policy sample_host = Inr doc"
    using sample_resolves by blast
  from limits_respected [OF d sample_jv_ok(1)] d show ?thesis by blast
qed

text \<open>C17. A resolution that was locked is accepted by \<open>validate\<close> unchanged, with the policy and
  the host budget it carries: writing it out, reading it back and resolving again gives the
  same document.\<close>

theorem locked_resolution_validates:
  assumes "resolve flt profile given host = Inr doc" and "jv_ok (JObj profile)" and "jv_ok given"
    and "host_ok host" and "jv_ok (host_to_dict host)"
  shows "\<exists>locked. resolution_to_dict flt doc = Inr locked \<and> validate flt locked profile JNull None = Inr locked"
  using locked_revalidates [OF assms] by blast

theorem locked_resolution_validates_witness:
  "\<exists>doc locked. resolve (\<lambda>_. None) sample_profile sample_policy sample_host = Inr doc \<and>
     resolution_to_dict (\<lambda>_. None) doc = Inr locked \<and>
     validate (\<lambda>_. None) locked sample_profile JNull None = Inr locked"
proof -
  obtain doc where d: "resolve (\<lambda>_. None) sample_profile sample_policy sample_host = Inr doc"
    using sample_resolves by blast
  have "host_ok sample_host" by (simp add: host_ok_def sample_host_def MAX_INTEGER_def)
  from locked_resolution_validates [OF d sample_jv_ok(3,1) this sample_jv_ok(4)] d show ?thesis by blast
qed

text \<open>C18. \<open>validate\<close> accepts a resolution only when resolving the profile again, on the host budget
  the resolution was locked with, gives a document with the same canonical bytes; and when the
  caller asks for the current host to be compared, only when that host still has exactly the
  locked budget.\<close>

theorem accepted_resolution_is_recomputed:
  assumes "validate flt resolution profile policy current = Inr doc"
  shows "\<exists>d host plain. resolution = JObj d \<and> host_from_dict (fld d ''host_budget'') = Inr host \<and>
     resolve flt profile (if policy \<noteq> JNull then policy else fld d ''policy'') host = Inr plain \<and>
     resolution_to_dict flt plain = Inr doc \<and> canonical doc = canonical resolution \<and>
     (\<forall>now. current = Some now \<longrightarrow> now = Inr host)"
proof (rule validate_sound [OF assms], goal_cases)
  case (1 d host plain)
  from 1(6) have "\<forall>now. current = Some now \<longrightarrow> now = Inr host" by simp
  with 1(1-5) show ?case by (intro exI conjI)
qed

theorem accepted_resolution_is_recomputed_witness:
  "\<exists>locked doc d host plain. validate (\<lambda>_. None) locked sample_profile JNull None = Inr doc \<and>
     locked = JObj d \<and> host_from_dict (fld d ''host_budget'') = Inr host \<and>
     resolve (\<lambda>_. None) sample_profile (fld d ''policy'') host = Inr plain \<and> canonical doc = canonical locked"
proof -
  obtain doc where d: "resolve (\<lambda>_. None) sample_profile sample_policy sample_host = Inr doc"
    using sample_resolves by blast
  have "host_ok sample_host" by (simp add: host_ok_def sample_host_def MAX_INTEGER_def)
  then have "validate (\<lambda>_. None) (jnorm doc) sample_profile JNull None = Inr (jnorm doc)"
    by (intro locked_revalidates(2) [OF d] sample_jv_ok)
  note v = this
  from accepted_resolution_is_recomputed [OF v] obtain d host plain where
    "jnorm doc = JObj d" "host_from_dict (fld d ''host_budget'') = Inr host"
    "resolve (\<lambda>_. None) sample_profile (fld d ''policy'') host = Inr plain"
    by auto
  with v show ?thesis by (intro exI [of _ "jnorm doc"] exI conjI refl) assumption+
qed

text \<open>C19. An accepted component plan fits the host: no component's descriptor estimate exceeds the
  per-process ceiling, the estimates together stay within the host's descriptors and half of
  its memory, and the plan in the document is the one that was summed.\<close>

theorem component_plan_fits:
  assumes "resolve_components iv host fdv = Inr doc"
  shows "\<exists>inputs process_fds rows. iv = JObj inputs \<and> fdv = JInt process_fds \<and>
     plan_components inputs = Inr rows \<and>
     fld (the_obj doc) ''components'' = jobj (map (\<lambda>(n, c). (n, jobj (component_row c))) rows) \<and>
     (\<forall>(n, c) \<in> set rows. estimated_fds c \<le> process_fds) \<and>
     sum_list (map (estimated_fds \<circ> snd) rows) \<le> fd_ceiling host \<and>
     sum_list (map (estimated_memory \<circ> snd) rows) \<le> memory_bytes host div 2"
proof (rule resolve_components_Inr [OF assms], goal_cases)
  case (1 inputs process_fds rows)
  then show ?case by (intro exI conjI)
qed

definition sample_inputs :: pyval where
  "sample_inputs = jobj [(''gate'', jobj [(''limits'', jobj [(''max_connections'', JInt 1), (''max_frame_bytes'', JInt 1024)])])]"

theorem component_plan_fits_witness:
  "\<exists>doc rows. resolve_components sample_inputs sample_host (JInt 64) = Inr doc \<and>
     plan_components (the_obj sample_inputs) = Inr rows \<and> rows \<noteq> [] \<and>
     sum_list (map (estimated_fds \<circ> snd) rows) \<le> 1024"
proof -
  define r where "r = resolve_components sample_inputs sample_host (JInt 64)"
  have "\<not> isl r" unfolding r_def by code_simp
  then obtain doc where d: "resolve_components sample_inputs sample_host (JInt 64) = Inr doc"
    by (auto simp: r_def isl_def) (metis sum.exhaust)
  have "plan_components (the_obj sample_inputs) \<noteq> Inr []" by code_simp
  moreover have "fd_ceiling sample_host = 1024" by (simp add: sample_host_def)
  moreover obtain rows where "plan_components (the_obj sample_inputs) = Inr rows"
    "sum_list (map (estimated_fds \<circ> snd) rows) \<le> fd_ceiling sample_host"
    using component_plan_fits [OF d] by (metis the_kind(4))
  ultimately show ?thesis using d by (intro exI [of _ doc] exI [of _ rows]) (auto simp del: map_map)
qed


text \<open>A Linux host with one cgroup limit on the parent of the process's group.\<close>

definition sample_sys :: sysview where
  "sample_sys =
     \<lparr>backend = True, soft = 1024, hard = 4096, phys_pages = 100, page_size = 4096,
      cpu_count = Some 8, affinity = Some 4, sys_platform = asc ''linux'',
      cgroup_file = (\<lambda>p. Inr (if p = [asc ''a'', asc ''memory.max''] then Some (map bt (asc ''65536''))
                     else if p = [asc ''a'', asc ''cpu.max''] then Some (map bt (asc ''150000 100000'')) else None)),
      proc_file = (\<lambda>p. Inr (if p = [asc ''self'', asc ''cgroup''] then Some (map bt (asc ''0::/a/b'')) else None))\<rparr>"

lemma bounded_read_ascii:
  "ascii t \<Longrightarrow> length t \<le> 4096 \<Longrightarrow> bounded_read (Inr (Some (map bt t))) = Inr (Some (strip t))"
proof -
  assume a: "ascii t" and l: "length t \<le> 4096"
  have u: "map unat (map bt t) = t" using a by (intro map_unat_bt) (auto simp: ascii_def list_all_iff)
  have "list_all (\<lambda>b. unat b < 128) (map bt t)"
    using a by (induction t) simp_all
  with l u show ?thesis by (simp add: bounded_read_def Let_def ascii_decode_def del: map_map)
qed

lemma sample_sys_files:
  "cgroup_ancestors sample_sys = Inr [[asc ''a'', asc ''b''], [asc ''a''], []]"
  "bounded_read (cgroup_file sample_sys [asc ''a'', asc ''memory.max'']) = Inr (Some (asc ''65536''))"
  "bounded_read (cgroup_file sample_sys [asc ''a'', asc ''cpu.max'']) = Inr (Some (asc ''150000 100000''))"
  "p \<notin> {[asc ''a'', asc ''memory.max''], [asc ''a'', asc ''cpu.max'']} \<Longrightarrow> bounded_read (cgroup_file sample_sys p) = Inr None"
proof -
  have "efold membership_row (splitlines (strip (asc ''0::/a/b''))) [] = Inr [[asc ''a'', asc ''b''], [asc ''a''], []]"
    by code_simp
  moreover have "strip (asc ''65536'') = asc ''65536''" "strip (asc ''150000 100000'') = asc ''150000 100000''"
    by code_simp+
  ultimately show "cgroup_ancestors sample_sys = Inr [[asc ''a'', asc ''b''], [asc ''a''], []]"
    "bounded_read (cgroup_file sample_sys [asc ''a'', asc ''memory.max'']) = Inr (Some (asc ''65536''))"
    "bounded_read (cgroup_file sample_sys [asc ''a'', asc ''cpu.max'']) = Inr (Some (asc ''150000 100000''))"
    by (simp_all add: cgroup_ancestors_def sample_sys_def bounded_read_ascii ascii_asc del: list.map)
  show "p \<notin> {[asc ''a'', asc ''memory.max''], [asc ''a'', asc ''cpu.max'']} \<Longrightarrow> bounded_read (cgroup_file sample_sys p) = Inr None"
    by (simp add: sample_sys_def bounded_read_def)
qed


end
