(* ===== verification/S6_Plain.thy ===== *)
theory S6_Plain
  imports S6_Crypto
begin

text \<open>
  Documents of plain ASCII text: how long their JSON is, and that the strict reader gives back
  the document that was written. Components use it to show that a message one of them makes
  is accepted by the one that reads it.
\<close>

lemma efold_cong [fundef_cong]:
  "xs = ys \<Longrightarrow> s = t \<Longrightarrow> (\<And>x u. x \<in> set ys \<Longrightarrow> f x u = g x u) \<Longrightarrow> efold f xs s = efold g ys t"
proof (induction ys arbitrary: xs s t)
  case (Cons y ys)
  have "efold f ys u = efold g ys u" for u by (rule Cons.IH) (use Cons.prems(3) in auto)
  then show ?case using Cons.prems by (cases "g y t") auto
qed simp

lemma sum_list_sort_key: "sum_list (map f (sort_key g xs)) = (sum_list (map f xs) :: nat)"
proof -
  have "sum_list (map f (insort_key g x ys)) = f x + sum_list (map f ys)" for x ys
    by (induction ys) auto
  then show ?thesis by (induction xs) simp_all
qed

lemma map_of_filter_value:
  "dict_ok d \<Longrightarrow> map_of (filter (\<lambda>(k, v). P v) d) k = (case map_of d k of Some v \<Rightarrow> if P v then Some v else None | None \<Rightarrow> None)"
proof (induction d)
  case (Cons p d)
  obtain j v where p: "p = (j, v)" by (cases p)
  have d: "dict_ok d" "j \<notin> fst ` set d" using Cons.prems p by (auto simp: dict_ok_def)
  have "map_of (filter (\<lambda>(k, v). P v) d) j = None" "map_of d j = None"
    using d(2) by (force simp: map_of_eq_None_iff)+
  then show ?case using Cons.IH [OF d(1)] p by (auto split: option.split)
qed simp

lemma dict_ok_filter: "dict_ok d \<Longrightarrow> dict_ok (filter P d)"
  by (simp add: dict_ok_def distinct_map_filter)

section \<open>Sizes of canonical text\<close>

lemma length_commas_eq: "ss \<noteq> [] \<Longrightarrow> length (commas ss) + 1 = sum_list (map (\<lambda>s. length s + 1) ss)"
  by (induction ss rule: commas.induct) auto

lemma length_json_obj:
  assumes "d \<noteq> []"
  shows "length (json_text (JObj d)) = 1 + sum_list (map (\<lambda>p. length (json_string (fst p)) + length (json_text (snd p)) + 2) d)"
proof -
  let ?f = "\<lambda>p. length (json_string (fst p)) + length (json_text (snd p)) + 2"
  have "map member_text (sort_key fst d) \<noteq> []" using assms by (metis length_0_conv length_map length_sort)
  from length_commas_eq [OF this]
  have "length (commas (map member_text (sort_key fst d))) + 1 = sum_list (map ?f (sort_key fst d))"
    by (simp add: comp_def member_text_def)
  also have "\<dots> = sum_list (map ?f d)" by (rule sum_list_sort_key)
  finally show ?thesis by (simp only: json_text_obj) simp
qed

lemma length_json_obj_snoc:
  "length (json_text (JObj (d @ [(k, v)]))) \<le> length (json_text (JObj d)) + length (json_string k) + length (json_text v) + 2"
proof -
  have "1 \<le> length (json_text (JObj []))" by simp
  then show ?thesis by (cases "d = []") (simp_all add: length_json_obj del: json_text.simps(7))
qed

text \<open>Characters that JSON writes as themselves.\<close>

definition plain_char :: "nat \<Rightarrow> bool" where
  "plain_char c \<longleftrightarrow> 32 \<le> c \<and> c < 127 \<and> c \<noteq> 34 \<and> c \<noteq> 92"

lemma plain_text:
  assumes "list_all plain_char s"
  shows "length (json_string s) = length s + 2" "ascii s" "0 \<notin> set s" "length (concat (map utf8_char s)) = length s"
proof -
  have "json_char c = [c]" "utf8_char c = [bt c]" if "plain_char c" for c
    using that by (auto simp: plain_char_def json_char_def utf8_char_def utf8_units_def)
  then have "length (concat (map json_char s)) = length s" "length (concat (map utf8_char s)) = length s"
    using assms by (induction s) auto
  then show "length (json_string s) = length s + 2" "length (concat (map utf8_char s)) = length s"
    by (simp_all add: json_string_def)
  show "ascii s" "0 \<notin> set s" using assms by (auto simp: ascii_def list_all_iff plain_char_def)
qed

lemma plain_asc: "list_all plain_char (asc k) = list_all (\<lambda>c. plain_char (of_char c)) k"
  by (simp add: asc_def list.pred_map comp_def)

lemma length_asc_string: "list_all (\<lambda>c. plain_char (of_char c)) k \<Longrightarrow> length (json_string (asc k)) = length k + 2"
  using plain_text(1) [of "asc k"] by (simp add: plain_asc)

lemma plain_hex: "list_all plain_char (to_hex bs)"
proof -
  have "plain_char (hexd d)" if "d < 16" for d using that by (auto simp: hexd_def plain_char_def)
  then show ?thesis by (induction bs) (simp_all add: to_hex_def byte_nibbles)
qed

lemma plain_b64: "list_all plain_char (b64encode bs)"
proof -
  have "plain_char (b64_char n)" for n by (auto simp add: b64_char_def plain_char_def)
  moreover have "plain_char 61" by (simp add: plain_char_def)
  ultimately show ?thesis by (induction bs rule: b64encode.induct) simp_all
qed

lemma length_show_int: "\<bar>i\<bar> \<le> 9007199254740991 \<Longrightarrow> length (show_int i) \<le> 17"
proof -
  assume "\<bar>i\<bar> \<le> 9007199254740991"
  then have "length (show_nat (nat i)) \<le> 16" "length (show_nat (nat (- i))) \<le> 16"
    by (auto intro!: length_show_nat)
  then show ?thesis by (auto simp: show_int_def)
qed

text \<open>What the documentation of NFC says: it leaves ASCII text alone and is idempotent.\<close>

definition nfc_ok :: "(ustr \<Rightarrow> ustr) \<Rightarrow> bool" where
  "nfc_ok nfc \<longleftrightarrow> (\<forall>s. ascii s \<longrightarrow> nfc s = s) \<and> (\<forall>s. nfc (nfc s) = nfc s)"

lemma json_doc_literal: "json_doc (jobj kvs) \<longleftrightarrow> distinct (map fst kvs) \<and> (\<forall>(k, v) \<in> set kvs. json_doc v)"
  by (auto simp: jobj_def distinct_literal list_all_iff simp del: map_map)

lemma nfc_ok_id: "nfc_ok (\<lambda>s. s)"
  by (simp add: nfc_ok_def)

section \<open>Plain documents\<close>

text \<open>Strings of plain characters, portable integers, booleans and null, in at most \<open>n\<close> levels of lists and objects.\<close>

fun plain_doc :: "nat \<Rightarrow> pyval \<Rightarrow> bool" where
  "plain_doc n JNull = True"
| "plain_doc n (JBool b) = True"
| "plain_doc n (JInt i) = (\<bar>i\<bar> \<le> 9007199254740991)"
| "plain_doc n (JFloat r) = False"
| "plain_doc n (JStr s) = (list_all plain_char s \<and> length s \<le> 65536)"
| "plain_doc n (JList xs) = (0 < n \<and> list_all (plain_doc (n - 1)) xs)"
| "plain_doc n (JObj d) =
     (0 < n \<and> distinct (map fst d) \<and>
      list_all (\<lambda>(k, v). list_all plain_char k \<and> length k \<le> 65536 \<and> plain_doc (n - 1) v) d)"

lemma plain_bounded_str:
  assumes "list_all plain_char s" "length s \<le> l" "nfc_ok nfc"
  shows "bounded_str nfc l s = Inr ()"
  using assms plain_text [OF assms(1)] by (auto simp: bounded_str_def utf8_encode_def ascii_scalars nfc_ok_def)

lemma plain_doc_bounded:
  "plain_doc n v \<Longrightarrow> nfc_ok nfc \<Longrightarrow> k + n \<le> 16 \<Longrightarrow> json_doc v \<and> bounded nfc 65536 k v = Inr ()"
proof (induction v arbitrary: n k)
  case (JList xs)
  then obtain m where m: "n = Suc m" by (cases n) auto
  have "json_doc x \<and> bounded nfc 65536 (Suc k) x = Inr ()" if "x \<in> set xs" for x
    by (rule JList.IH [OF that, of m]) (use JList.prems that m in \<open>auto simp: list_all_iff\<close>)
  then show ?case using JList.prems by (auto simp: bounded_iff list_all_iff)
next
  case (JObj d)
  then obtain m where m: "n = Suc m" by (cases n) auto
  have "json_doc v \<and> bounded nfc 65536 (Suc k) v = Inr () \<and> bounded_str nfc 65536 key = Inr ()" if "(key, v) \<in> set d" for key v
  proof -
    have "plain_doc m v" "list_all plain_char key \<and> length key \<le> 65536" using JObj.prems(1) that m by (auto simp: list_all_iff)
    then show ?thesis using JObj.IH [of "(key, v)" v m "Suc k"] JObj.prems(2,3) that m plain_bounded_str by auto
  qed
  then show ?case using JObj.prems m by (auto simp: bounded_iff list_all_iff)
qed (auto simp: bounded_iff max_portable_def plain_bounded_str)

lemma plain_doc_read:
  assumes "plain_doc 16 v" "nfc_ok nfc" "int (length (json_text v)) \<le> limit" "1 \<le> limit"
  shows "portable_json nfc limit (BytesIn (map bt (json_text v))) = Inr (jnorm v)"
    and "json_bytes v = Inr (map bt (json_text v))"
proof -
  have b: "json_doc v" "bounded nfc 65536 0 v = Inr ()" using plain_doc_bounded [OF assms(1,2), of 0] by simp_all
  show "portable_json nfc limit (BytesIn (map bt (json_text v))) = Inr (jnorm v)"
    unfolding portable_json_def by (rule strict_json_roundtrip) (use b assms in simp_all)
  show "json_bytes v = Inr (map bt (json_text v))" by (rule json_bytes_ok) (rule bounded_jv_ok [OF b])
qed

lemma plain_doc_literal:
  "plain_doc n (jobj kvs) \<longleftrightarrow> 0 < n \<and> distinct (map fst kvs) \<and>
     (\<forall>(k, v) \<in> set kvs. list_all (\<lambda>c. plain_char (of_char c)) k \<and> length k \<le> 65536 \<and> plain_doc (n - 1) v)"
  by (simp add: jobj_def distinct_literal list.pred_map comp_def case_prod_beta plain_asc del: map_map)
     (auto simp: list_all_iff)

lemma length_json_literal:
  assumes "kvs \<noteq> []" "\<forall>(k, v) \<in> set kvs. list_all (\<lambda>c. plain_char (of_char c)) k"
  shows "length (json_text (jobj kvs)) = 1 + sum_list (map (\<lambda>(k, v). length k + length (json_text v) + 4) kvs)"
proof -
  have "length (json_text (jobj kvs)) =
      1 + sum_list (map (\<lambda>p. length (json_string (fst p)) + length (json_text (snd p)) + 2) (map (\<lambda>(k, v). (asc k, v)) kvs))"
    unfolding jobj_def using assms(1) by (subst length_json_obj) simp_all
  also have "map (\<lambda>p. length (json_string (fst p)) + length (json_text (snd p)) + 2) (map (\<lambda>(k, v). (asc k, v)) kvs) =
      map (\<lambda>(k, v). length k + length (json_text v) + 4) kvs"
    using assms(2) by (auto simp: length_asc_string)
  finally show ?thesis .
qed

lemma filter_jnorm:
  "filter (\<lambda>(k, _). Q k) (the_obj (jnorm (JObj d))) = the_obj (jnorm (JObj (filter (\<lambda>(k, _). Q k) d)))"
  by (simp add: filter_sort filter_map comp_def case_prod_unfold)

text \<open>The bytes under a signature: the document read back, without its signature, is written as before it was signed.\<close>

lemma json_bytes_unsigned:
  assumes "plain_doc 16 (jobj kvs)" "nfc_ok nfc" "sk \<notin> fst ` set kvs"
  shows "json_bytes (JObj (filter (\<lambda>(k, _). k \<noteq> asc sk) (the_obj (jnorm (jobj (kvs @ [(sk, v)])))))) = json_bytes (jobj kvs)"
proof -
  have "filter (\<lambda>(k, _). k \<noteq> asc sk) (map (\<lambda>(k, v). (asc k, v)) (kvs @ [(sk, v)])) = map (\<lambda>(k, v). (asc k, v)) kvs"
    using assms(3) by (induction kvs) (auto simp: case_prod_unfold)
  then have f: "JObj (filter (\<lambda>(k, _). k \<noteq> asc sk) (the_obj (jnorm (jobj (kvs @ [(sk, v)]))))) = jnorm (jobj kvs)"
    unfolding jobj_def filter_jnorm by (simp del: jnorm.simps map_append) simp
  have ok: "jv_ok (jobj kvs)" using plain_doc_bounded [OF assms(1,2), of 0] bounded_jv_ok by auto
  show ?thesis unfolding f using ok by (simp add: json_bytes_ok)
qed

end
