(* ===== verification/S6_Replay.thy ===== *)
theory S6_Replay
  imports S6_Prelude
begin

text \<open>
  The contract of a replay guard: a table that accepts a key once until the key expires. The
  application layer's replay window and the virtual broker's nonce table both keep it. What
  follows from the contract for a whole sequence of requests is proved here once.
\<close>

text \<open>A request is a key, the time its acceptance expires and the time it is made.\<close>

type_synonym 'k request = "'k \<times> int \<times> int"

fun guard_run :: "('k \<Rightarrow> int \<Rightarrow> int \<Rightarrow> 's \<Rightarrow> bool \<times> 's) \<Rightarrow> 'k request list \<Rightarrow> 's \<Rightarrow> bool list \<times> 's" where
  "guard_run f [] s = ([], s)"
| "guard_run f ((k, e, now) # rs) s =
     (case f k e now s of (b, s1) \<Rightarrow> (case guard_run f rs s1 of (bs, s2) \<Rightarrow> (b # bs, s2)))"

lemma guard_run_append:
  "guard_run f (rs @ qs) s =
     (case guard_run f rs s of (bs, s1) \<Rightarrow> (case guard_run f qs s1 of (cs, s2) \<Rightarrow> (bs @ cs, s2)))"
  by (induction rs arbitrary: s) (auto split: prod.splits)

lemma guard_run_length: "guard_run f rs s = (bs, s') \<Longrightarrow> length bs = length rs"
  by (induction rs arbitrary: s bs) (auto split: prod.splits)

locale replay_guard =
  fixes accept_key :: "'k \<Rightarrow> int \<Rightarrow> int \<Rightarrow> 's \<Rightarrow> bool \<times> 's"
    and expiry :: "'s \<Rightarrow> 'k \<Rightarrow> int option"
    and invar :: "'s \<Rightarrow> bool"
  assumes invar_kept: "invar s \<Longrightarrow> accept_key k e now s = (b, s') \<Longrightarrow> invar s'"
    and fresh: "invar s \<Longrightarrow> accept_key k e now s = (True, s') \<Longrightarrow> expiry s k = Some x \<Longrightarrow> x < now"
    and recorded: "invar s \<Longrightarrow> accept_key k e now s = (True, s') \<Longrightarrow> expiry s' k = Some e"
    and kept: "invar s \<Longrightarrow> accept_key k e now s = (b, s') \<Longrightarrow> expiry s j = Some x \<Longrightarrow> now \<le> x \<Longrightarrow>
      j \<noteq> k \<or> \<not> b \<Longrightarrow> expiry s' j = Some x"
begin

lemma run_invar: "guard_run accept_key rs s = (bs, s') \<Longrightarrow> invar s \<Longrightarrow> invar s'"
proof (induction rs arbitrary: s bs)
  case (Cons r rs)
  obtain k e now where r: "r = (k, e, now)" by (cases r)
  obtain b s1 where f: "accept_key k e now s = (b, s1)" by (cases "accept_key k e now s")
  obtain cs where "guard_run accept_key rs s1 = (cs, s')"
    using Cons.prems(1) r f by (auto split: prod.splits)
  from Cons.IH [OF this invar_kept [OF Cons.prems(2) f]] show ?case .
qed simp

lemma run_kept:
  assumes "guard_run accept_key rs s = (bs, s')" and "invar s" and "expiry s k = Some x"
    and "\<forall>(j, e, now) \<in> set rs. now \<le> x"
  shows "expiry s' k = Some x \<and> (\<forall>i < length rs. fst (rs ! i) = k \<longrightarrow> \<not> bs ! i)"
  using assms
proof (induction rs arbitrary: s bs)
  case (Cons r rs)
  obtain j e now where r: "r = (j, e, now)" by (cases r)
  obtain b s1 cs where f: "accept_key j e now s = (b, s1)" and g: "guard_run accept_key rs s1 = (cs, s')"
    and bs: "bs = b # cs"
    using Cons.prems(1) r by (auto split: prod.splits)
  have now: "now \<le> x" using Cons.prems(4) r by simp
  have nb: "j = k \<Longrightarrow> \<not> b" using fresh [OF Cons.prems(2), of k e now s1 x] f Cons.prems(3) now by (cases b) auto
  then have "expiry s1 k = Some x" using kept [OF Cons.prems(2) f Cons.prems(3) now] by blast
  from Cons.IH [OF g invar_kept [OF Cons.prems(2) f] this] Cons.prems(4)
  have h: "expiry s' k = Some x \<and> (\<forall>i < length rs. fst (rs ! i) = k \<longrightarrow> \<not> cs ! i)" by simp
  show ?case
  proof (intro conjI allI impI)
    show "expiry s' k = Some x" using h by simp
    fix i assume "i < length (r # rs)" "fst ((r # rs) ! i) = k"
    then show "\<not> bs ! i" using h nb r bs by (cases i) auto
  qed
qed simp

text \<open>With a clock that does not go back, a key accepted again has expired in between.\<close>

lemma accepted_once:
  assumes run: "guard_run accept_key rs s = (bs, s')" and inv: "invar s"
    and sorted: "sorted (map (\<lambda>(k, e, now). now) rs)"
    and ij: "i < j" "j < length rs" "bs ! i" "bs ! j" "fst (rs ! i) = fst (rs ! j)"
  shows "fst (snd (rs ! i)) < snd (snd (rs ! j))"
proof (rule ccontr)
  obtain k e now where ri: "rs ! i = (k, e, now)" by (cases "rs ! i")
  assume "\<not> ?thesis"
  then have le: "snd (snd (rs ! j)) \<le> e" using ri by simp
  define mid where "mid = take (j - i) (drop (Suc i) rs)"
  have split: "rs = take i rs @ (k, e, now) # mid @ drop (Suc j) rs"
  proof -
    have "rs = take i rs @ rs ! i # drop (Suc i) rs" using ij by (simp add: id_take_nth_drop)
    moreover have "drop (Suc i) rs = mid @ drop (Suc j) rs"
      using ij append_take_drop_id [of "j - i" "drop (Suc i) rs"] by (simp add: mid_def)
    ultimately show ?thesis using ri by simp
  qed
  have len: "length (take i rs) = i" "length mid = j - i" using ij by (simp_all add: mid_def)
  obtain b1 s1 where p: "guard_run accept_key (take i rs) s = (b1, s1)" by (cases "guard_run accept_key (take i rs) s")
  obtain b s2 where f: "accept_key k e now s1 = (b, s2)" by (cases "accept_key k e now s1")
  obtain cs s3 where m: "guard_run accept_key mid s2 = (cs, s3)" by (cases "guard_run accept_key mid s2")
  obtain ds s4 where d: "guard_run accept_key (drop (Suc j) rs) s3 = (ds, s4)" by (cases "guard_run accept_key (drop (Suc j) rs) s3")
  have "guard_run accept_key rs s = (b1 @ b # cs @ ds, s4)"
    by (subst split) (simp add: guard_run_append p f m d)
  then have bs: "bs = b1 @ b # cs @ ds" using run by simp
  have l1: "length b1 = i" "length cs = j - i" using guard_run_length [OF p] guard_run_length [OF m] len by simp_all
  have "b" using ij(3) bs l1 by (simp add: nth_append)
  then have f': "accept_key k e now s1 = (True, s2)" using f by simp
  have i1: "invar s1" by (rule run_invar [OF p inv])
  have rec: "expiry s2 k = Some e" by (rule recorded [OF i1 f'])
  have i2: "invar s2" by (rule invar_kept [OF i1 f'])
  have "mid ! (j - Suc i) = rs ! j" using ij by (simp add: mid_def)
  have "n \<le> snd (snd (rs ! j))" if "(k', e', n) \<in> set mid" for k' e' n
  proof -
    from that obtain q where q: "q < length mid" "mid ! q = (k', e', n)" by (auto simp: in_set_conv_nth)
    then have "rs ! (Suc i + q) = (k', e', n)" "Suc i + q \<le> j" using ij len by (simp_all add: mid_def)
    then show ?thesis using sorted_nth_mono [OF sorted, of "Suc i + q" j] ij by (simp add: case_prod_beta)
  qed
  then have "\<forall>(k', e', n) \<in> set mid. n \<le> e" using le by (auto intro: order_trans)
  from run_kept [OF m i2 rec this] have "\<forall>q < length mid. fst (mid ! q) = k \<longrightarrow> \<not> cs ! q" by blast
  moreover have "j - Suc i < length mid" "fst (mid ! (j - Suc i)) = k"
    using len ij ri \<open>mid ! (j - Suc i) = rs ! j\<close> by simp_all
  ultimately have "\<not> cs ! (j - Suc i)" by blast
  moreover have "bs ! j = cs ! (j - Suc i)" using ij l1 bs by (simp add: nth_append nth_Cons')
  ultimately show False using ij(4) by simp
qed

end

end
