(* ===== verification/S6_Protocols.thy ===== *)
theory S6_Protocols
  imports S6_Plain S6_Codec S6_Replay
begin

text \<open>
  \<^verbatim>\<open>Application-Layer/shadow_protocols.py\<close>: the canonical form of application documents, the
  length-prefixed frames, the protocol factory, signed identity assertions, the replay window
  and encrypted chat messages. Signatures and the ChaCha20-Poly1305 cipher are parameters;
  the clock and the random bytes of a call are its arguments.
\<close>

section \<open>Canonical documents\<close>

definition MAX_FRAME :: nat where
  "MAX_FRAME = 1048576"

definition MAX_TEXT :: nat where
  "MAX_TEXT = 65536"

text \<open>The counter that every visited item advances, and the depth test.\<close>

definition visit :: "nat \<Rightarrow> bool \<Rightarrow> nat \<Rightarrow> nat res" where
  "visit depth is_float budget =
     ebind (raise_if (1048576 < budget + 1) (ProtocolError ''JSON document exceeds size limit'')) (\<lambda>_.
     ebind (raise_if (32 < depth \<or> is_float)
             (ProtocolError ''manifest nesting is excessive or contains a float'')) (\<lambda>_.
       Inr (budget + 1)))"

definition check_text :: "nat \<Rightarrow> ustr \<Rightarrow> nat \<Rightarrow> nat res" where
  "check_text depth s budget =
     ebind (visit depth False budget) (\<lambda>b.
     ebind (case utf8_encode s of Inl _ \<Rightarrow> Inl (ProtocolError ''invalid Unicode scalar'') | Inr u \<Rightarrow> Inr (length u)) (\<lambda>size.
     ebind (raise_if (MAX_FRAME < size \<or> 0 \<in> set s) (ProtocolError ''unsafe or oversized JSON string'')) (\<lambda>_.
       Inr (b + size))))"

text \<open>The nested function \<^verbatim>\<open>check\<close>, with its budget passed along.\<close>

fun check_item :: "nat \<Rightarrow> pyval \<Rightarrow> nat \<Rightarrow> nat res" where
  "check_item depth (JObj d) budget =
     ebind (visit depth False budget) (\<lambda>b.
       efold (\<lambda>(key, child) b.
         ebind (raise_if (256 < length key) (ProtocolError ''invalid manifest key'')) (\<lambda>_.
         ebind (check_text (depth + 1) key b) (check_item (depth + 1) child))) d b)"
| "check_item depth (JList xs) budget =
     ebind (visit depth False budget) (efold (check_item (depth + 1)) xs)"
| "check_item depth (JStr s) budget = check_text depth s budget"
| "check_item depth (JInt i) budget =
     ebind (visit depth False budget) (\<lambda>b.
     ebind (raise_if (9007199254740991 < \<bar>i\<bar>) (ProtocolError ''integer is not exactly portable'')) (\<lambda>_. Inr b))"
| "check_item depth (JFloat r) budget = visit depth True budget"
| "check_item depth JNull budget = visit depth False budget"
| "check_item depth (JBool b) budget = visit depth False budget"

definition app_canonical :: "(ustr \<Rightarrow> ustr) \<Rightarrow> pyval \<Rightarrow> bytes res" where
  "app_canonical nfc v =
     ebind (check_item 0 v 0) (\<lambda>_.
     ebind (json_bytes v) (\<lambda>encoded.
     ebind (raise_if (1048576 < length encoded) (ProtocolError ''JSON document exceeds size limit'')) (\<lambda>_.
     ebind (case strict_json nfc (\<lambda>_. None) 1048576 (int MAX_FRAME) False False (BytesIn encoded) of
              Inl e \<Rightarrow> Inl (if is_value_error e then ProtocolError ''invalid portable JSON'' else e)
            | Inr w \<Rightarrow> Inr w) (\<lambda>_.
       Inr encoded))))"

definition app_strict_json :: "(ustr \<Rightarrow> ustr) \<Rightarrow> int \<Rightarrow> bytes \<Rightarrow> pydict res" where
  "app_strict_json nfc limit data =
     ebind (raise_if (limit < int (length data)) (ProtocolError ''JSON document exceeds size limit'')) (\<lambda>_.
     ebind (case ebind (utf8_decode data) (\<lambda>t. strict_json nfc (\<lambda>_. None) limit (int MAX_FRAME) False False (TextIn t)) of
              Inl e \<Rightarrow> Inl (if is_value_error e then ProtocolError ''invalid UTF-8 JSON'' else e)
            | Inr v \<Rightarrow> Inr v) (\<lambda>v.
     ebind (raise_if (\<not> is_obj v) (ProtocolError ''JSON document must be an object'')) (\<lambda>_.
     ebind (app_canonical nfc v) (\<lambda>_.
       Inr (the_obj v)))))"

definition normalized_text :: "(ustr \<Rightarrow> ustr) \<Rightarrow> pyval \<Rightarrow> ustr res" where
  "normalized_text nfc v =
     ebind (raise_if (\<not> is_str v) (ProtocolError ''text must be a string'')) (\<lambda>_.
     let normalized = nfc (the_str v) in
     ebind (case utf8_encode normalized of
              Inl _ \<Rightarrow> Inl (ProtocolError ''text contains an invalid Unicode scalar'') | Inr b \<Rightarrow> Inr b) (\<lambda>encoded.
     ebind (raise_if (encoded = [] \<or> MAX_TEXT < length encoded \<or> 0 \<in> set normalized)
             (ProtocolError ''UTF-8 text is empty, oversized, or contains NUL'')) (\<lambda>_.
       Inr normalized)))"

section \<open>Frames\<close>

definition app_encode :: "(ustr \<Rightarrow> ustr) \<Rightarrow> pyval \<Rightarrow> bytes res" where
  "app_encode nfc document =
     ebind (raise_if (\<not> is_obj document) (ProtocolError ''application frame must be an object'')) (\<lambda>_.
     ebind (app_canonical nfc document) (\<lambda>payload.
     ebind (raise_if (MAX_FRAME < length payload) (ProtocolError ''application frame exceeds 1 MiB'')) (\<lambda>_.
       Inr (be_encode 4 (length payload) @ payload))))"

text \<open>The reader already turned every decoding error into a \<open>ProtocolError\<close> and returns an object.\<close>

definition app_decode :: "(ustr \<Rightarrow> ustr) \<Rightarrow> bytes \<Rightarrow> pydict res" where
  "app_decode nfc frame =
     ebind (raise_if (length frame < 4) (ProtocolError ''truncated application frame'')) (\<lambda>_.
     let len = be_decode (take 4 frame) in
     ebind (raise_if (MAX_FRAME < len \<or> length frame \<noteq> len + 4) (ProtocolError ''invalid application frame length'')) (\<lambda>_.
       app_strict_json nfc (int MAX_FRAME) (drop 4 frame)))"

section \<open>The protocol factory\<close>

type_synonym 'r decoders = "((ustr \<times> int) \<times> (pydict \<Rightarrow> 'r)) list"

definition protocol_id_ok :: "ustr \<Rightarrow> bool" where
  "protocol_id_ok s \<longleftrightarrow> startswith ''shadow.'' s \<and>
     matches is_lower (\<lambda>c. is_lower c \<or> is_digit c \<or> one_of ''.-'' c) 1 63 (drop 7 s)"

definition register :: "pyval \<Rightarrow> pyval \<Rightarrow> (pydict \<Rightarrow> 'r) \<Rightarrow> 'r decoders \<Rightarrow> 'r decoders res" where
  "register protocol version decoder ds =
     ebind (raise_if (\<not> is_str protocol \<or> \<not> protocol_id_ok (the_str protocol) \<or> \<not> int_in 1 255 version)
             (ProtocolError ''invalid protocol identifier or version'')) (\<lambda>_.
     let key = (the_str protocol, the_int version) in
     ebind (raise_if (map_of ds key \<noteq> None) (ProtocolError ''protocol version is already registered'')) (\<lambda>_.
       Inr (dset key decoder ds)))"

definition factory_decode :: "(ustr \<Rightarrow> ustr) \<Rightarrow> 'r decoders \<Rightarrow> bytes \<Rightarrow> 'r res" where
  "factory_decode nfc ds frame =
     ebind (app_decode nfc frame) (\<lambda>document.
     let protocol = fld document ''protocol''; version = fld document ''version'' in
     ebind (raise_if (\<not> is_str protocol \<or> \<not> is_int version)
             (ProtocolError ''invalid protocol identifier or version type'')) (\<lambda>_.
       (case map_of ds (the_str protocol, the_int version) of
          None \<Rightarrow> Inl (ProtocolError ''unsupported protocol or version'')
        | Some decoder \<Rightarrow> Inr (decoder document))))"

section \<open>The replay window\<close>

record replay =
  rlimit :: int
  seen :: "(ustr \<times> int) list"

definition replay_init :: "int \<Rightarrow> replay res" where
  "replay_init limit =
     ebind (raise_if (\<not> (1 \<le> limit \<and> limit \<le> 65536)) (ProtocolError ''invalid replay window capacity'')) (\<lambda>_.
       Inr \<lparr>rlimit = limit, seen = []\<rparr>)"

text \<open>The expired entries are dropped before the test, also when the message is refused.\<close>

definition accept_until :: "ustr \<Rightarrow> int \<Rightarrow> int \<Rightarrow> replay \<Rightarrow> unit res \<times> replay" where
  "accept_until message_id expires_at now w =
     (if 256 < length message_id \<or> \<not> (now \<le> expires_at \<and> expires_at \<le> now + 3600)
      then (Inl (ProtocolError ''invalid replay key or expiration''), w)
      else
        (let live = filter (\<lambda>(key, v). now \<le> v) (seen w); w1 = w\<lparr>seen := live\<rparr> in
         if map_of live message_id \<noteq> None \<or> rlimit w \<le> int (length live)
         then (Inl (ProtocolError ''replayed or saturated message''), w1)
         else (Inr (), w1\<lparr>seen := dset message_id expires_at live\<rparr>)))"

definition accept :: "ustr \<Rightarrow> int \<Rightarrow> int \<Rightarrow> replay \<Rightarrow> unit res \<times> replay" where
  "accept message_id timestamp now w =
     (if 300 < \<bar>now - timestamp\<bar>
      then (Inl (ProtocolError ''replayed, stale, or saturated ShadowChat message''), w)
      else accept_until message_id (timestamp + 300) now w)"

section \<open>Identity assertions\<close>

definition identity_ok :: "ustr \<Rightarrow> bool" where
  "identity_ok s \<longleftrightarrow> matches is_word (\<lambda>c. is_word c \<or> one_of ''._-'' c) 0 63 s"

definition domain_ok :: "ustr \<Rightarrow> bool" where
  "domain_ok s \<longleftrightarrow> matches is_lower (\<lambda>c. is_lower c \<or> is_digit c \<or> c = 45) 0 31 s"

record identity =
  ident :: ustr
  private_key :: bytes

definition generate :: "pyval \<Rightarrow> bytes \<Rightarrow> identity res" where
  "generate name key =
     ebind (raise_if (\<not> is_str name \<or> \<not> identity_ok (the_str name)) (ProtocolError ''invalid ShadowIdentity name'')) (\<lambda>_.
       Inr \<lparr>ident = the_str name, private_key = key\<rparr>)"

definition public_hex :: "signer \<Rightarrow> identity \<Rightarrow> ustr" where
  "public_hex sg me = to_hex (sig_public sg (private_key me))"

definition assertion ::
  "(ustr \<Rightarrow> ustr) \<Rightarrow> signer \<Rightarrow> int \<Rightarrow> bytes \<Rightarrow> identity \<Rightarrow> pyval \<Rightarrow> pyval \<Rightarrow> pyval \<Rightarrow> pyval \<Rightarrow> pyval res" where
  "assertion nfc sg now random me subject domain claims ttl =
     ebind (raise_if (\<not> is_str subject \<or> \<not> is_str domain \<or> \<not> identity_ok (the_str subject) \<or> \<not> domain_ok (the_str domain))
             (ProtocolError ''invalid assertion subject or compartment domain'')) (\<lambda>_.
     ebind (raise_if (\<not> is_obj claims) (ProtocolError ''invalid assertion claims or TTL'')) (\<lambda>_.
     ebind (app_canonical nfc claims) (\<lambda>c.
     ebind (raise_if (16384 < length c \<or> \<not> int_in 1 3600 ttl) (ProtocolError ''invalid assertion claims or TTL'')) (\<lambda>_.
     let document =
           [(''protocol'', jstr ''shadow.identity''), (''version'', JInt 1), (''issuer'', JStr (ident me)),
            (''subject'', subject), (''domain'', domain), (''issued_at'', JInt now),
            (''expires_at'', JInt (now + the_int ttl)), (''nonce'', JStr (to_hex random)), (''claims'', claims)] in
     ebind (app_canonical nfc (jobj document)) (\<lambda>message.
       Inr (jobj (document @ [(''signature'', JStr (to_hex (sig_sign sg (private_key me) message)))])))))))"

definition assertion_fields :: "string list" where
  "assertion_fields = [''protocol'', ''version'', ''issuer'', ''subject'', ''domain'', ''issued_at'',
     ''expires_at'', ''nonce'', ''claims'', ''signature'']"

definition unsigned :: "pydict \<Rightarrow> pyval" where
  "unsigned d = JObj (ddel (asc ''signature'') d)"

text \<open>The signature part of \<^verbatim>\<open>verify\<close> and \<^verbatim>\<open>decrypt\<close>: encodings first, then the package; every
  failure becomes \<open>failure\<close>.\<close>

definition signature_valid :: "(ustr \<Rightarrow> ustr) \<Rightarrow> signer \<Rightarrow> pydict \<Rightarrow> pyval \<Rightarrow> bool" where
  "signature_valid nfc sg d key \<longleftrightarrow>
     is_str (fld d ''signature'') \<and> hex_text 128 (the_str (fld d ''signature'')) \<and>
     is_str key \<and> hex_text 64 (the_str key) \<and>
     (case app_canonical nfc (unsigned d) of
        Inl _ \<Rightarrow> False
      | Inr message \<Rightarrow> sig_verify sg (from_hex (the_str key)) (from_hex (the_str (fld d ''signature''))) message)"

definition check_assertion ::
  "(ustr \<Rightarrow> ustr) \<Rightarrow> signer \<Rightarrow> pyval \<Rightarrow> pyval \<Rightarrow> ustr list \<Rightarrow> int \<Rightarrow> pydict res" where
  "check_assertion nfc sg document key allowed current =
     (let d = the_obj document in
      ebind (raise_if (\<not> is_obj document \<or> \<not> keys_are assertion_fields d
                       \<or> fld d ''protocol'' \<noteq> jstr ''shadow.identity'' \<or> fld d ''version'' \<noteq> JInt 1)
              (ProtocolError ''invalid ShadowIdentity schema'')) (\<lambda>_.
      ebind (app_canonical nfc document) (\<lambda>_.
      ebind (raise_if (list_ex (\<lambda>n. \<not> is_str (fld d n) \<or> \<not> identity_ok (the_str (fld d n))) [''issuer'', ''subject''])
              (ProtocolError ''invalid identity name'')) (\<lambda>_.
      ebind (raise_if (\<not> is_str (fld d ''domain'') \<or> \<not> domain_ok (the_str (fld d ''domain'')))
              (ProtocolError ''invalid identity domain'')) (\<lambda>_.
      let issued = the_int (fld d ''issued_at''); expires = the_int (fld d ''expires_at'') in
      ebind (raise_if (\<not> is_int (fld d ''issued_at'') \<or> \<not> is_int (fld d ''expires_at'')
                       \<or> \<not> (1 \<le> expires - issued \<and> expires - issued \<le> 3600))
              (ProtocolError ''invalid identity validity window'')) (\<lambda>_.
      ebind (raise_if (\<not> is_obj (fld d ''claims'')) (ProtocolError ''invalid identity claims or nonce'')) (\<lambda>_.
      ebind (app_canonical nfc (fld d ''claims'')) (\<lambda>c.
      ebind (raise_if (16384 < length c \<or> \<not> is_str (fld d ''nonce'') \<or> \<not> hex_text 32 (the_str (fld d ''nonce'')))
              (ProtocolError ''invalid identity claims or nonce'')) (\<lambda>_.
      ebind (raise_if (the_str (fld d ''domain'') \<notin> set allowed \<or> \<not> (issued \<le> current \<and> current \<le> expires))
              (ProtocolError ''identity domain denied or assertion expired'')) (\<lambda>_.
      ebind (raise_if (\<not> signature_valid nfc sg d key) (ProtocolError ''invalid ShadowIdentity signature'')) (\<lambda>_.
        Inr d)))))))))))"

definition verify ::
  "(ustr \<Rightarrow> ustr) \<Rightarrow> signer \<Rightarrow> pyval \<Rightarrow> pyval \<Rightarrow> ustr list \<Rightarrow> int \<Rightarrow> replay option \<Rightarrow> pyval res \<times> replay option" where
  "verify nfc sg document key allowed current window =
     (case check_assertion nfc sg document key allowed current of
        Inl e \<Rightarrow> (Inl e, window)
      | Inr d \<Rightarrow>
          (case window of
             None \<Rightarrow> (Inr (fld d ''claims''), None)
           | Some w \<Rightarrow>
               (case accept_until (the_str key @ 58 # the_str (fld d ''nonce'')) (the_int (fld d ''expires_at'')) current w of
                  (Inl e, w') \<Rightarrow> (Inl e, Some w')
                | (Inr _, w') \<Rightarrow> (Inr (fld d ''claims''), Some w'))))"

section \<open>Chat messages\<close>

record chat =
  session_key :: bytes
  chat_self :: identity
  chat_replay :: replay

definition chat_init :: "bytes \<Rightarrow> identity \<Rightarrow> replay option \<Rightarrow> chat res" where
  "chat_init key self window =
     ebind (raise_if (length key \<noteq> 32) (ProtocolError ''ShadowChat session key must be 32 bytes'')) (\<lambda>_.
       Inr \<lparr>session_key = key, chat_self = self,
            chat_replay = (case window of Some w \<Rightarrow> w | None \<Rightarrow> \<lparr>rlimit = 4096, seen = []\<rparr>)\<rparr>)"

definition metadata_fields :: "string list" where
  "metadata_fields = [''protocol'', ''version'', ''sender'', ''recipient'', ''message_id'', ''timestamp'', ''nonce'']"

definition chat_encrypt ::
  "(ustr \<Rightarrow> ustr) \<Rightarrow> signer \<Rightarrow> aead \<Rightarrow> int \<Rightarrow> bytes \<Rightarrow> bytes \<Rightarrow> chat \<Rightarrow> pyval \<Rightarrow> pyval \<Rightarrow> pyval res" where
  "chat_encrypt nfc sg ci now nonce mid c recipient text_arg =
     ebind (raise_if (\<not> is_str recipient \<or> \<not> identity_ok (the_str recipient)) (ProtocolError ''invalid ShadowChat recipient'')) (\<lambda>_.
     ebind (normalized_text nfc text_arg) (\<lambda>t.
     let metadata =
           [(''protocol'', jstr ''shadow.chat''), (''version'', JInt 1), (''sender'', JStr (ident (chat_self c))),
            (''recipient'', recipient), (''message_id'', JStr (to_hex mid)), (''timestamp'', JInt now),
            (''nonce'', JStr (b64encode nonce))] in
     ebind (utf8_encode t) (\<lambda>plain.
     ebind (app_canonical nfc (jobj metadata)) (\<lambda>ad.
     let document = metadata @ [(''ciphertext'', JStr (b64encode (aead_encrypt ci (session_key c) nonce plain ad)))] in
     ebind (app_canonical nfc (jobj document)) (\<lambda>message.
       Inr (jobj (document @ [(''signature'', JStr (to_hex (sig_sign sg (private_key (chat_self c)) message)))])))))))"

definition chat_fields :: "string list" where
  "chat_fields = metadata_fields @ [''ciphertext'', ''signature'']"

definition chat_metadata :: "pydict \<Rightarrow> pyval" where
  "chat_metadata d = jobj (map (\<lambda>n. (n, fld d n)) metadata_fields)"

definition open_envelope :: "(ustr \<Rightarrow> ustr) \<Rightarrow> signer \<Rightarrow> pydict \<Rightarrow> pyval \<Rightarrow> (bytes \<times> bytes) res" where
  "open_envelope nfc sg d key =
     (let n = fld d ''nonce''; ct = fld d ''ciphertext'';
          failure = ProtocolError ''invalid ShadowChat encoding or signature'' in
      if \<not> is_str n \<or> length (the_str n) \<noteq> 16 \<or> \<not> is_str ct \<or> 4 * ((MAX_TEXT + 18) div 3) < length (the_str ct)
         \<or> \<not> signature_valid nfc sg d key
      then Inl failure
      else
        (case (b64decode (the_str n), b64decode (the_str ct)) of
           (Inr nonce, Inr ciphertext) \<Rightarrow> Inr (nonce, ciphertext) | _ \<Rightarrow> Inl failure))"

definition open_text :: "(ustr \<Rightarrow> ustr) \<Rightarrow> aead \<Rightarrow> bytes \<Rightarrow> bytes \<Rightarrow> bytes \<Rightarrow> pyval \<Rightarrow> ustr res" where
  "open_text nfc ci key nonce ciphertext metadata =
     (let failure = ProtocolError ''ShadowChat authentication or UTF-8 decoding failed'' in
      case app_canonical nfc metadata of
        Inl _ \<Rightarrow> Inl failure
      | Inr ad \<Rightarrow>
          if length nonce \<noteq> 12 then Inl failure
          else
            (case aead_decrypt ci key nonce ciphertext ad of
               None \<Rightarrow> Inl failure
             | Some plain \<Rightarrow> (case utf8_decode plain of Inl _ \<Rightarrow> Inl failure | Inr t \<Rightarrow> Inr t)))"

text \<open>Everything \<^verbatim>\<open>decrypt\<close> does before it touches the replay window.\<close>

definition open_message ::
  "(ustr \<Rightarrow> ustr) \<Rightarrow> signer \<Rightarrow> aead \<Rightarrow> chat \<Rightarrow> pyval \<Rightarrow> pyval \<Rightarrow> (pydict \<times> ustr) res" where
  "open_message nfc sg ci c document key =
     (let d = the_obj document in
      ebind (raise_if (\<not> is_obj document \<or> \<not> keys_are chat_fields d
                       \<or> fld d ''protocol'' \<noteq> jstr ''shadow.chat'' \<or> fld d ''version'' \<noteq> JInt 1)
              (ProtocolError ''invalid ShadowChat schema'')) (\<lambda>_.
      ebind (app_canonical nfc document) (\<lambda>_.
      ebind (raise_if (fld d ''recipient'' \<noteq> JStr (ident (chat_self c)))
              (ProtocolError ''ShadowChat recipient does not match local identity'')) (\<lambda>_.
      ebind (raise_if (\<not> is_str (fld d ''sender'') \<or> \<not> identity_ok (the_str (fld d ''sender'')) \<or> \<not> is_int (fld d ''timestamp''))
              (ProtocolError ''invalid ShadowChat sender or timestamp'')) (\<lambda>_.
      ebind (raise_if (\<not> is_str (fld d ''message_id'') \<or> \<not> hex_text 32 (the_str (fld d ''message_id'')))
              (ProtocolError ''invalid ShadowChat message id'')) (\<lambda>_.
      ebind (open_envelope nfc sg d key) (\<lambda>(nonce, ciphertext).
      ebind (open_text nfc ci (session_key c) nonce ciphertext (chat_metadata d)) (\<lambda>plaintext.
      ebind (normalized_text nfc (JStr plaintext)) (\<lambda>normalized.
      ebind (raise_if (normalized \<noteq> plaintext) (ProtocolError ''ShadowChat plaintext must be NFC'')) (\<lambda>_.
        Inr (d, normalized)))))))))))"

definition chat_decrypt ::
  "(ustr \<Rightarrow> ustr) \<Rightarrow> signer \<Rightarrow> aead \<Rightarrow> int \<Rightarrow> pyval \<Rightarrow> pyval \<Rightarrow> chat \<Rightarrow> ustr res \<times> chat" where
  "chat_decrypt nfc sg ci current document key c =
     (case open_message nfc sg ci c document key of
        Inl e \<Rightarrow> (Inl e, c)
      | Inr (d, normalized) \<Rightarrow>
          (case accept (the_str key @ 58 # the_str (fld d ''message_id'')) (the_int (fld d ''timestamp'')) current (chat_replay c) of
             (Inl e, w) \<Rightarrow> (Inl e, c\<lparr>chat_replay := w\<rparr>)
           | (Inr _, w) \<Rightarrow> (Inr normalized, c\<lparr>chat_replay := w\<rparr>)))"

section \<open>The default factory\<close>

text \<open>The state its decoders share: the replay window of assertions and the chat receiver.\<close>

record services =
  id_replay :: replay
  chat_service :: chat

type_synonym service = "services \<Rightarrow> pyval res \<times> services"

definition identity_service :: "(ustr \<Rightarrow> ustr) \<Rightarrow> signer \<Rightarrow> int \<Rightarrow> ustr \<Rightarrow> ustr list \<Rightarrow> pydict \<Rightarrow> service" where
  "identity_service nfc sg now key domains d s =
     (case verify nfc sg (JObj d) (JStr key) domains now (Some (id_replay s)) of
        (r, Some w) \<Rightarrow> (r, s\<lparr>id_replay := w\<rparr>) | (r, None) \<Rightarrow> (r, s))"

definition chat_service_decoder :: "(ustr \<Rightarrow> ustr) \<Rightarrow> signer \<Rightarrow> aead \<Rightarrow> int \<Rightarrow> ustr \<Rightarrow> pydict \<Rightarrow> service" where
  "chat_service_decoder nfc sg ci now key d s =
     (case chat_decrypt nfc sg ci now (JObj d) (JStr key) (chat_service s) of
        (Inl e, c) \<Rightarrow> (Inl e, s\<lparr>chat_service := c\<rparr>)
      | (Inr t, c) \<Rightarrow> (Inr (JStr t), s\<lparr>chat_service := c\<rparr>))"

definition default_factory ::
  "(ustr \<Rightarrow> ustr) \<Rightarrow> signer \<Rightarrow> aead \<Rightarrow> int \<Rightarrow> ustr option \<Rightarrow> ustr list \<Rightarrow> bool \<Rightarrow> ustr option \<Rightarrow> service decoders res" where
  "default_factory nfc sg ci now identity_key domains with_chat sender_key =
     ebind (case identity_key of
              None \<Rightarrow> Inr []
            | Some k \<Rightarrow> register (jstr ''shadow.identity'') (JInt 1) (identity_service nfc sg now k domains) []) (\<lambda>ds.
     ebind (raise_if (with_chat \<noteq> (sender_key \<noteq> None))
             (ProtocolError ''chat factory requires both receiver and trusted sender key'')) (\<lambda>_.
       (case sender_key of
          None \<Rightarrow> Inr ds
        | Some k \<Rightarrow> register (jstr ''shadow.chat'') (JInt 1) (chat_service_decoder nfc sg ci now k) ds)))"


section \<open>What the canonical form accepts\<close>

text \<open>The conditions of \<open>check_item\<close> without its counter, and what the counter adds up to.\<close>

definition text_cost :: "ustr \<Rightarrow> nat" where
  "text_cost s = 1 + length (concat (map utf8_char s))"

fun cost :: "pyval \<Rightarrow> nat" where
  "cost (JObj d) = 1 + sum_list (map (\<lambda>(k, v). text_cost k + cost v) d)"
| "cost (JList xs) = 1 + sum_list (map cost xs)"
| "cost (JStr s) = text_cost s"
| "cost _ = 1"

definition text_ok :: "nat \<Rightarrow> ustr \<Rightarrow> bool" where
  "text_ok depth s \<longleftrightarrow>
     depth \<le> 32 \<and> scalars s \<and> length (concat (map utf8_char s)) \<le> MAX_FRAME \<and> 0 \<notin> set s"

fun item_ok :: "nat \<Rightarrow> pyval \<Rightarrow> bool" where
  "item_ok depth (JObj d) = (depth \<le> 32 \<and> (\<forall>(k, v) \<in> set d. length k \<le> 256 \<and> text_ok (depth + 1) k \<and> item_ok (depth + 1) v))"
| "item_ok depth (JList xs) = (depth \<le> 32 \<and> (\<forall>x \<in> set xs. item_ok (depth + 1) x))"
| "item_ok depth (JStr s) = text_ok depth s"
| "item_ok depth (JInt i) = (depth \<le> 32 \<and> \<bar>i\<bar> \<le> 9007199254740991)"
| "item_ok depth (JFloat r) = False"
| "item_ok depth _ = (depth \<le> 32)"

lemma visit_Inr [simp]:
  "visit depth f b = Inr b' \<longleftrightarrow> b + 1 \<le> 1048576 \<and> depth \<le> 32 \<and> \<not> f \<and> b' = b + 1"
  by (auto simp: visit_def)

lemma check_text_Inr:
  "check_text depth s b = Inr b' \<longleftrightarrow> b + 1 \<le> 1048576 \<and> text_ok depth s \<and> b' = b + text_cost s"
  by (auto simp: check_text_def text_ok_def text_cost_def utf8_encode_def split: if_splits)

lemma efold_adds:
  assumes "efold f xs b = Inr b'" and "\<And>x b b'. x \<in> set xs \<Longrightarrow> f x b = Inr b' \<Longrightarrow> Q x \<and> b' = b + c x"
  shows "(\<forall>x \<in> set xs. Q x) \<and> b' = b + (sum_list (map c xs) :: nat)"
  using assms
proof (induction xs arbitrary: b)
  case (Cons x xs)
  from Cons.prems(1) obtain b1 where "f x b = Inr b1" and r: "efold f xs b1 = Inr b'" by auto
  with Cons.prems(2) [of x] have "Q x" "b1 = b + c x" by auto
  moreover have "(\<forall>x \<in> set xs. Q x) \<and> b' = b1 + sum_list (map c xs)"
    by (rule Cons.IH [OF r]) (use Cons.prems(2) in simp)
  ultimately show ?case by simp
qed simp

lemma efold_budget:
  assumes "\<And>x b. x \<in> set xs \<Longrightarrow> b + c x \<le> M \<Longrightarrow> f x b = Inr (b + c x)" and "b + sum_list (map c xs) \<le> (M :: nat)"
  shows "efold f xs b = Inr (b + sum_list (map c xs))"
  using assms
proof (induction xs arbitrary: b)
  case (Cons x xs)
  have "f x b = Inr (b + c x)" by (rule Cons.prems(1)) (use Cons.prems(2) in simp_all)
  moreover have "efold f xs (b + c x) = Inr (b + c x + sum_list (map c xs))"
    by (rule Cons.IH) (use Cons.prems in simp_all)
  ultimately show ?case by (simp add: add.assoc)
qed simp

lemma check_item_sound: "check_item depth v b = Inr b' \<Longrightarrow> item_ok depth v \<and> b' = b + cost v"
proof (induction v arbitrary: depth b b')
  case (JObj d)
  let ?f = "\<lambda>(key, child) b. ebind (raise_if (256 < length key) (ProtocolError ''invalid manifest key'')) (\<lambda>_.
         ebind (check_text (depth + 1) key b) (check_item (depth + 1) child))"
  let ?Q = "\<lambda>(k, v). length k \<le> 256 \<and> text_ok (depth + 1) k \<and> item_ok (depth + 1) v"
  from JObj.prems have d: "depth \<le> 32" and e: "efold ?f d (b + 1) = Inr b'" by simp_all
  have "(\<forall>p \<in> set d. ?Q p) \<and> b' = b + 1 + sum_list (map (\<lambda>(k, v). text_cost k + cost v) d)"
  proof (rule efold_adds [OF e])
    fix p c c' assume p: "p \<in> set d" and f: "?f p c = Inr c'"
    obtain k v where kv: "p = (k, v)" by (cases p)
    from f kv obtain c1 where "length k \<le> 256" "check_text (depth + 1) k c = Inr c1" "check_item (depth + 1) v c1 = Inr c'"
      by auto
    moreover from JObj.IH [of p v] p kv have "\<And>dp b b'. check_item dp v b = Inr b' \<Longrightarrow> item_ok dp v \<and> b' = b + cost v"
      by simp
    ultimately show "?Q p \<and> c' = c + (case p of (k, v) \<Rightarrow> text_cost k + cost v)"
      using kv by (auto simp: check_text_Inr) (metis add.assoc)
  qed
  with d show ?case by (auto simp: case_prod_beta)
next
  case (JList xs)
  from JList.prems have d: "depth \<le> 32" and e: "efold (check_item (depth + 1)) xs (b + 1) = Inr b'" by simp_all
  have "(\<forall>x \<in> set xs. item_ok (depth + 1) x) \<and> b' = b + 1 + sum_list (map cost xs)"
    by (rule efold_adds [OF e]) (rule JList.IH)
  with d show ?case by simp
qed (auto simp: check_text_Inr not_less)

lemma check_item_complete:
  "item_ok depth v \<Longrightarrow> b + cost v \<le> 1048576 \<Longrightarrow> check_item depth v b = Inr (b + cost v)"
proof (induction v arbitrary: depth b)
  case (JObj d)
  let ?f = "\<lambda>(key, child) b. ebind (raise_if (256 < length key) (ProtocolError ''invalid manifest key'')) (\<lambda>_.
         ebind (check_text (depth + 1) key b) (check_item (depth + 1) child))"
  let ?c = "\<lambda>(k, v). text_cost k + cost v"
  have "efold ?f d (b + 1) = Inr (b + 1 + sum_list (map ?c d))"
  proof (rule efold_budget)
    fix p c assume p: "p \<in> set d" and c: "c + ?c p \<le> 1048576"
    obtain k v where kv: "p = (k, v)" by (cases p)
    have o: "length k \<le> 256" "text_ok (depth + 1) k" "item_ok (depth + 1) v" using JObj.prems(1) p kv by auto
    have "check_text (depth + 1) k c = Inr (c + text_cost k)"
      using o c kv by (simp add: check_text_Inr text_cost_def)
    moreover have "check_item (depth + 1) v (c + text_cost k) = Inr (c + text_cost k + cost v)"
      by (rule JObj.IH [of p v]) (use p kv o c in simp_all)
    ultimately show "?f p c = Inr (c + ?c p)" using o(1) kv by (simp add: add.assoc raise_if_def)
  qed (use JObj.prems in simp)
  with JObj.prems show ?case by (simp add: visit_def raise_if_def)
next
  case (JList xs)
  have "efold (check_item (depth + 1)) xs (b + 1) = Inr (b + 1 + sum_list (map cost xs))"
    by (rule efold_budget [where M = 1048576]) (use JList in auto)
  with JList.prems show ?case by (simp add: visit_def raise_if_def)
next
  case (JStr s)
  then show ?case by (simp add: check_text_Inr text_cost_def)
qed (simp_all add: visit_def raise_if_def)

text \<open>The canonical text is never shorter than what the counter counts.\<close>

lemma json_char_longer: "is_scalar c \<Longrightarrow> length (utf8_char c) \<le> length (json_char c)"
  by (auto simp: utf8_char_def utf8_units_def json_char_def u_escape_def)

lemma text_cost_le: "scalars s \<Longrightarrow> text_cost s \<le> length (json_string s)"
proof -
  assume "scalars s"
  then have "length (concat (map utf8_char s)) \<le> length (concat (map json_char s))"
    by (induction s) (auto intro: add_mono json_char_longer)
  then show ?thesis by (simp add: text_cost_def json_string_def)
qed

lemma length_commas: "sum_list (map length ss) \<le> length (commas ss)"
  by (induction ss rule: commas.induct) auto



lemma cost_le_text: "jv_ok v \<Longrightarrow> cost v \<le> length (json_text v)"
proof (induction v)
  case (JObj d)
  have "cost (JObj d) = 1 + sum_list (map (\<lambda>p. text_cost (fst p) + cost (snd p)) d)"
    by (simp add: case_prod_beta' )
  also have "sum_list (map (\<lambda>p. text_cost (fst p) + cost (snd p)) d) \<le> sum_list (map (length \<circ> member_text) d)"
  proof (rule sum_list_mono)
    fix p assume p: "p \<in> set d"
    then have "scalars (fst p)" "jv_ok (snd p)" using JObj.prems by (auto simp: list_all_iff)
    with JObj.IH [of p "snd p"] p show "text_cost (fst p) + cost (snd p) \<le> (length \<circ> member_text) p"
      using text_cost_le by (cases p) (auto simp: member_text_def intro!: le_SucI add_mono)
  qed
  also have "sum_list (map (length \<circ> member_text) d) = sum_list (map (length \<circ> member_text) (sort_key fst d))"
    by (rule sum_list_sort_key [symmetric])
  also have "\<dots> \<le> length (commas (map member_text (sort_key fst d)))"
    using length_commas [of "map member_text (sort_key fst d)"] by (simp add: comp_def)
  finally show ?case by (simp only: json_text_obj) simp
next
  case (JList xs)
  have "sum_list (map cost xs) \<le> sum_list (map (length \<circ> json_text) xs)"
    by (rule sum_list_mono) (use JList in \<open>auto simp: list_all_iff\<close>)
  with length_commas [of "map json_text xs"] show ?case by (simp add: comp_def)
next
  case (JStr s)
  then show ?case by (simp add: text_cost_le)
next
  case (JInt i)
  then show ?case using opens_show_int [of i] by (cases "show_int i") (auto simp: opens_value_def)
qed (simp_all add: asc_def)

lemma item_ok_jv_ok: "json_doc v \<Longrightarrow> item_ok depth v \<Longrightarrow> jv_ok v"
proof (induction v arbitrary: depth)
  case (JInt i)
  then show ?case using portable_int_short [of i] by (auto simp: max_portable_def)
next
  case (JList xs)
  then show ?case by (auto simp: list_all_iff)
next
  case (JObj d)
  then show ?case by (fastforce simp: list_all_iff text_ok_def)
qed (auto simp: text_ok_def)

lemma app_canonical_iff:
  assumes "json_doc v"
  shows "app_canonical nfc v = Inr e \<longleftrightarrow>
    item_ok 0 v \<and> bounded nfc MAX_FRAME 0 v = Inr () \<and> length (json_text v) \<le> 1048576 \<and> e = map bt (json_text v)"
    (is "?l = ?r")
proof
  assume ?l
  then obtain b raw w where c: "check_item 0 v 0 = Inr b" and raw: "json_bytes v = Inr raw" and len: "length raw \<le> 1048576"
    and s: "strict_json nfc (\<lambda>_. None) 1048576 (int MAX_FRAME) False False (BytesIn raw) = Inr w" and e: "e = raw"
    by (auto simp: app_canonical_def not_less split: sum.splits)
  have ok: "item_ok 0 v" using check_item_sound [OF c] by simp
  have j: "jv_ok v" by (rule item_ok_jv_ok [OF assms ok])
  have r: "raw = map bt (json_text v)" using raw j by (simp add: json_bytes_ok)
  have a: "ascii (json_text v)" using j by (rule ascii_json_text)
  have dec: "utf8_decode raw = Inr (json_text v)"
    using utf8_decode_encode [OF utf8_encode_ascii [OF a]] r by simp
  have "json_loads (strict_hooks (\<lambda>_. None) False False) (json_text v) = Inr w" "bounded nfc MAX_FRAME 0 w = Inr ()"
    using s dec by (auto simp: strict_json_def)
  moreover have "json_loads (strict_hooks (\<lambda>_. None) False False) (json_text v) = Inr (jnorm v)"
    by (rule json_loads_text [OF plain_strict_hooks j])
  ultimately have "bounded nfc MAX_FRAME 0 v = Inr ()" using bounded_jnorm [of nfc MAX_FRAME 0 v] by simp
  with ok len e r show ?r by simp
next
  assume r: ?r
  then have j: "jv_ok v" using item_ok_jv_ok [OF assms] by blast
  have "check_item 0 v 0 = Inr (0 + cost v)"
    by (rule check_item_complete) (use r cost_le_text [OF j] in simp_all)
  moreover have "strict_json nfc (\<lambda>_. None) 1048576 (int MAX_FRAME) False False (BytesIn (map bt (json_text v))) = Inr (jnorm v)"
    by (rule strict_json_roundtrip) (use r assms in \<open>simp_all add: MAX_FRAME_def\<close>)
  ultimately show ?l using r j by (simp add: app_canonical_def json_bytes_ok)
qed

lemma item_ok_jnorm: "item_ok depth (jnorm v) = item_ok depth v"
proof (induction v arbitrary: depth)
  case (JObj d)
  then show ?case by (fastforce simp: case_prod_beta)
qed auto

lemma distinct_fst_sort: "distinct (map fst (sort_key fst d)) = distinct (map fst d)"
  unfolding distinct_map by simp

lemma json_doc_jnorm: "json_doc (jnorm v) = json_doc v"
proof (induction v)
  case (JList xs)
  then show ?case by (auto simp: list_all_iff)
next
  case (JObj d)
  have "distinct (map fst (sort_key fst (map (\<lambda>(k, v). (k, jnorm v)) d))) = distinct (map fst d)"
    unfolding sort_key_map map_fst_value by (rule distinct_fst_sort)
  then show ?case using JObj by (auto simp: list_all_iff)
qed simp_all

lemma app_canonical_jnorm: "json_doc v \<Longrightarrow> app_canonical nfc (jnorm v) = Inr e \<longleftrightarrow> app_canonical nfc v = Inr e"
  by (simp add: app_canonical_iff json_doc_jnorm item_ok_jnorm bounded_jnorm)

section \<open>Frames are read back\<close>

lemma strict_json_text:
  "utf8_encode t = Inr b \<Longrightarrow>
     strict_json nfc flt limit sl floats uint64 (TextIn t) = strict_json nfc flt limit sl floats uint64 (BytesIn b)"
  using utf8_decode_encode [of t b] by (simp add: strict_json_def catch_unicode_def)

lemma app_strict_json_canonical:
  assumes d: "json_doc v" "is_obj v" and c: "app_canonical nfc v = Inr e" and l: "int (length e) \<le> limit" "1 \<le> limit"
  shows "app_strict_json nfc limit e = Inr (the_obj (jnorm v))"
proof -
  from c have r: "item_ok 0 v" "bounded nfc MAX_FRAME 0 v = Inr ()" "length (json_text v) \<le> 1048576" "e = map bt (json_text v)"
    by (simp_all add: app_canonical_iff [OF d(1)])
  have a: "ascii (json_text v)" using item_ok_jv_ok [OF d(1) r(1)] by (rule ascii_json_text)
  have enc: "utf8_encode (json_text v) = Inr e" using utf8_encode_ascii [OF a] r(4) by simp
  have "strict_json nfc (\<lambda>_. None) limit (int MAX_FRAME) False False (BytesIn e) = Inr (jnorm v)"
    unfolding r(4) by (rule strict_json_roundtrip) (use r d l in \<open>simp_all add: MAX_FRAME_def\<close>)
  then have "strict_json nfc (\<lambda>_. None) limit (int MAX_FRAME) False False (TextIn (json_text v)) = Inr (jnorm v)"
    using strict_json_text [OF enc] by simp
  moreover have "app_canonical nfc (jnorm v) = Inr e" using c app_canonical_jnorm [OF d(1)] by blast
  ultimately show ?thesis
    using l d(2) utf8_decode_encode [OF enc] by (simp add: app_strict_json_def)
qed

lemma app_frame_roundtrip:
  assumes "json_doc v" and "app_encode nfc v = Inr frame"
  shows "app_decode nfc frame = Inr (the_obj (jnorm v))"
proof -
  from assms(2) obtain e where o: "is_obj v" and c: "app_canonical nfc v = Inr e" and l: "length e \<le> MAX_FRAME"
    and f: "frame = be_encode 4 (length e) @ e"
    by (auto simp: app_encode_def)
  have dec: "be_decode (take 4 frame) = length e"
    using f l be_decode_encode [of "length e" 4] by (simp add: MAX_FRAME_def)
  have "app_strict_json nfc (int MAX_FRAME) e = Inr (the_obj (jnorm v))"
    by (rule app_strict_json_canonical [OF assms(1) o c]) (use l in \<open>simp_all add: MAX_FRAME_def\<close>)
  with dec l f show ?thesis by (simp add: app_decode_def)
qed

section \<open>The replay window keeps the contract\<close>

definition window_accept :: "ustr \<Rightarrow> int \<Rightarrow> int \<Rightarrow> replay \<Rightarrow> bool \<times> replay" where
  "window_accept k e now w = (case accept_until k e now w of (r, w') \<Rightarrow> (r = Inr (), w'))"

definition window_ok :: "replay \<Rightarrow> bool" where
  "window_ok w \<longleftrightarrow> dict_ok (seen w) \<and> int (length (seen w)) \<le> rlimit w"



lemma accept_until_cases:
  assumes "accept_until k e now w = (r, w')" and "window_ok w"
  defines "live \<equiv> filter (\<lambda>(key, v). now \<le> v) (seen w)"
  shows "rlimit w' = rlimit w" and "window_ok w'"
    and "r = Inr () \<Longrightarrow> now \<le> e \<and> map_of live k = None \<and> seen w' = dset k e live"
    and "r \<noteq> Inr () \<Longrightarrow> seen w' = seen w \<or> seen w' = live"
proof -
  have ok: "dict_ok live" "length live \<le> length (seen w)"
    using assms(2) by (simp_all add: live_def window_ok_def dict_ok_filter)
  have "rlimit w' = rlimit w \<and> window_ok w' \<and>
      (r = Inr () \<longrightarrow> now \<le> e \<and> map_of live k = None \<and> seen w' = dset k e live) \<and>
      (r \<noteq> Inr () \<longrightarrow> seen w' = seen w \<or> seen w' = live)"
  proof (cases "256 < length k \<or> \<not> (now \<le> e \<and> e \<le> now + 3600)")
    case True
    then have "r \<noteq> Inr ()" "w' = w" using assms(1) by (auto simp: accept_until_def)
    then show ?thesis using assms(2) by simp
  next
    case valid: False
    have step: "(if map_of live k \<noteq> None \<or> rlimit w \<le> int (length live)
         then (Inl (ProtocolError ''replayed or saturated message''), w\<lparr>seen := live\<rparr>)
         else (Inr (), w\<lparr>seen := dset k e live\<rparr>)) = (r, w')"
      using assms(1) unfolding accept_until_def if_not_P [OF valid] Let_def by (simp add: live_def cong: if_cong)
    show ?thesis
    proof (cases "map_of live k \<noteq> None \<or> rlimit w \<le> int (length live)")
      case True
      then have "r \<noteq> Inr ()" "w' = w\<lparr>seen := live\<rparr>" using step by auto
      then show ?thesis using ok assms(2) by (simp add: window_ok_def)
    next
      case False
      then have "r = Inr ()" "w' = w\<lparr>seen := dset k e live\<rparr>" using step by auto
      then show ?thesis using ok False valid by (simp add: window_ok_def)
    qed
  qed
  then show "rlimit w' = rlimit w" "window_ok w'"
    "r = Inr () \<Longrightarrow> now \<le> e \<and> map_of live k = None \<and> seen w' = dset k e live"
    "r \<noteq> Inr () \<Longrightarrow> seen w' = seen w \<or> seen w' = live"
    by simp_all
qed

interpretation window: replay_guard window_accept "\<lambda>w. map_of (seen w)" window_ok
proof unfold_locales
  fix w k e now b w'
  assume w: "window_ok w" and "window_accept k e now w = (b, w')"
  then obtain r where r: "accept_until k e now w = (r, w')" "b \<longleftrightarrow> r = Inr ()"
    by (auto simp: window_accept_def split: prod.splits)
  note c = accept_until_cases [OF r(1) w]
  show "window_ok w'" by (rule c)
  show "map_of (seen w') j = Some x" if "map_of (seen w) j = Some x" "now \<le> x" "j \<noteq> k \<or> \<not> b" for j x
  proof -
    have l: "map_of (filter (\<lambda>(key, v). now \<le> v) (seen w)) j = Some x"
      using w that(1,2) by (simp add: window_ok_def map_of_filter_value)
    show ?thesis
    proof (cases b)
      case True
      then show ?thesis using c(3) r(2) l that(3) by (simp add: map_of_dset)
    next
      case False
      then show ?thesis using c(4) r(2) l that(1) by auto
    qed
  qed
next
  fix w k e now w' x
  assume w: "window_ok w" and "window_accept k e now w = (True, w')"
  then have r: "accept_until k e now w = (Inr (), w')"
    by (auto simp: window_accept_def split: prod.splits)
  note c = accept_until_cases(3) [OF r w refl]
  show "map_of (seen w') k = Some e" using c by (simp add: map_of_dset)
  show "x < now" if "map_of (seen w) k = Some x"
    using c w that by (auto simp: map_of_filter_value window_ok_def split: if_splits)
qed

section \<open>Texts that pass unchanged\<close>

lemma plain_identity: "identity_ok s \<Longrightarrow> list_all plain_char s \<and> length s \<le> 64"
proof -
  assume "identity_ok s"
  then obtain c r where s: "s = c # r" "is_word c" "list_all (\<lambda>c. is_word c \<or> one_of ''._-'' c) r" "length r \<le> 63"
    by (cases s) (auto simp: identity_ok_def matches_def)
  have "plain_char c" if "is_word c" for c
    using that by (auto simp: is_word_def is_lower_def is_upper_def is_digit_def plain_char_def)
  moreover have "plain_char c" if "one_of ''._-'' c" for c
    using that by (auto simp: one_of_def asc_def plain_char_def)
  ultimately show ?thesis using s by (auto simp: list_all_iff)
qed

lemma plain_domain: "domain_ok s \<Longrightarrow> list_all plain_char s \<and> length s \<le> 32"
  by (cases s) (auto simp: domain_ok_def matches_def list_all_iff is_lower_def is_digit_def plain_char_def)

lemma plain_str_ok:
  assumes "list_all plain_char s" "length s \<le> MAX_FRAME" "nfc_ok nfc"
  shows "bounded_str nfc MAX_FRAME s = Inr ()" "depth \<le> 32 \<Longrightarrow> text_ok depth s"
  using assms plain_text [OF assms(1)]
  by (auto simp: bounded_str_def utf8_encode_def ascii_scalars nfc_ok_def text_ok_def)

text \<open>Adding a plain string field to a canonical document leaves it canonical while it is short.\<close>

lemma canonical_extend:
  assumes c: "app_canonical nfc (jobj kvs) = Inr e" and d: "json_doc (jobj kvs)" and n: "nfc_ok nfc"
    and k: "k \<notin> fst ` set kvs" "list_all plain_char (asc k)" "length k \<le> 256"
    and s: "list_all plain_char s" and len: "length e + length k + length s + 10 \<le> 1048576"
  shows "json_doc (jobj (kvs @ [(k, JStr s)]))" and "\<exists>e'. app_canonical nfc (jobj (kvs @ [(k, JStr s)])) = Inr e'"
proof -
  let ?d = "map (\<lambda>(k, v). (asc k, v)) kvs"
  have e: "item_ok 0 (JObj ?d)" "bounded nfc MAX_FRAME 0 (JObj ?d) = Inr ()" "length e = length (json_text (JObj ?d))"
    using c by (simp_all add: app_canonical_iff [OF d] jobj_def [symmetric] del: item_ok.simps)
  show d': "json_doc (jobj (kvs @ [(k, JStr s)]))" using d k(1) by (auto simp: json_doc_literal)
  have st: "bounded_str nfc MAX_FRAME s = Inr ()" "text_ok 1 s" "bounded_str nfc MAX_FRAME (asc k) = Inr ()" "text_ok 1 (asc k)"
    using plain_str_ok [OF s _ n] plain_str_ok [OF k(2) _ n] k(3) len by (simp_all add: MAX_FRAME_def)
  have "length (json_text (JObj (?d @ [(asc k, JStr s)]))) \<le> length e + length k + length s + 10"
    using length_json_obj_snoc [of ?d "asc k" "JStr s"] plain_text(1) [OF s] plain_text(1) [OF k(2)] e(3) by simp
  then have "length (json_text (jobj (kvs @ [(k, JStr s)]))) \<le> 1048576" using len by (simp add: jobj_def)
  moreover have "item_ok 0 (jobj (kvs @ [(k, JStr s)]))" using e(1) st k(3) by (auto simp: jobj_def)
  moreover have "bounded nfc MAX_FRAME 0 (jobj (kvs @ [(k, JStr s)])) = Inr ()"
    using e(2) st by (auto simp: jobj_def bounded_obj bounded_atoms)
  ultimately show "\<exists>e'. app_canonical nfc (jobj (kvs @ [(k, JStr s)])) = Inr e'"
    using app_canonical_iff [OF d'] by blast
qed

section \<open>Assertions verify\<close>

lemma unsigned_literal:
  "''signature'' \<notin> fst ` set kvs \<Longrightarrow> unsigned (the_obj (jobj (kvs @ [(''signature'', v)]))) = jobj kvs"
proof -
  assume a: "''signature'' \<notin> fst ` set kvs"
  then have "ddel (asc ''signature'') (map (\<lambda>(k, v). (asc k, v)) kvs) = map (\<lambda>(k, v). (asc k, v)) kvs"
    by (intro ddel_absent) (simp add: map_of_literal map_of_eq_None_iff)
  then show ?thesis by (simp add: unsigned_def jobj_def AList.delete_eq)
qed

lemma signature_valid_own:
  assumes "signer_ok sg" and "app_canonical nfc (jobj kvs) = Inr e" and "''signature'' \<notin> fst ` set kvs"
  shows "signature_valid nfc sg (the_obj (jobj (kvs @ [(''signature'', JStr (to_hex (sig_sign sg sk e)))])))
     (JStr (to_hex (sig_public sg sk)))"
proof -
  let ?d = "the_obj (jobj (kvs @ [(''signature'', JStr (to_hex (sig_sign sg sk e)))]))"
  have "map_of (kvs @ [(''signature'', v)]) ''signature'' = Some v" for v :: pyval
    using assms(3) by (simp add: map_add_def map_of_eq_None_iff split: option.split) (metis map_of_eq_None_iff not_None_eq)
  then have f: "fld ?d ''signature'' = JStr (to_hex (sig_sign sg sk e))" by (simp add: fld_jobj)
  have "hex_text 128 (to_hex (sig_sign sg sk e))" "hex_text 64 (to_hex (sig_public sg sk))"
    using hex_text_to_hex [of "sig_sign sg sk e" 64] hex_text_to_hex [of "sig_public sg sk" 32] assms(1)
    by (simp_all add: signer_ok_def)
  then show ?thesis using assms f unsigned_literal [OF assms(3)]
    by (simp add: signature_valid_def signer_ok_def)
qed

lemma json_doc_atoms [simp]: "json_doc (JStr s)" "json_doc (JInt i)"
  by simp_all

definition assertion_body :: "identity \<Rightarrow> pyval \<Rightarrow> pyval \<Rightarrow> int \<Rightarrow> int \<Rightarrow> bytes \<Rightarrow> pyval \<Rightarrow> (string \<times> pyval) list" where
  "assertion_body me subject domain now ttl random claims =
     [(''protocol'', jstr ''shadow.identity''), (''version'', JInt 1), (''issuer'', JStr (ident me)),
      (''subject'', subject), (''domain'', domain), (''issued_at'', JInt now),
      (''expires_at'', JInt (now + ttl)), (''nonce'', JStr (to_hex random)), (''claims'', claims)]"

lemma assertion_parts:
  assumes "assertion nfc sg now random me subject domain claims ttl = Inr doc"
  obtains s dm n c e where "subject = JStr s" "identity_ok s" "domain = JStr dm" "domain_ok dm" "is_obj claims"
    "ttl = JInt n" "1 \<le> n" "n \<le> 3600" "app_canonical nfc claims = Inr c" "length c \<le> 16384"
    "app_canonical nfc (jobj (assertion_body me subject domain now n random claims)) = Inr e"
    "doc = jobj (assertion_body me subject domain now n random claims @ [(''signature'', JStr (to_hex (sig_sign sg (private_key me) e)))])"
proof -
  from assms obtain c e where a: "is_str subject" "identity_ok (the_str subject)" "is_str domain" "domain_ok (the_str domain)"
    "is_obj claims" "app_canonical nfc claims = Inr c" "length c \<le> 16384" "int_in 1 3600 ttl"
    "app_canonical nfc (jobj (assertion_body me subject domain now (the_int ttl) random claims)) = Inr e"
    "doc = jobj (assertion_body me subject domain now (the_int ttl) random claims @ [(''signature'', JStr (to_hex (sig_sign sg (private_key me) e)))])"
    unfolding assertion_def Let_def ebind_Inr raise_if_Inr assertion_body_def de_Morgan_disj not_not not_less by auto
  from a(8) obtain n where n: "ttl = JInt n" "1 \<le> n" "n \<le> 3600" by (auto simp: int_in_iff)
  show thesis
    by (rule that [of "the_str subject" "the_str domain" n c e])
      (use a n is_kindE(3) [OF a(1)] is_kindE(3) [OF a(3)] in simp_all)
qed

lemma assertion_canonical:
  assumes me: "identity_ok (ident me)" and s: "identity_ok s" and dm: "domain_ok dm" and r: "length random = 16"
    and cl: "json_doc claims" "app_canonical nfc claims = Inr c" "length c \<le> 16384" and n: "nfc_ok nfc"
    and e: "app_canonical nfc (jobj (assertion_body me (JStr s) (JStr dm) now ttl random claims)) = Inr e"
    and sg: "length sig = 64"
  defines "sdoc \<equiv> jobj (assertion_body me (JStr s) (JStr dm) now ttl random claims @ [(''signature'', JStr (to_hex sig))])"
  shows "\<exists>e'. app_canonical nfc sdoc = Inr e'"
proof -
  let ?b = "assertion_body me (JStr s) (JStr dm) now ttl random claims"
  have d: "json_doc (jobj ?b)" using cl(1) by (simp add: json_doc_literal assertion_body_def)
  have i: "item_ok 0 (jobj ?b)" and le: "length e = length (json_text (jobj ?b))"
    using e by (simp_all add: app_canonical_iff [OF d])
  have ints: "\<bar>now\<bar> \<le> 9007199254740991" "\<bar>now + ttl\<bar> \<le> 9007199254740991"
    using i by (simp_all add: jobj_def assertion_body_def)
  have lc: "length (json_text claims) \<le> 16384"
    using cl by (simp add: app_canonical_iff)
  have "length (json_string (ident me)) \<le> 66" "length (json_string s) \<le> 66" "length (json_string dm) \<le> 34"
    "length (json_string (to_hex random)) = 34"
    using plain_identity [OF me] plain_identity [OF s] plain_domain [OF dm] plain_text(1) [OF plain_hex] r plain_text(1)
    by fastforce+
  then have "length e \<le> 20000"
    unfolding le jobj_def using lc length_show_int [OF ints(1)] length_show_int [OF ints(2)] length_show_int [of 1]
    by (subst length_json_obj) (simp_all add: assertion_body_def length_asc_string plain_char_def)
  then show ?thesis
    unfolding sdoc_def
    by (intro canonical_extend(2) [OF e d n])
      (simp_all add: plain_hex sg assertion_body_def plain_asc plain_char_def)
qed

lemma own_assertion_checks:
  assumes sg: "signer_ok sg" and n: "nfc_ok nfc" and cl: "json_doc claims" and me: "identity_ok (ident me)"
    and r: "length random = 16"
    and a: "assertion nfc sg now random me subject (JStr dm) claims (JInt ttl) = Inr doc"
    and t: "now \<le> current" "current \<le> now + ttl" "dm \<in> set allowed"
  shows "check_assertion nfc sg doc (JStr (public_hex sg me)) allowed current = Inr (the_obj doc)"
    and "fld (the_obj doc) ''claims'' = claims" "fld (the_obj doc) ''expires_at'' = JInt (now + ttl)"
    "fld (the_obj doc) ''nonce'' = JStr (to_hex random)" "1 \<le> ttl" "ttl \<le> 3600"
proof -
  from a obtain s dm' ttl' c e where p: "subject = JStr s" "identity_ok s" "JStr dm = JStr dm'" "domain_ok dm'" "is_obj claims"
    "JInt ttl = JInt ttl'" "1 \<le> ttl'" "ttl' \<le> 3600" and c: "app_canonical nfc claims = Inr c" "length c \<le> 16384"
    and e0: "app_canonical nfc (jobj (assertion_body me subject (JStr dm) now ttl' random claims)) = Inr e"
    and d0: "doc = jobj (assertion_body me subject (JStr dm) now ttl' random claims @ [(''signature'', JStr (to_hex (sig_sign sg (private_key me) e)))])"
    by (rule assertion_parts)
  let ?b = "assertion_body me (JStr s) (JStr dm) now ttl random claims"
  have e: "app_canonical nfc (jobj ?b) = Inr e" and doc: "doc = jobj (?b @ [(''signature'', JStr (to_hex (sig_sign sg (private_key me) e)))])"
    and dm: "domain_ok dm" and ttl: "1 \<le> ttl" "ttl \<le> 3600"
    using e0 d0 p by simp_all
  have f: "fld (the_obj doc) k = (case map_of (?b @ [(''signature'', JStr (to_hex (sig_sign sg (private_key me) e)))]) k of None \<Rightarrow> JNull | Some v \<Rightarrow> v)" for k
    unfolding doc by (rule fld_jobj)
  show "fld (the_obj doc) ''claims'' = claims" "fld (the_obj doc) ''expires_at'' = JInt (now + ttl)"
    "fld (the_obj doc) ''nonce'' = JStr (to_hex random)"
    by (simp_all add: f assertion_body_def)
  show "1 \<le> ttl" "ttl \<le> 3600" by (rule ttl)+
  have k: "keys_are assertion_fields (the_obj doc)"
    unfolding keys_are_def doc keys_jobj by (simp add: assertion_body_def assertion_fields_def names_def)
  obtain e' where e': "app_canonical nfc doc = Inr e'"
    using assertion_canonical [OF me p(2) dm r cl c n e, of "sig_sign sg (private_key me) e"] sg
    unfolding doc by (auto simp: signer_ok_def)
  have v: "signature_valid nfc sg (the_obj doc) (JStr (public_hex sg me))"
    unfolding doc public_hex_def by (rule signature_valid_own [OF sg e]) (simp add: assertion_body_def)
  have h: "hex_text 32 (to_hex random)" using hex_text_to_hex [OF r] by simp
  have o: "is_obj doc" by (simp add: doc)
  show "check_assertion nfc sg doc (JStr (public_hex sg me)) allowed current = Inr (the_obj doc)"
    unfolding check_assertion_def Let_def using k e' v o p me dm c h t ttl
    by (simp add: f [of "''protocol''"] f [of "''version''"] f [of "''issuer''"] f [of "''subject''"] f [of "''domain''"]
        f [of "''issued_at''"] f [of "''expires_at''"] f [of "''claims''"] f [of "''nonce''"] assertion_body_def raise_if_def)
qed

lemma accept_until_fresh:
  assumes "length k \<le> 256" "now \<le> e" "e \<le> now + 3600" "map_of (seen w) k = None" "int (length (seen w)) < rlimit w"
  shows "\<exists>w'. accept_until k e now w = (Inr (), w') \<and> map_of (seen w') k = Some e"
proof -
  let ?l = "filter (\<lambda>(key, v). now \<le> v) (seen w)"
  have "map_of ?l k = None" using assms(4) by (force simp: map_of_eq_None_iff)
  moreover have "int (length ?l) < rlimit w"
    using assms(5) length_filter_le [of "\<lambda>(key, v). now \<le> v" "seen w"] by linarith
  ultimately show ?thesis using assms(1-3) by (simp add: accept_until_def Let_def map_of_dset)
qed

section \<open>Chat messages arrive\<close>

lemma normalized_Inr:
  "normalized_text nfc (JStr t) = Inr u \<longleftrightarrow>
     u = nfc t \<and> scalars u \<and> u \<noteq> [] \<and> 0 \<notin> set u \<and> length (concat (map utf8_char u)) \<le> MAX_TEXT"
proof -
  have e: "concat (map utf8_char v) = [] \<longleftrightarrow> v = []" for v
    by (cases v) (simp_all add: utf8_char_def utf8_units_def del: concat_eq_Nil_conv)
  show ?thesis
    by (cases "scalars (nfc t)")
      (auto simp add: normalized_text_def Let_def utf8_encode_def e not_less simp del: concat_eq_Nil_conv)
qed

definition chat_body :: "ustr \<Rightarrow> ustr \<Rightarrow> bytes \<Rightarrow> int \<Rightarrow> bytes \<Rightarrow> (string \<times> pyval) list" where
  "chat_body sender recipient mid now nonce =
     [(''protocol'', jstr ''shadow.chat''), (''version'', JInt 1), (''sender'', JStr sender),
      (''recipient'', JStr recipient), (''message_id'', JStr (to_hex mid)), (''timestamp'', JInt now),
      (''nonce'', JStr (b64encode nonce))]"

lemma chat_encrypt_parts:
  assumes "chat_encrypt nfc sg ci now nonce mid c (JStr recipient) (JStr t) = Inr doc"
  obtains plain ad e where "identity_ok recipient" "normalized_text nfc (JStr t) = Inr (nfc t)"
    "utf8_encode (nfc t) = Inr plain"
    "app_canonical nfc (jobj (chat_body (ident (chat_self c)) recipient mid now nonce)) = Inr ad"
    "app_canonical nfc (jobj (chat_body (ident (chat_self c)) recipient mid now nonce @
       [(''ciphertext'', JStr (b64encode (aead_encrypt ci (session_key c) nonce plain ad)))])) = Inr e"
    "doc = jobj ((chat_body (ident (chat_self c)) recipient mid now nonce @
       [(''ciphertext'', JStr (b64encode (aead_encrypt ci (session_key c) nonce plain ad)))]) @
       [(''signature'', JStr (to_hex (sig_sign sg (private_key (chat_self c)) e)))])"
proof -
  from assms obtain u plain ad e where a: "identity_ok recipient" "normalized_text nfc (JStr t) = Inr u"
    "utf8_encode u = Inr plain"
    "app_canonical nfc (jobj (chat_body (ident (chat_self c)) recipient mid now nonce)) = Inr ad"
    "app_canonical nfc (jobj (chat_body (ident (chat_self c)) recipient mid now nonce @
       [(''ciphertext'', JStr (b64encode (aead_encrypt ci (session_key c) nonce plain ad)))])) = Inr e"
    "doc = jobj ((chat_body (ident (chat_self c)) recipient mid now nonce @
       [(''ciphertext'', JStr (b64encode (aead_encrypt ci (session_key c) nonce plain ad)))]) @
       [(''signature'', JStr (to_hex (sig_sign sg (private_key (chat_self c)) e)))])"
    unfolding chat_encrypt_def Let_def ebind_Inr raise_if_Inr chat_body_def by auto
  have "u = nfc t" using a(2) by (simp add: normalized_Inr)
  with a show ?thesis by (intro that) simp_all
qed

lemma own_message_opens:
  assumes sg: "signer_ok sg" and ci: "aead_ok ci" and n: "nfc_ok nfc"
    and me: "identity_ok (ident (chat_self c))" and nonce: "length nonce = 12" "length mid = 16"
    and key: "session_key c' = session_key c"
    and e: "chat_encrypt nfc sg ci now nonce mid c (JStr (ident (chat_self c'))) (JStr t) = Inr doc"
  shows "open_message nfc sg ci c' doc (JStr (public_hex sg (chat_self c))) = Inr (the_obj doc, nfc t)"
    and "fld (the_obj doc) ''message_id'' = JStr (to_hex mid)" "fld (the_obj doc) ''timestamp'' = JInt now"
proof -
  let ?b = "chat_body (ident (chat_self c)) (ident (chat_self c')) mid now nonce"
  from e obtain plain ad e1 where r: "identity_ok (ident (chat_self c'))" and nt: "normalized_text nfc (JStr t) = Inr (nfc t)"
    and plain: "utf8_encode (nfc t) = Inr plain" and ad: "app_canonical nfc (jobj ?b) = Inr ad"
    and e1: "app_canonical nfc (jobj (?b @ [(''ciphertext'', JStr (b64encode (aead_encrypt ci (session_key c) nonce plain ad)))])) = Inr e1"
    and doc: "doc = jobj ((?b @ [(''ciphertext'', JStr (b64encode (aead_encrypt ci (session_key c) nonce plain ad)))]) @
       [(''signature'', JStr (to_hex (sig_sign sg (private_key (chat_self c)) e1)))])"
    by (rule chat_encrypt_parts)
  let ?ct = "aead_encrypt ci (session_key c) nonce plain ad"
  let ?kvs = "?b @ [(''ciphertext'', JStr (b64encode ?ct))]"
  let ?sig = "JStr (to_hex (sig_sign sg (private_key (chat_self c)) e1))"
  have f: "fld (the_obj doc) k = (case map_of (?kvs @ [(''signature'', ?sig)]) k of None \<Rightarrow> JNull | Some v \<Rightarrow> v)" for k
    unfolding doc by (rule fld_jobj)
  show mid: "fld (the_obj doc) ''message_id'' = JStr (to_hex mid)" and ts: "fld (the_obj doc) ''timestamp'' = JInt now"
    by (simp_all add: f chat_body_def)
  have norm: "length plain \<le> 65536" using nt plain by (auto simp: normalized_Inr utf8_encode_def MAX_TEXT_def split: if_splits)
  have lct: "length ?ct = length plain + 16" using ci by (simp add: aead_ok_def)
  have l64: "length (b64encode ?ct) \<le> 4 * ((MAX_TEXT + 18) div 3)"
    using norm by (simp add: length_b64encode lct MAX_TEXT_def div_le_mono)
  have d: "json_doc (jobj ?kvs)" by (simp add: json_doc_literal chat_body_def)
  have "item_ok 0 (jobj ?kvs)" and le: "length e1 = length (json_text (jobj ?kvs))"
    using e1 by (simp_all add: app_canonical_iff [OF d])
  then have int: "\<bar>now\<bar> \<le> 9007199254740991" by (simp add: jobj_def chat_body_def)
  have il: "length (json_string s) \<le> 66" if "identity_ok s" for s
    using plain_identity [OF that] plain_text(1) [of s] by simp
  have "length (json_string (to_hex mid)) = 34" using plain_text(1) [OF plain_hex [of mid]] nonce by simp
  moreover have "length (json_string (b64encode nonce)) = 18"
    using plain_text(1) [OF plain_b64 [of nonce]] nonce by (simp add: length_b64encode)
  moreover have "length (json_string (b64encode ?ct)) \<le> 87406"
    using plain_text(1) [OF plain_b64 [of ?ct]] l64 by (simp add: MAX_TEXT_def)
  moreover note il [OF me] il [OF r]
  ultimately have "length e1 \<le> 100000"
    unfolding le jobj_def using length_show_int [OF int] length_show_int [of 1]
    by (subst length_json_obj) (simp_all add: chat_body_def length_asc_string plain_char_def)
  then obtain e2 where e2: "app_canonical nfc doc = Inr e2"
    unfolding doc using canonical_extend(2) [OF e1 d n _ _ _ plain_hex, of "''signature''" "sig_sign sg (private_key (chat_self c)) e1"] sg
    by (simp add: signer_ok_def chat_body_def plain_asc plain_char_def) blast
  have sv: "signature_valid nfc sg (the_obj doc) (JStr (public_hex sg (chat_self c)))"
    unfolding doc public_hex_def by (rule signature_valid_own [OF sg e1]) (simp add: chat_body_def)
  have md: "chat_metadata (the_obj doc) = jobj ?b"
    by (simp add: chat_metadata_def metadata_fields_def f chat_body_def)
  have env: "open_envelope nfc sg (the_obj doc) (JStr (public_hex sg (chat_self c))) = Inr (nonce, ?ct)"
    using sv l64 nonce(1) by (simp add: open_envelope_def Let_def f chat_body_def length_b64encode)
  have tx: "open_text nfc ci (session_key c') nonce ?ct (chat_metadata (the_obj doc)) = Inr (nfc t)"
    using ci nonce(1) utf8_decode_encode [OF plain] by (simp add: open_text_def md ad key aead_ok_def)
  have nn: "normalized_text nfc (JStr (nfc t)) = Inr (nfc t)"
    using nt n by (simp add: normalized_Inr nfc_ok_def)
  have k: "keys_are chat_fields (the_obj doc)"
    unfolding keys_are_def doc keys_jobj by (simp add: chat_body_def chat_fields_def metadata_fields_def names_def)
  have h: "hex_text 32 (to_hex mid)" using hex_text_to_hex [OF nonce(2)] by simp
  have o: "is_obj doc" by (simp add: doc)
  have g: "fld (the_obj doc) ''protocol'' = jstr ''shadow.chat''" "fld (the_obj doc) ''version'' = JInt 1"
    "fld (the_obj doc) ''recipient'' = JStr (ident (chat_self c'))" "fld (the_obj doc) ''sender'' = JStr (ident (chat_self c))"
    by (simp_all add: f chat_body_def)
  show "open_message nfc sg ci c' doc (JStr (public_hex sg (chat_self c))) = Inr (the_obj doc, nfc t)"
    by (simp add: open_message_def Let_def o k g e2 me mid ts h env tx nn)
qed

section \<open>Properties\<close>

lemma accept_until_repeat:
  assumes "window_ok w" and "map_of (seen w) k = Some x" and "now \<le> x"
  shows "\<exists>e' w'. accept_until k e now w = (Inl e', w')"
proof -
  obtain r w' where r: "accept_until k e now w = (r, w')" by (cases "accept_until k e now w")
  have "r \<noteq> Inr ()"
  proof
    assume "r = Inr ()"
    then have "window_accept k e now w = (True, w')" using r by (simp add: window_accept_def)
    from window.fresh [OF assms(1) this assms(2)] assms(3) show False by simp
  qed
  then obtain e' where "r = Inl e'" by (cases r) auto
  with r show ?thesis by blast
qed

text \<open>The values the theorems are applied to: identities, a claim set, a document.\<close>

definition sample_identity :: "string \<Rightarrow> identity" where
  "sample_identity n = \<lparr>ident = asc n, private_key = []\<rparr>"

definition sample_nonce :: bytes where
  "sample_nonce = replicate 16 0"

lemma sample_identity_ok: "identity_ok (ident (sample_identity ''alice''))" "identity_ok (ident (sample_identity ''bob''))"
  "identity_ok (asc ''bob'')" "domain_ok (asc ''work'')"
  by code_simp+

text \<open>A flat document of short plain strings and small integers is canonical.\<close>

fun flat_value :: "pyval \<Rightarrow> bool" where
  "flat_value (JStr s) = (list_all plain_char s \<and> length s \<le> 200)"
| "flat_value (JInt i) = (\<bar>i\<bar> \<le> 9007199254740991)"
| "flat_value (JObj d) = (d = [])"
| "flat_value _ = False"

lemma flat_value_ok:
  assumes "flat_value v"
  shows "json_doc v" "item_ok 1 v" "bounded (\<lambda>s. s) MAX_FRAME 1 v = Inr ()" "length (json_text v) \<le> 210"
proof -
  have st: "text_ok 1 s \<and> bounded_str (\<lambda>s. s) MAX_FRAME s = Inr () \<and> length (json_string s) \<le> 210"
    if "list_all plain_char s" "length s \<le> 200" for s
    using plain_str_ok [OF that(1) _ nfc_ok_id] plain_text(1) [OF that(1)] that(2) by (simp add: MAX_FRAME_def)
  have it: "- max_portable \<le> i \<and> i \<le> max_portable \<and> length (show_int i) \<le> 210" if "\<bar>i\<bar> \<le> 9007199254740991" for i
    using that length_show_int [OF that] by (auto simp: max_portable_def)
  show "json_doc v" "item_ok 1 v" "bounded (\<lambda>s. s) MAX_FRAME 1 v = Inr ()" "length (json_text v) \<le> 210"
    using assms st it by (cases v; auto simp: bounded_iff)+
qed

lemma flat_canonical:
  assumes "distinct (map fst kvs)" and "length kvs \<le> 20"
    and "\<forall>(k, v) \<in> set kvs. list_all (\<lambda>c. plain_char (of_char c)) k \<and> length k \<le> 200 \<and> flat_value v"
  shows "\<exists>e. app_canonical (\<lambda>s. s) (jobj kvs) = Inr e"
proof -
  let ?d = "map (\<lambda>(k, v). (asc k, v)) kvs"
  have ks: "text_ok 1 (asc k) \<and> bounded_str (\<lambda>s. s) MAX_FRAME (asc k) = Inr () \<and> length (json_string (asc k)) \<le> 202"
    if "(k, v) \<in> set kvs" for k v
    using that assms(3) plain_str_ok [of "asc k", OF _ _ nfc_ok_id] length_asc_string [of k]
    by (fastforce simp: plain_asc MAX_FRAME_def)
  have vs: "flat_value v" if "(k, v) \<in> set kvs" for k v using that assms(3) by blast
  have d: "json_doc (jobj kvs)" using assms(1) flat_value_ok(1) vs by (fastforce simp: json_doc_literal)
  have "item_ok 0 (jobj kvs)"
    unfolding jobj_def item_ok.simps using ks vs flat_value_ok(2) assms(3) by fastforce
  moreover have "bounded (\<lambda>s. s) MAX_FRAME 0 (jobj kvs) = Inr ()"
    unfolding jobj_def bounded_obj using ks vs flat_value_ok(3) by fastforce
  moreover have "length (json_text (jobj kvs)) \<le> 1048576"
  proof (cases "kvs = []")
    case False
    let ?f = "\<lambda>p. length (json_string (fst p)) + length (json_text (snd p)) + 2"
    have "?f p \<le> 420" if p: "p \<in> set ?d" for p
    proof -
      from p obtain k v where kv: "(k, v) \<in> set kvs" "p = (asc k, v)" by auto
      show ?thesis using ks [OF kv(1)] flat_value_ok(4) [OF vs [OF kv(1)]] kv(2) by simp
    qed
    then have "sum_list (map ?f ?d) \<le> sum_list (map (\<lambda>p. 420) ?d)" by (rule sum_list_mono)
    moreover have "sum_list (map (\<lambda>p. 420) xs) = 420 * length xs" for xs :: pydict
      by (induction xs) simp_all
    ultimately have "sum_list (map ?f ?d) \<le> 420 * 20" using assms(2) by (simp del: map_map)
    then show ?thesis using False length_json_obj [of ?d] by (simp add: jobj_def)
  qed (simp add: jobj_def)
  ultimately show ?thesis using app_canonical_iff [OF d] by blast
qed

text \<open>C21. An assertion that was issued verifies under the issuer's public key while it is valid, for
  an allowed domain and a replay window that has room and has not seen it, and returns the
  claims; and from then on the same assertion is refused until it has expired.\<close>

theorem assertion_accepted_once:
  assumes "signer_ok sg" and "nfc_ok nfc" and "json_doc claims" and "identity_ok (ident me)" and "length random = 16"
    and a: "assertion nfc sg now random me subject (JStr domain) claims (JInt ttl) = Inr doc"
    and t: "now \<le> current" "current \<le> now + ttl" and d: "domain \<in> set allowed"
    and w: "window_ok w" "map_of (seen w) (public_hex sg me @ 58 # to_hex random) = None" "int (length (seen w)) < rlimit w"
  shows "\<exists>w'. verify nfc sg doc (JStr (public_hex sg me)) allowed current (Some w) = (Inr claims, Some w') \<and>
     (\<forall>later. current \<le> later \<longrightarrow> later \<le> now + ttl \<longrightarrow>
        (\<exists>e w''. verify nfc sg doc (JStr (public_hex sg me)) allowed later (Some w') = (Inl e, Some w'')))"
proof -
  note own = own_assertion_checks [OF assms(1-5) a]
  note c = own [OF t d]
  have "length (public_hex sg me @ 58 # to_hex random) \<le> 256"
    using assms(1,5) by (simp add: public_hex_def signer_ok_def)
  then obtain w' where w': "accept_until (public_hex sg me @ 58 # to_hex random) (now + ttl) current w = (Inr (), w')"
    "map_of (seen w') (public_hex sg me @ 58 # to_hex random) = Some (now + ttl)"
    using accept_until_fresh [OF _ t(2) _ w(2,3)] t c(6) by auto
  have ok: "window_ok w'" by (rule accept_until_cases(2) [OF w'(1) w(1)])
  have "\<exists>e w''. verify nfc sg doc (JStr (public_hex sg me)) allowed later (Some w') = (Inl e, Some w'')"
    if l: "current \<le> later" "later \<le> now + ttl" for later
  proof -
    have "now \<le> later" using t l by simp
    note c2 = own [OF this l(2) d]
    obtain e w'' where "accept_until (public_hex sg me @ 58 # to_hex random) (now + ttl) later w' = (Inl e, w'')"
      using accept_until_repeat [OF ok w'(2) l(2)] by blast
    then show ?thesis by (simp add: verify_def c2)
  qed
  moreover have "verify nfc sg doc (JStr (public_hex sg me)) allowed current (Some w) = (Inr claims, Some w')"
    by (simp add: verify_def c w')
  ultimately show ?thesis by blast
qed

lemma sample_assertion:
  "\<exists>doc. assertion (\<lambda>s. s) toy_signer 1000 sample_nonce (sample_identity ''alice'') (jstr ''bob'') (jstr ''work'') (JObj []) (JInt 60) = Inr doc"
proof -
  have "list_all plain_char (to_hex sample_nonce)" "length (to_hex sample_nonce) = 32"
    by (simp_all add: plain_hex sample_nonce_def)
  then have "\<exists>e. app_canonical (\<lambda>s. s) (jobj (assertion_body (sample_identity ''alice'') (jstr ''bob'') (jstr ''work'') 1000 60 sample_nonce (JObj []))) = Inr e"
    by (intro flat_canonical) (simp_all add: assertion_body_def plain_char_def sample_identity_def plain_asc)
  then obtain e where e: "app_canonical (\<lambda>s. s) (jobj (assertion_body (sample_identity ''alice'') (jstr ''bob'') (jstr ''work'') 1000 60 sample_nonce (JObj []))) = Inr e"
    by blast
  have "\<exists>c. app_canonical (\<lambda>s. s) (jobj []) = Inr c" by (rule flat_canonical) simp_all
  then obtain c where c: "app_canonical (\<lambda>s. s) (JObj []) = Inr c" by (auto simp: jobj_def)
  then have "length c \<le> 16384" by (simp add: app_canonical_iff)
  with c e show ?thesis
    using sample_identity_ok by (simp add: assertion_def Let_def assertion_body_def raise_if_def)
qed

theorem assertion_accepted_once_witness:
  "\<exists>doc w'. verify (\<lambda>s. s) toy_signer doc (JStr (public_hex toy_signer (sample_identity ''alice''))) [asc ''work''] 1010
       (Some \<lparr>rlimit = 4096, seen = []\<rparr>) = (Inr (JObj []), Some w') \<and>
     (\<exists>e w''. verify (\<lambda>s. s) toy_signer doc (JStr (public_hex toy_signer (sample_identity ''alice''))) [asc ''work''] 1020
       (Some w') = (Inl e, Some w''))"
proof -
  from sample_assertion obtain doc where
    doc: "assertion (\<lambda>s. s) toy_signer 1000 sample_nonce (sample_identity ''alice'') (jstr ''bob'') (jstr ''work'') (JObj []) (JInt 60) = Inr doc"
    by blast
  have "window_ok \<lparr>rlimit = 4096, seen = []\<rparr>" by (simp add: window_ok_def)
  from assertion_accepted_once [OF toy_signer_ok nfc_ok_id _ sample_identity_ok(1) _ doc _ _ _ this, of 1010 "[asc ''work'']"]
  obtain w' where "verify (\<lambda>s. s) toy_signer doc (JStr (public_hex toy_signer (sample_identity ''alice''))) [asc ''work''] 1010
       (Some \<lparr>rlimit = 4096, seen = []\<rparr>) = (Inr (JObj []), Some w')"
    "\<forall>later\<ge>1010. later \<le> 1060 \<longrightarrow> (\<exists>e w''. verify (\<lambda>s. s) toy_signer doc (JStr (public_hex toy_signer (sample_identity ''alice''))) [asc ''work''] later
       (Some w') = (Inl e, Some w''))"
    by (auto simp: sample_nonce_def)
  then show ?thesis by (intro exI [of _ doc] exI [of _ w'] conjI) auto
qed

text \<open>C23. A chat message encrypted for a receiver with the same session key is decrypted by it to
  the normalised text, when the message is recent and its id is new to the receiver.\<close>

theorem chat_message_delivered:
  assumes "signer_ok sg" and "aead_ok ci" and "nfc_ok nfc" and "identity_ok (ident (chat_self c))"
    and "length nonce = 12" and mid: "length mid = 16" and "session_key c' = session_key c"
    and e: "chat_encrypt nfc sg ci now nonce mid c (JStr (ident (chat_self c'))) (JStr t) = Inr doc"
    and t: "\<bar>current - now\<bar> \<le> 300"
    and w: "map_of (seen (chat_replay c')) (public_hex sg (chat_self c) @ 58 # to_hex mid) = None"
      "int (length (seen (chat_replay c'))) < rlimit (chat_replay c')"
  shows "\<exists>c''. chat_decrypt nfc sg ci current doc (JStr (public_hex sg (chat_self c))) c' = (Inr (nfc t), c'')"
proof -
  note own = own_message_opens [OF assms(1-7) e]
  have "length (public_hex sg (chat_self c) @ 58 # to_hex mid) \<le> 256"
    using assms(1) mid by (simp add: public_hex_def signer_ok_def)
  moreover have "current \<le> now + 300" "now + 300 \<le> current + 3600" using t by linarith+
  ultimately obtain w' where "accept_until (public_hex sg (chat_self c) @ 58 # to_hex mid) (now + 300) current (chat_replay c') = (Inr (), w')"
    using accept_until_fresh [OF _ _ _ w] by blast
  then have "accept (public_hex sg (chat_self c) @ 58 # to_hex mid) now current (chat_replay c') = (Inr (), w')"
    using t by (simp add: accept_def)
  then show ?thesis by (simp add: chat_decrypt_def own)
qed

definition sample_aead :: aead where
  "sample_aead =
     \<lparr>aead_encrypt = (\<lambda>k n p ad. p @ replicate 16 0),
      aead_decrypt = (\<lambda>k n c ad. if 16 \<le> length c \<and> drop (length c - 16) c = replicate 16 0
                                then Some (take (length c - 16) c) else None)\<rparr>"

lemma sample_aead_ok: "aead_ok sample_aead"
  by (auto simp: aead_ok_def sample_aead_def split: if_splits) (metis append_take_drop_id)

definition sample_chat :: "string \<Rightarrow> chat" where
  "sample_chat n = \<lparr>session_key = replicate 32 0, chat_self = sample_identity n, chat_replay = \<lparr>rlimit = 4096, seen = []\<rparr>\<rparr>"

lemma sample_message:
  "\<exists>doc. chat_encrypt (\<lambda>s. s) toy_signer sample_aead 1000 (replicate 12 0) sample_nonce (sample_chat ''alice'') (jstr ''bob'') (jstr ''hi'') = Inr doc"
proof -
  let ?b = "chat_body (asc ''alice'') (asc ''bob'') sample_nonce 1000 (replicate 12 0)"
  have n: "list_all plain_char (to_hex sample_nonce)" "length (to_hex sample_nonce) = 32"
    "list_all plain_char (b64encode (replicate 12 0))" "length (b64encode (replicate 12 0)) = 16"
    by (simp_all add: plain_hex plain_b64 sample_nonce_def length_b64encode)
  then have "\<exists>e. app_canonical (\<lambda>s. s) (jobj ?b) = Inr e"
    by (intro flat_canonical) (simp_all add: chat_body_def plain_char_def plain_asc)
  then obtain ad where ad: "app_canonical (\<lambda>s. s) (jobj ?b) = Inr ad" by blast
  let ?ct = "b64encode (map bt (asc ''hi'') @ replicate 16 0)"
  have "\<exists>e. app_canonical (\<lambda>s. s) (jobj (?b @ [(''ciphertext'', JStr ?ct)])) = Inr e"
    using n plain_b64 [of "map bt (asc ''hi'') @ replicate 16 0"]
    by (intro flat_canonical) (simp_all add: chat_body_def plain_char_def plain_asc length_b64encode)
  then obtain e where e: "app_canonical (\<lambda>s. s) (jobj (?b @ [(''ciphertext'', JStr ?ct)])) = Inr e" by blast
  have "ascii (asc ''hi'')" by code_simp
  then have u: "utf8_encode (asc ''hi'') = Inr (map bt (asc ''hi''))" by (rule utf8_encode_ascii)
  have h: "normalized_text (\<lambda>s. s) (jstr ''hi'') = Inr (asc ''hi'')"
    by (simp add: normalized_Inr MAX_TEXT_def utf8_char_def utf8_units_def asc_def is_scalar_def is_surrogate_def)
  show ?thesis
    using ad e u h sample_identity_ok(3)
    by (simp add: chat_encrypt_def Let_def chat_body_def sample_chat_def sample_identity_def sample_aead_def)
qed

theorem chat_message_delivered_witness:
  "\<exists>doc c''. chat_decrypt (\<lambda>s. s) toy_signer sample_aead 1100 doc (JStr (public_hex toy_signer (sample_identity ''alice'')))
     (sample_chat ''bob'') = (Inr (asc ''hi''), c'')"
proof -
  obtain doc where d: "chat_encrypt (\<lambda>s. s) toy_signer sample_aead 1000 (replicate 12 0) sample_nonce (sample_chat ''alice'') (jstr ''bob'') (jstr ''hi'') = Inr doc"
    using sample_message by blast
  have i: "ident (chat_self (sample_chat ''bob'')) = asc ''bob''" "identity_ok (ident (chat_self (sample_chat ''alice'')))"
    using sample_identity_ok(1) by (simp_all add: sample_chat_def sample_identity_def)
  have d': "chat_encrypt (\<lambda>s. s) toy_signer sample_aead 1000 (replicate 12 0) sample_nonce (sample_chat ''alice'')
     (JStr (ident (chat_self (sample_chat ''bob'')))) (jstr ''hi'') = Inr doc" using d i by simp
  have "\<exists>c''. chat_decrypt (\<lambda>s. s) toy_signer sample_aead 1100 doc (JStr (public_hex toy_signer (chat_self (sample_chat ''alice''))))
     (sample_chat ''bob'') = (Inr (asc ''hi''), c'')"
    by (rule chat_message_delivered [OF toy_signer_ok sample_aead_ok nfc_ok_id i(2) _ _ _ d'])
      (simp_all add: sample_nonce_def sample_chat_def)
  then show ?thesis by (auto simp: sample_chat_def)
qed

text \<open>C22. The chat receiver returns a text, or changes its state at all, only for a document addressed
  to it whose signature verifies under the given sender key over the canonical bytes of the rest of
  the document and whose ciphertext opens under the session key: unauthenticated input never
  reserves a replay id. The text it returns is the NFC text that was opened, and the message is
  at most 300 seconds old or ahead.\<close>

theorem chat_receiver_authentic:
  assumes "chat_decrypt nfc sg ci current document key c = (r, c')" and "r = Inr t \<or> c' \<noteq> c"
  shows "\<exists>d nonce ciphertext plain u ad. document = JObj d \<and> signature_valid nfc sg d key \<and>
     fld d ''recipient'' = JStr (ident (chat_self c)) \<and>
     b64decode (the_str (fld d ''nonce'')) = Inr nonce \<and> b64decode (the_str (fld d ''ciphertext'')) = Inr ciphertext \<and>
     app_canonical nfc (chat_metadata d) = Inr ad \<and>
     aead_decrypt ci (session_key c) nonce ciphertext ad = Some plain \<and> utf8_decode plain = Inr u \<and> nfc u = u \<and>
     \<bar>current - the_int (fld d ''timestamp'')\<bar> \<le> 300 \<and> (r = Inr t \<longrightarrow> t = u)"
proof -
  obtain d u where o: "open_message nfc sg ci c document key = Inr (d, u)"
    using assms by (cases "open_message nfc sg ci c document key") (auto simp: chat_decrypt_def)
  from o obtain nonce ciphertext where doc: "is_obj document" "d = the_obj document"
    and rc: "fld d ''recipient'' = JStr (ident (chat_self c))"
    and env: "open_envelope nfc sg d key = Inr (nonce, ciphertext)"
    and tx: "open_text nfc ci (session_key c) nonce ciphertext (chat_metadata d) = Inr u"
    and nt: "normalized_text nfc (JStr u) = Inr u"
    by (auto simp: open_message_def Let_def)
  have sv: "signature_valid nfc sg d key" and b: "b64decode (the_str (fld d ''nonce'')) = Inr nonce"
    "b64decode (the_str (fld d ''ciphertext'')) = Inr ciphertext"
    using env by (auto simp: open_envelope_def Let_def split: if_splits sum.splits)
  obtain ad plain where ad: "app_canonical nfc (chat_metadata d) = Inr ad"
    "aead_decrypt ci (session_key c) nonce ciphertext ad = Some plain" "utf8_decode plain = Inr u"
    using tx by (auto simp: open_text_def Let_def split: sum.splits if_splits option.splits)
  let ?a = "accept (the_str key @ 58 # the_str (fld d ''message_id'')) (the_int (fld d ''timestamp'')) current (chat_replay c)"
  obtain q w where a: "?a = (q, w)" by (cases ?a)
  then have res: "r = (case q of Inl e \<Rightarrow> Inl e | Inr _ \<Rightarrow> Inr u)" "c' = c\<lparr>chat_replay := w\<rparr>"
    using assms(1) o by (auto simp: chat_decrypt_def split: sum.splits)
  have "\<bar>current - the_int (fld d ''timestamp'')\<bar> \<le> 300"
  proof (rule ccontr)
    assume "\<not> ?thesis"
    then have "q = Inl (ProtocolError ''replayed, stale, or saturated ShadowChat message'')" "w = chat_replay c"
      using a by (auto simp: accept_def)
    with res assms(2) show False by simp
  qed
  moreover have "r = Inr t \<Longrightarrow> t = u" using res by (auto split: sum.splits)
  moreover have "nfc u = u" using nt by (simp add: normalized_Inr)
  moreover have "document = JObj d" using is_kindE(1) [OF doc(1)] doc(2) by simp
  ultimately show ?thesis using sv rc b ad by blast
qed

theorem chat_receiver_authentic_witness:
  "\<exists>doc c'' d. chat_decrypt (\<lambda>s. s) toy_signer sample_aead 1100 doc (JStr (public_hex toy_signer (sample_identity ''alice'')))
     (sample_chat ''bob'') = (Inr (asc ''hi''), c'') \<and> doc = JObj d \<and>
     signature_valid (\<lambda>s. s) toy_signer d (JStr (public_hex toy_signer (sample_identity ''alice'')))"
proof -
  obtain doc where d: "chat_encrypt (\<lambda>s. s) toy_signer sample_aead 1000 (replicate 12 0) sample_nonce (sample_chat ''alice'') (jstr ''bob'') (jstr ''hi'') = Inr doc"
    using sample_message by blast
  have i: "ident (chat_self (sample_chat ''bob'')) = asc ''bob''" "identity_ok (ident (chat_self (sample_chat ''alice'')))"
    using sample_identity_ok(1) by (simp_all add: sample_chat_def sample_identity_def)
  have d': "chat_encrypt (\<lambda>s. s) toy_signer sample_aead 1000 (replicate 12 0) sample_nonce (sample_chat ''alice'')
     (JStr (ident (chat_self (sample_chat ''bob'')))) (jstr ''hi'') = Inr doc" using d i by simp
  have l: "length (replicate 12 (0 :: byte)) = 12" "length sample_nonce = 16"
    "session_key (sample_chat ''bob'') = session_key (sample_chat ''alice'')"
    by (simp_all add: sample_nonce_def sample_chat_def)
  note own = own_message_opens [OF toy_signer_ok sample_aead_ok nfc_ok_id i(2) l d']
  let ?k = "public_hex toy_signer (chat_self (sample_chat ''alice''))"
  have "\<exists>w. accept_until (?k @ 58 # to_hex sample_nonce) 1300 1100 (chat_replay (sample_chat ''bob'')) = (Inr (), w)
      \<and> map_of (seen w) (?k @ 58 # to_hex sample_nonce) = Some 1300"
    by (rule accept_until_fresh) (simp_all add: public_hex_def toy_signer_def sample_nonce_def sample_chat_def)
  then obtain c'' where x: "chat_decrypt (\<lambda>s. s) toy_signer sample_aead 1100 doc (JStr ?k) (sample_chat ''bob'') = (Inr (asc ''hi''), c'')"
    by (auto simp: chat_decrypt_def own accept_def)
  from chat_receiver_authentic [OF x, of "asc ''hi''"] x show ?thesis by (auto simp: sample_chat_def)
qed


definition sample_requests :: "ustr request list" where
  "sample_requests = [(asc ''m'', 10, 5), (asc ''m'', 12, 8), (asc ''m'', 20, 11)]"

lemma sample_requests_run:
  "fst (guard_run window_accept sample_requests \<lparr>rlimit = 4, seen = []\<rparr>) = [True, False, True]"
  by code_simp


text \<open>A frame written for a document is read back as that document, with its fields in the
  canonical order.\<close>

theorem application_frame_roundtrip:
  assumes "json_doc v" and "app_encode nfc v = Inr frame"
  shows "app_decode nfc frame = Inr (the_obj (jnorm v))"
  by (rule app_frame_roundtrip [OF assms])

theorem application_frame_roundtrip_witness:
  "\<exists>frame. app_encode (\<lambda>s. s) (jobj [(''b'', JInt 1), (''a'', jstr ''x'')]) = Inr frame \<and>
     app_decode (\<lambda>s. s) frame = Inr (the_obj (jobj [(''a'', jstr ''x''), (''b'', JInt 1)]))"
proof -
  let ?v = "jobj [(''b'', JInt 1), (''a'', jstr ''x'')]"
  have d: "json_doc ?v" by (simp add: json_doc_literal)
  have "\<exists>e. app_canonical (\<lambda>s. s) ?v = Inr e" by (rule flat_canonical) (simp_all add: plain_char_def plain_asc)
  then obtain e where e: "app_canonical (\<lambda>s. s) ?v = Inr e" by blast
  then have "length e \<le> 1048576" by (simp add: app_canonical_iff [OF d])
  with e have f: "app_encode (\<lambda>s. s) ?v = Inr (be_encode 4 (length e) @ e)"
    by (simp add: app_encode_def MAX_FRAME_def)
  have "jnorm ?v = jobj [(''a'', jstr ''x''), (''b'', JInt 1)]" by code_simp
  with application_frame_roundtrip [OF d f] f show ?thesis by auto
qed

end
