(* ===== verification/S6_Broker.thy ===== *)
theory S6_Broker
  imports S6_Plain S6_Files S6_Replay Complex_Main "HOL-Library.Multiset"
begin

text \<open>
  \<^verbatim>\<open>Public6/virtual_broker.py\<close>: the configuration of the virtual broker, the admission of
  signed requests with its nonce table, the per-tenant token bucket, and the life of
  connections and datagram sessions as steps on the broker's counters. Ed25519 is the
  parameter \<open>sg\<close>. \<open>penv\<close> holds three functions of Python's Unicode and address libraries:
  NFC, \<^verbatim>\<open>ipaddress.ip_address(x).is_loopback\<close> (\<open>None\<close> where the constructor raises) and
  \<^verbatim>\<open>c.isalnum()\<close>.
\<close>

record penv =
  env_nfc :: "ustr \<Rightarrow> ustr"
  env_loopback :: "pyval \<Rightarrow> bool option"
  env_alnum :: "nat \<Rightarrow> bool"

section \<open>Configuration\<close>

definition SCHEMA :: ustr where
  "SCHEMA = asc ''shadow6.virtual-broker.v1''"

definition CORES :: "ustr list" where
  "CORES = map asc [''go'', ''rust'', ''gleam'', ''ada'', ''nim'', ''pony'', ''zig'', ''d'', ''cpp'', ''idris'', ''hare'', ''carp'']"

definition DATAGRAM_CORES :: "ustr list" where
  "DATAGRAM_CORES = map asc [''hare'', ''carp'', ''pony'', ''idris'']"

text \<open>An endpoint is the host as written and a port.\<close>

type_synonym endpoint = "pyval \<times> int"

record tenant =
  tenant_id :: ustr
  public_keys :: "bytes list"
  approval :: ustr
  max_connections :: int
  bytes_per_second :: int
  burst_bytes :: int

record config =
  listen_host :: pyval
  listen_port :: int
  identity_key :: bytes
  cfg_cores :: "(ustr \<times> endpoint) list"
  tenants :: "(ustr \<times> tenant) list"
  routes :: "((ustr \<times> ustr) \<times> endpoint) list"
  guard_required :: bool
  gate_required :: bool
  relay_socket :: ustr
  approvals :: "(ustr \<times> ustr) list"
  max_frame :: int
  handshake_seconds :: int
  idle_seconds :: int
  anonymous_listeners :: "(int \<times> ustr \<times> ustr) list"
  datagram_listeners :: "(int \<times> ustr \<times> ustr \<times> ustr \<times> bool) list"

text \<open>\<^verbatim>\<open>x in d\<close> for a dictionary with string keys: a list or an object is not hashable.\<close>

definition in_keys :: "ustr list \<Rightarrow> pyval \<Rightarrow> bool res" where
  "in_keys ks v =
     (case v of JStr s \<Rightarrow> Inr (s \<in> set ks)
      | JList _ \<Rightarrow> Inl (TypeError ''unhashable type'') | JObj _ \<Rightarrow> Inl (TypeError ''unhashable type'')
      | _ \<Rightarrow> Inr False)"

text \<open>The test of a host and a port that several entries share: \<open>Inr False\<close> where a condition fails.\<close>

definition loopback_endpoint :: "penv \<Rightarrow> pyval \<Rightarrow> pyval \<Rightarrow> bool res" where
  "loopback_endpoint env host port =
     (case env_loopback env host of
        None \<Rightarrow> Inl (ValueError ''does not appear to be an IPv4 or IPv6 address'')
      | Some b \<Rightarrow> Inr (b \<and> int_in 1 65535 port))"

definition load_listen :: "penv \<Rightarrow> pyval \<Rightarrow> endpoint res" where
  "load_listen env v =
     (let d = the_obj v; failure = ValueError ''virtual Broker must listen behind Guard/Gate on loopback'' in
      ebind (raise_if (\<not> is_obj v \<or> \<not> keys_are [''host'', ''port''] d) failure) (\<lambda>_.
      ebind (loopback_endpoint env (fld d ''host'') (fld d ''port'')) (\<lambda>ok.
      ebind (raise_if (\<not> ok) failure) (\<lambda>_.
        Inr (fld d ''host'', the_int (fld d ''port''))))))"

definition load_core :: "penv \<Rightarrow> ustr \<times> pyval \<Rightarrow> (ustr \<times> endpoint) list \<Rightarrow> (ustr \<times> endpoint) list res" where
  "load_core env p cores =
     (case p of (core, tgt) \<Rightarrow>
        (let d = the_obj tgt; failure = ValueError ''invalid real Broker target'' in
         ebind (raise_if (core \<notin> set CORES \<or> \<not> is_obj tgt \<or> \<not> keys_are [''host'', ''port''] d) failure) (\<lambda>_.
         ebind (loopback_endpoint env (fld d ''host'') (fld d ''port'')) (\<lambda>ok.
         ebind (raise_if (\<not> ok) failure) (\<lambda>_.
           Inr (dset core (fld d ''host'', the_int (fld d ''port'')) cores))))))"

definition tenant_fields :: "string list" where
  "tenant_fields = [''id'', ''public_keys'', ''approval'', ''max_connections'', ''bytes_per_second'', ''burst_bytes'']"

definition tenant_id_ok :: "penv \<Rightarrow> ustr \<Rightarrow> bool" where
  "tenant_id_ok env tid \<longleftrightarrow>
     1 \<le> length tid \<and> length tid \<le> 64 \<and> list_all (\<lambda>c. env_alnum env c \<or> one_of ''._-'' c) tid"

definition tenant_bounds :: "(string \<times> int \<times> int) list" where
  "tenant_bounds = [(''max_connections'', 1, 1024), (''bytes_per_second'', 1024, 2 ^ 30), (''burst_bytes'', 1024, 2 ^ 30)]"

definition load_tenant :: "penv \<Rightarrow> pyval \<Rightarrow> (ustr \<times> tenant) list \<Rightarrow> (ustr \<times> tenant) list res" where
  "load_tenant env v ts =
     (let d = the_obj v; tid = the_str (fld d ''id''); pks = the_list (fld d ''public_keys'') in
      ebind (raise_if (\<not> is_obj v \<or> \<not> keys_are tenant_fields d) (ValueError ''unknown tenant field'')) (\<lambda>_.
      ebind (raise_if (\<not> is_str (fld d ''id'') \<or> \<not> tenant_id_ok env tid \<or> map_of ts tid \<noteq> None)
              (ValueError ''invalid tenant id'')) (\<lambda>_.
      ebind (raise_if (fld d ''approval'' \<notin> {jstr ''default-approved'', jstr ''approval-required''})
              (ValueError ''invalid approval mode'')) (\<lambda>_.
      ebind (raise_if (\<not> is_list (fld d ''public_keys'') \<or> 32 < length pks \<or> list_ex (\<lambda>x. \<not> str_len 44 44 x) pks)
              (ValueError ''invalid tenant public key'')) (\<lambda>_.
      ebind (emap (\<lambda>x. b64decode (the_str x)) pks) (\<lambda>ks.
      ebind (raise_if (list_ex (\<lambda>k. length k \<noteq> 32) ks) (ValueError ''invalid tenant public key'')) (\<lambda>_.
      ebind (each (\<lambda>(name, low, high). raise_if (\<not> int_in low high (fld d name)) (ValueError (''invalid '' @ name))) tenant_bounds) (\<lambda>_.
        Inr (dset tid \<lparr>tenant_id = tid, public_keys = ks, approval = the_str (fld d ''approval''),
               max_connections = the_int (fld d ''max_connections''),
               bytes_per_second = the_int (fld d ''bytes_per_second''),
               burst_bytes = the_int (fld d ''burst_bytes'')\<rparr> ts)))))))))"

definition load_route ::
  "penv \<Rightarrow> ustr list \<Rightarrow> ustr list \<Rightarrow> pyval \<Rightarrow> ((ustr \<times> ustr) \<times> endpoint) list \<Rightarrow> ((ustr \<times> ustr) \<times> endpoint) list res" where
  "load_route env tids cores route rs =
     (let d = the_obj route; failure = ValueError ''invalid tenant Core route'' in
      ebind (raise_if (\<not> is_obj route \<or> \<not> keys_are [''tenant'', ''core'', ''host'', ''port''] d) failure) (\<lambda>_.
      ebind (in_keys tids (fld d ''tenant'')) (\<lambda>t.
      ebind (raise_if (\<not> t) failure) (\<lambda>_.
      ebind (in_keys cores (fld d ''core'')) (\<lambda>c.
      ebind (raise_if (\<not> c) failure) (\<lambda>_.
      ebind (loopback_endpoint env (fld d ''host'') (fld d ''port'')) (\<lambda>ok.
      ebind (raise_if (\<not> ok) failure) (\<lambda>_.
      let key = (the_str (fld d ''tenant''), the_str (fld d ''core''));
          endpoint = (fld d ''host'', the_int (fld d ''port'')) in
      ebind (raise_if (map_of rs key \<noteq> None \<or> endpoint \<in> set (map snd rs))
              (ValueError ''tenant Core routes must use dedicated real Broker endpoints'')) (\<lambda>_.
        Inr (dset key endpoint rs))))))))))"

text \<open>The ports taken so far come first in the accumulator of both listener loops.\<close>

definition load_anonymous ::
  "(ustr \<times> ustr) list \<Rightarrow> pyval \<Rightarrow> int list \<times> (int \<times> ustr \<times> ustr) list \<Rightarrow> (int list \<times> (int \<times> ustr \<times> ustr) list) res" where
  "load_anonymous rks entry acc =
     (let d = the_obj entry; port = the_int (fld d ''port''); t = the_str (fld d ''tenant''); c = the_str (fld d ''core'') in
      ebind (raise_if (\<not> is_obj entry \<or> \<not> keys_are [''port'', ''tenant'', ''core''] d \<or> \<not> int_in 1 65535 (fld d ''port'')
                       \<or> port \<in> set (fst acc) \<or> \<not> is_str (fld d ''tenant'') \<or> \<not> is_str (fld d ''core'') \<or> (t, c) \<notin> set rks)
              (ValueError ''invalid anonymous listener'')) (\<lambda>_.
        Inr (fst acc @ [port], snd acc @ [(port, t, c)])))"

definition load_datagram ::
  "(ustr \<times> ustr) list \<Rightarrow> pyval \<Rightarrow> int list \<times> (int \<times> ustr \<times> ustr \<times> ustr \<times> bool) list \<Rightarrow>
     (int list \<times> (int \<times> ustr \<times> ustr \<times> ustr \<times> bool) list) res" where
  "load_datagram rks entry acc =
     (let d = the_obj entry; port = the_int (fld d ''port''); t = the_str (fld d ''tenant''); c = the_str (fld d ''core'') in
      ebind (raise_if (\<not> is_obj entry \<or> \<not> keys_are [''port'', ''tenant'', ''core'', ''carrier'', ''anonymous''] d
                       \<or> \<not> int_in 1 65535 (fld d ''port'') \<or> port \<in> set (fst acc)
                       \<or> \<not> is_str (fld d ''tenant'') \<or> \<not> is_str (fld d ''core'') \<or> (t, c) \<notin> set rks
                       \<or> c \<notin> set DATAGRAM_CORES \<or> fld d ''carrier'' \<notin> {jstr ''gate'', jstr ''s6na''}
                       \<or> \<not> is_bool (fld d ''anonymous''))
              (ValueError ''invalid datagram listener'')) (\<lambda>_.
        Inr (fst acc @ [port], snd acc @ [(port, t, c, the_str (fld d ''carrier''), the_bool (fld d ''anonymous''))])))"

definition load_approval :: "ustr list \<Rightarrow> pyval \<Rightarrow> (ustr \<times> ustr) list \<Rightarrow> (ustr \<times> ustr) list res" where
  "load_approval tids v acc =
     (let d = the_obj v; failure = ValueError ''invalid approval'' in
      ebind (raise_if (\<not> is_obj v \<or> \<not> keys_are [''tenant'', ''client''] d) failure) (\<lambda>_.
      ebind (in_keys tids (fld d ''tenant'')) (\<lambda>t.
      ebind (raise_if (\<not> t \<or> \<not> str_len 1 128 (fld d ''client'')) failure) (\<lambda>_.
        Inr (acc @ [(the_str (fld d ''tenant''), the_str (fld d ''client''))])))))"

definition config_fields :: "string list" where
  "config_fields = [''schema'', ''listen'', ''identity_key_file'', ''cores'', ''tenants'', ''routes'', ''approvals'',
     ''guard'', ''gate'', ''c11relay'', ''limits'']"

definition required_true :: pyval where
  "required_true = jobj [(''required'', JBool True)]"

definition check_limits :: "pyval \<Rightarrow> unit res" where
  "check_limits v =
     (let d = the_obj v in
      ebind (raise_if (\<not> is_obj v \<or> \<not> keys_are [''max_frame'', ''handshake_seconds'', ''idle_seconds''] d)
              (ValueError ''invalid limits'')) (\<lambda>_.
      raise_if (\<not> int_in 1024 (16 * 1024 * 1024) (fld d ''max_frame'') \<or> \<not> int_in 1 30 (fld d ''handshake_seconds'')
                \<or> \<not> int_in 5 3600 (fld d ''idle_seconds''))
        (ValueError ''limit outside safe bounds'')))"

text \<open>The catalogues of the configuration, in the order they are read.\<close>

definition load_catalogues ::
  "penv \<Rightarrow> pydict \<Rightarrow> ((ustr \<times> endpoint) list \<times> (ustr \<times> tenant) list \<times> ((ustr \<times> ustr) \<times> endpoint) list) res" where
  "load_catalogues env d =
     ebind (raise_if (\<not> is_obj (fld d ''cores'') \<or> the_obj (fld d ''cores'') = [])
             (ValueError ''at least one real Broker is required'')) (\<lambda>_.
     ebind (efold (load_core env) (the_obj (fld d ''cores'')) []) (\<lambda>cs.
     let tl = the_list (fld d ''tenants''); rl = the_list (fld d ''routes'') in
     ebind (raise_if (\<not> is_list (fld d ''tenants'') \<or> \<not> (1 \<le> length tl \<and> length tl \<le> 1024)) (ValueError ''invalid tenant catalog'')) (\<lambda>_.
     ebind (efold (load_tenant env) tl []) (\<lambda>ts.
     ebind (raise_if (\<not> is_list (fld d ''routes'') \<or> \<not> (1 \<le> length rl \<and> length rl \<le> length ts * length CORES))
             (ValueError ''invalid tenant route catalog'')) (\<lambda>_.
     ebind (efold (load_route env (map fst ts) (map fst cs)) rl []) (\<lambda>rs.
       Inr (cs, ts, rs)))))))"

definition load_listeners ::
  "pydict \<Rightarrow> int \<Rightarrow> (ustr \<times> tenant) list \<Rightarrow> (ustr \<times> ustr) list \<Rightarrow>
     ((int \<times> ustr \<times> ustr) list \<times> (int \<times> ustr \<times> ustr \<times> ustr \<times> bool) list) res" where
  "load_listeners d port ts rks =
     (let av = getd d ''anonymous_listeners'' (JList []); dv = getd d ''datagram_listeners'' (JList []) in
      ebind (raise_if (\<not> is_list av \<or> 32 < length (the_list av)) (ValueError ''invalid anonymous listeners'')) (\<lambda>_.
      ebind (efold (load_anonymous rks) (the_list av) ([port], [])) (\<lambda>(_, anonymous).
      ebind (raise_if (\<not> is_list dv \<or> 32 < length (the_list dv)) (ValueError ''invalid datagram listeners'')) (\<lambda>_.
      ebind (efold (load_datagram rks) (the_list dv) ([], [])) (\<lambda>(_, datagrams).
      let ats = map (\<lambda>(_, t, _). t) anonymous @ map (\<lambda>(_, t, _). t) (filter (\<lambda>(_, _, _, _, enabled). enabled) datagrams) in
      ebind (raise_if (list_ex (\<lambda>(_, t). public_keys t = [] \<and> tenant_id t \<notin> set ats) ts)
              (ValueError ''tenant without keys needs an anonymous listener'')) (\<lambda>_.
        Inr (anonymous, datagrams)))))))"

definition check_relay :: "pyval \<Rightarrow> ustr res" where
  "check_relay v =
     (let s = fld (the_obj v) ''control_socket'' in
      ebind (raise_if (\<not> is_obj v \<or> \<not> keys_are [''control_socket''] (the_obj v) \<or> \<not> is_str s
                       \<or> \<not> startswith ''/'' (the_str s) \<or> 4096 < length (the_str s))
              (ValueError ''invalid C11Relay integration'')) (\<lambda>_.
        Inr (the_str s)))"

text \<open>\<open>key_file\<close> gives the view of the file a path names; \<^verbatim>\<open>Path(x)\<close> raises for anything but text.\<close>

definition load_config :: "penv \<Rightarrow> nat \<Rightarrow> fview \<Rightarrow> (ustr \<Rightarrow> fview) \<Rightarrow> config res" where
  "load_config env euid file key_file =
     ebind (bounded_file euid 262144 False file) (\<lambda>raw.
     ebind (utf8_decode raw) (\<lambda>t.
     ebind (portable_json (env_nfc env) 262144 (TextIn t)) (\<lambda>v.
     let d = the_obj v in
     ebind (raise_if (\<not> is_obj v \<or> \<not> keys_in (config_fields @ [''anonymous_listeners'', ''datagram_listeners'']) d
                      \<or> \<not> names config_fields \<subseteq> set (keys d) \<or> fld d ''schema'' \<noteq> JStr SCHEMA)
             (ValueError ''unknown virtual Broker schema or field'')) (\<lambda>_.
     ebind (load_listen env (fld d ''listen'')) (\<lambda>(host, port).
     ebind (raise_if (\<not> py_eq (fld d ''guard'') required_true \<or> \<not> py_eq (fld d ''gate'') required_true)
             (ValueError ''Guard and Gate are mandatory'')) (\<lambda>_.
     ebind (load_catalogues env d) (\<lambda>(cs, ts, rs).
     ebind (load_listeners d port ts (map fst rs)) (\<lambda>(anonymous, datagrams).
     ebind (check_limits (fld d ''limits'')) (\<lambda>_.
     let lim = the_obj (fld d ''limits''); kf = fld d ''identity_key_file'' in
     ebind (raise_if (\<not> is_str kf) (TypeError ''expected str, bytes or os.PathLike object'')) (\<lambda>_.
     ebind (bounded_file euid 32 True (key_file (the_str kf))) (\<lambda>key.
     ebind (raise_if (length key \<noteq> 32) (ValueError ''identity key must contain exactly 32 bytes'')) (\<lambda>_.
     ebind (check_relay (fld d ''c11relay'')) (\<lambda>relay.
     let al = fld d ''approvals'' in
     ebind (raise_if (\<not> is_list al \<or> 4096 < length (the_list al)) (ValueError ''invalid approval catalog'')) (\<lambda>_.
     ebind (efold (load_approval (map fst ts)) (the_list al) []) (\<lambda>aps.
       Inr \<lparr>listen_host = host, listen_port = port, identity_key = key, cfg_cores = cs, tenants = ts, routes = rs,
            guard_required = True, gate_required = True, relay_socket = relay, approvals = aps, max_frame = the_int (fld lim ''max_frame''),
            handshake_seconds = the_int (fld lim ''handshake_seconds''), idle_seconds = the_int (fld lim ''idle_seconds''),
            anonymous_listeners = anonymous, datagram_listeners = datagrams\<rparr>)))))))))))))))"

section \<open>The broker\<close>

record runtime =
  active :: int
  tokens :: rat
  updated :: rat

type_synonym nonce_key = "ustr \<times> bytes"

text \<open>
  \<open>nonce_expiry\<close> is the heap of \<^verbatim>\<open>heapq\<close>, kept sorted by expiry: only its smallest expiry
  and the entry that carries it are ever used.
\<close>

record broker =
  runtimes :: "(ustr \<times> runtime) list"
  nonces :: "(nonce_key \<times> int) list"
  nonce_expiry :: "(int \<times> nonce_key) list"
  connections :: int

definition broker_init :: "rat \<Rightarrow> config \<Rightarrow> broker" where
  "broker_init now cfg =
     \<lparr>runtimes = map (\<lambda>(x, t). (x, \<lparr>active = 0, tokens = of_int (burst_bytes t), updated = now\<rparr>)) (tenants cfg),
      nonces = [], nonce_expiry = [], connections = 0\<rparr>"

subsection \<open>The token bucket\<close>

text \<open>
  \<^verbatim>\<open>charge\<close> up to its sleep: the result is the time the caller sleeps before it goes on.
  \<open>cancel_charge\<close> is what a cancelled sleep gives back.
\<close>

definition charge :: "config \<Rightarrow> tenant \<Rightarrow> nat \<Rightarrow> rat \<Rightarrow> runtime \<Rightarrow> rat res \<times> runtime" where
  "charge cfg t n now r =
     (let refilled = min (of_int (burst_bytes t)) (tokens r + (now - updated r) * of_int (bytes_per_second t));
          left = refilled - of_nat n;
          r1 = r\<lparr>tokens := left, updated := now\<rparr> in
      if left < 0
      then
        (let delay = - left / of_int (bytes_per_second t) in
         if of_int (idle_seconds cfg) < delay
         then (Inl (TimeoutError ''tenant rate limit exceeds idle deadline''), r1\<lparr>tokens := left + of_nat n\<rparr>)
         else (Inr delay, r1))
      else (Inr 0, r1))"

definition cancel_charge :: "nat \<Rightarrow> runtime \<Rightarrow> runtime" where
  "cancel_charge n r = r\<lparr>tokens := tokens r + of_nat n\<rparr>"

subsection \<open>Admission\<close>

fun expire_loop :: "int \<Rightarrow> (int \<times> nonce_key) list \<Rightarrow> (nonce_key \<times> int) list \<Rightarrow> (int \<times> nonce_key) list \<times> (nonce_key \<times> int) list" where
  "expire_loop now [] ns = ([], ns)"
| "expire_loop now ((expires, key) # heap) ns =
     (if expires < now
      then expire_loop now heap (if map_of ns key = Some expires then ddel key ns else ns)
      else ((expires, key) # heap, ns))"

definition expire_nonces :: "int \<Rightarrow> broker \<Rightarrow> broker" where
  "expire_nonces now b =
     (case expire_loop now (nonce_expiry b) (nonces b) of (heap, ns) \<Rightarrow> b\<lparr>nonce_expiry := heap, nonces := ns\<rparr>)"

text \<open>The part of \<^verbatim>\<open>admit\<close> under the nonce lock.\<close>

definition claim_nonce :: "nonce_key \<Rightarrow> int \<Rightarrow> int \<Rightarrow> broker \<Rightarrow> unit res \<times> broker" where
  "claim_nonce key expires now b =
     (let b1 = expire_nonces now b in
      if map_of (nonces b1) key \<noteq> None then (Inl (PermissionError ''replayed admission''), b1)
      else if 65536 \<le> length (nonces b1) then (Inl (PermissionError ''admission replay capacity reached''), b1)
      else (Inr (), b1\<lparr>nonces := dset key expires (nonces b1),
                      nonce_expiry := insort_key fst (expires, key) (nonce_expiry b1)\<rparr>))"

definition admission_fields :: "string list" where
  "admission_fields = [''schema'', ''tenant'', ''client'', ''core'', ''issued'', ''expires'', ''nonce'', ''public_key'', ''signature'']"

record admission =
  adm_tenant :: tenant
  adm_client :: ustr
  adm_core :: ustr
  adm_nonce :: bytes
  adm_expires :: int

definition broker_canonical :: "pyval \<Rightarrow> bytes res" where
  "broker_canonical v = json_bytes v"

text \<open>Everything \<^verbatim>\<open>admit\<close> checks before the nonce is claimed, from the types of the fields on and as a whole.\<close>

definition check_request :: "signer \<Rightarrow> config \<Rightarrow> int \<Rightarrow> pydict \<Rightarrow> admission res" where
  "check_request sg cfg now d =
     ebind (raise_if (list_ex (\<lambda>n. \<not> is_str (fld d n)) [''tenant'', ''client'', ''core'', ''nonce'', ''public_key'', ''signature''])
             (ValueError ''invalid admission field type'')) (\<lambda>_.
     let s = (\<lambda>n. the_str (fld d n)); refused = PermissionError ''unknown tenant, client, or Core'' in
     (case map_of (tenants cfg) (s ''tenant'') of
        None \<Rightarrow> Inl refused
      | Some t \<Rightarrow>
          ebind (raise_if (map_of (routes cfg) (tenant_id t, s ''core'') = None \<or> \<not> str_len 1 128 (fld d ''client'')) refused) (\<lambda>_.
          let issued = the_int (fld d ''issued''); expires = the_int (fld d ''expires'') in
          ebind (raise_if (\<not> is_int (fld d ''issued'') \<or> \<not> is_int (fld d ''expires'') \<or> now + 30 < issued \<or> expires < now
                           \<or> \<not> (0 \<le> expires - issued \<and> expires - issued \<le> 120))
                  (PermissionError ''expired admission'')) (\<lambda>_.
          ebind (b64decode (s ''nonce'')) (\<lambda>nonce.
          ebind (b64decode (s ''public_key'')) (\<lambda>pub.
          ebind (b64decode (s ''signature'')) (\<lambda>sig.
          ebind (raise_if (length nonce \<noteq> 32 \<or> length pub \<noteq> 32 \<or> length sig \<noteq> 64 \<or> pub \<notin> set (public_keys t))
                  (PermissionError ''invalid admission credential'')) (\<lambda>_.
          ebind (broker_canonical (JObj (filter (\<lambda>(k, _). k \<noteq> asc ''signature'') d))) (\<lambda>message.
          ebind (raise_if (\<not> sig_verify sg pub sig message) (PermissionError ''invalid admission signature'')) (\<lambda>_.
          ebind (raise_if (approval t = asc ''approval-required'' \<and> (tenant_id t, s ''client'') \<notin> set (approvals cfg))
                  (PermissionError ''connection requires operator approval'')) (\<lambda>_.
            Inr \<lparr>adm_tenant = t, adm_client = s ''client'', adm_core = s ''core'', adm_nonce = nonce, adm_expires = expires\<rparr>)))))))))))"

definition check_admission :: "penv \<Rightarrow> signer \<Rightarrow> config \<Rightarrow> int \<Rightarrow> bytes \<Rightarrow> admission res" where
  "check_admission env sg cfg now raw =
     ebind (raise_if (16384 < length raw) (ValueError ''admission request oversized'')) (\<lambda>_.
     ebind (portable_json (env_nfc env) 262144 (BytesIn raw)) (\<lambda>v.
     let d = the_obj v in
     ebind (raise_if (\<not> is_obj v \<or> \<not> keys_are admission_fields d \<or> fld d ''schema'' \<noteq> jstr ''shadow6.virtual-broker-admission.v1'')
             (ValueError ''invalid admission schema'')) (\<lambda>_.
     check_request sg cfg now d)))"

definition virtual_id :: "config \<Rightarrow> admission \<Rightarrow> ustr res" where
  "virtual_id cfg a =
     ebind (broker_canonical (JList [JStr (tenant_id (adm_tenant a)), JStr (adm_client a), JStr (adm_core a)])) (\<lambda>m.
       Inr (to_hex (hmac_sha256 (identity_key cfg) m)))"

definition admit :: "penv \<Rightarrow> signer \<Rightarrow> config \<Rightarrow> int \<Rightarrow> bytes \<Rightarrow> broker \<Rightarrow> (tenant \<times> ustr \<times> endpoint) res \<times> broker" where
  "admit env sg cfg now raw b =
     (case check_admission env sg cfg now raw of
        Inl e \<Rightarrow> (Inl e, b)
      | Inr a \<Rightarrow>
          (case claim_nonce (tenant_id (adm_tenant a), adm_nonce a) (adm_expires a) now b of
             (Inl e, b1) \<Rightarrow> (Inl e, b1)
           | (Inr _, b1) \<Rightarrow>
               (ebind (virtual_id cfg a) (\<lambda>vid.
                  Inr (adm_tenant a, vid, the (map_of (routes cfg) (tenant_id (adm_tenant a), adm_core a)))), b1)))"

subsection \<open>Datagrams\<close>

definition datagram_payload ::
  "penv \<Rightarrow> signer \<Rightarrow> config \<Rightarrow> int \<Rightarrow> bytes \<Rightarrow> ustr \<times> ustr \<Rightarrow> bool \<Rightarrow> broker \<Rightarrow> bytes res \<times> broker" where
  "datagram_payload env sg cfg now raw route anonymous b =
     (if \<not> (1 \<le> length raw \<and> int (length raw) \<le> min (max_frame cfg) 65507)
      then (Inl (ValueError ''invalid datagram size''), b)
      else if anonymous then (Inr raw, b)
      else if length raw < 3 then (Inl (ValueError ''missing datagram admission''), b)
      else
        (let size = be_decode (take 2 raw) in
         if \<not> (1 \<le> size \<and> size \<le> 16384) \<or> length raw \<le> size + 2
         then (Inl (ValueError ''invalid datagram admission''), b)
         else
           (case admit env sg cfg now (take size (drop 2 raw)) b of
              (Inl e, b1) \<Rightarrow> (Inl e, b1)
            | (Inr (t, _, ep), b1) \<Rightarrow>
                if tenant_id t \<noteq> fst route \<or> Some ep \<noteq> map_of (routes cfg) route
                then (Inl (PermissionError ''wrong datagram route''), b1)
                else (Inr (drop (2 + size) raw), b1))))"

subsection \<open>Connections\<close>

text \<open>One direction of a relayed connection: the chunks read and the times they are read, up to the end of the stream.\<close>

fun copy :: "config \<Rightarrow> tenant \<Rightarrow> (bytes \<times> rat) list \<Rightarrow> runtime \<Rightarrow> bytes \<times> unit res \<times> runtime" where
  "copy cfg t [] r = ([], Inr (), r)"
| "copy cfg t ((data, now) # chunks) r =
     (if data = [] then ([], Inr (), r)
      else
        (case charge cfg t (length data) now r of
           (Inl e, r1) \<Rightarrow> ([], Inl e, r1)
         | (Inr _, r1) \<Rightarrow> (case copy cfg t chunks r1 of (out, res, r2) \<Rightarrow> (data @ out, res, r2))))"

text \<open>The first bytes of a stream: \<^verbatim>\<open>readexactly\<close> raises \<^verbatim>\<open>IncompleteReadError\<close>, an \<^verbatim>\<open>EOFError\<close>.\<close>

definition read_request :: "bytes \<Rightarrow> bytes res" where
  "read_request stream =
     (let size = be_decode (take 4 stream) in
      ebind (raise_if (length stream < 4) (EOFError ''incomplete read'')) (\<lambda>_.
      ebind (raise_if (\<not> (1 \<le> size \<and> size \<le> 16384)) (ValueError ''invalid admission length'')) (\<lambda>_.
      ebind (raise_if (length stream < 4 + size) (EOFError ''incomplete read'')) (\<lambda>_.
        Inr (take size (drop 4 stream))))))"

definition handshake ::
  "penv \<Rightarrow> signer \<Rightarrow> config \<Rightarrow> int \<Rightarrow> (ustr \<times> ustr) option \<Rightarrow> bytes \<Rightarrow> broker \<Rightarrow> (tenant \<times> endpoint) res \<times> broker" where
  "handshake env sg cfg now anonymous stream b =
     (case anonymous of
        None \<Rightarrow>
          (case read_request stream of
             Inl e \<Rightarrow> (Inl e, b)
           | Inr raw \<Rightarrow>
               (case admit env sg cfg now raw b of
                  (Inl e, b1) \<Rightarrow> (Inl e, b1)
                | (Inr (t, _, ep), b1) \<Rightarrow> (Inr (t, ep), b1)))
      | Some r \<Rightarrow>
          (case (map_of (tenants cfg) (fst r), map_of (routes cfg) r) of
             (Some t, Some ep) \<Rightarrow> (Inr (t, ep), b)
           | _ \<Rightarrow> (Inl (KeyError ''anonymous route''), b)))"

text \<open>The counters: a connection begins and ends, a tenant's quota is taken and given back.\<close>

definition begin_connection :: "broker \<Rightarrow> broker option" where
  "begin_connection b = (if 4096 \<le> connections b then None else Some (b\<lparr>connections := connections b + 1\<rparr>))"

definition end_connection :: "broker \<Rightarrow> broker" where
  "end_connection b = b\<lparr>connections := connections b - 1\<rparr>"

definition runtime_of :: "broker \<Rightarrow> ustr \<Rightarrow> runtime" where
  "runtime_of b tid = (case map_of (runtimes b) tid of Some r \<Rightarrow> r | None \<Rightarrow> \<lparr>active = 0, tokens = 0, updated = 0\<rparr>)"

definition set_runtime :: "ustr \<Rightarrow> runtime \<Rightarrow> broker \<Rightarrow> broker" where
  "set_runtime tid r b = b\<lparr>runtimes := dset tid r (runtimes b)\<rparr>"

definition add_active :: "ustr \<Rightarrow> int \<Rightarrow> broker \<Rightarrow> broker" where
  "add_active tid n b = (let r = runtime_of b tid in set_runtime tid (r\<lparr>active := active r + n\<rparr>) b)"

definition enter :: "tenant \<Rightarrow> broker \<Rightarrow> broker option" where
  "enter t b =
     (if max_connections t \<le> active (runtime_of b (tenant_id t)) then None else Some (add_active (tenant_id t) 1 b))"

definition leave :: "ustr \<Rightarrow> broker \<Rightarrow> broker" where
  "leave tid b = add_active tid (- 1) b"

definition begin_session :: "ustr \<Rightarrow> broker \<Rightarrow> broker" where
  "begin_session tid b = (let b1 = add_active tid 1 b in b1\<lparr>connections := connections b1 + 1\<rparr>)"

text \<open>
  What runs beside each other: a stream connection before and after its handshake, a datagram
  of a \<^verbatim>\<open>gate\<close> listener before and after it is accepted, and a session of a \<^verbatim>\<open>s6na\<close> listener.
\<close>

datatype conn =
    Accepted "(ustr \<times> ustr) option"
  | Relaying ustr
  | Datagram "ustr \<times> ustr" bool bytes
  | Exchanging ustr
  | Session ustr

fun conn_tenant :: "conn \<Rightarrow> ustr option" where
  "conn_tenant (Relaying tid) = Some tid"
| "conn_tenant (Exchanging tid) = Some tid"
| "conn_tenant (Session tid) = Some tid"
| "conn_tenant _ = None"

text \<open>
  The running broker. \<open>opens\<close> has the port and the tenant of each \<^verbatim>\<open>s6na\<close> listener whose loop
  waits for \<^verbatim>\<open>sock_connect\<close>, between the test of the quotas and the two increments.
\<close>

record hub =
  hub_broker :: broker
  conns :: "conn multiset"
  opens :: "(int \<times> ustr) list"

definition hub_init :: "rat \<Rightarrow> config \<Rightarrow> hub" where
  "hub_init now cfg = \<lparr>hub_broker = broker_init now cfg, conns = {#}, opens = []\<rparr>"

definition s6na_listeners :: "config \<Rightarrow> (int \<times> ustr) list" where
  "s6na_listeners cfg =
     map (\<lambda>(port, t, _, _, _). (port, t)) (filter (\<lambda>(_, _, _, carrier, _). carrier = asc ''s6na'') (datagram_listeners cfg))"

text \<open>
  One step of the event loop. The messages, the clock readings and the order in which the
  tasks go on are arbitrary.
\<close>

inductive hub_step :: "penv \<Rightarrow> signer \<Rightarrow> config \<Rightarrow> hub \<Rightarrow> hub \<Rightarrow> bool" for env sg cfg where
  stream_accept:
    "begin_connection b = Some b1 \<Longrightarrow> anonymous = None \<or> anonymous \<in> Some ` set (map (\<lambda>(_, t, c). (t, c)) (anonymous_listeners cfg)) \<Longrightarrow>
       hub_step env sg cfg \<lparr>hub_broker = b, conns = cs, opens = os\<rparr> \<lparr>hub_broker = b1, conns = add_mset (Accepted anonymous) cs, opens = os\<rparr>"
| stream_refuse:
    "handshake env sg cfg now anonymous stream b = (Inl e, b1) \<Longrightarrow>
       hub_step env sg cfg \<lparr>hub_broker = b, conns = add_mset (Accepted anonymous) cs, opens = os\<rparr> \<lparr>hub_broker = end_connection b1, conns = cs, opens = os\<rparr>"
| stream_quota:
    "handshake env sg cfg now anonymous stream b = (Inr (t, ep), b1) \<Longrightarrow> enter t b1 = None \<Longrightarrow>
       hub_step env sg cfg \<lparr>hub_broker = b, conns = add_mset (Accepted anonymous) cs, opens = os\<rparr> \<lparr>hub_broker = end_connection b1, conns = cs, opens = os\<rparr>"
| stream_relay:
    "handshake env sg cfg now anonymous stream b = (Inr (t, ep), b1) \<Longrightarrow> enter t b1 = Some b2 \<Longrightarrow>
       hub_step env sg cfg \<lparr>hub_broker = b, conns = add_mset (Accepted anonymous) cs, opens = os\<rparr> \<lparr>hub_broker = b2, conns = add_mset (Relaying (tenant_id t)) cs, opens = os\<rparr>"
| stream_close:
    "hub_step env sg cfg \<lparr>hub_broker = b, conns = add_mset (Relaying tid) cs, opens = os\<rparr> \<lparr>hub_broker = end_connection (leave tid b), conns = cs, opens = os\<rparr>"
| charge_bytes:
    "c \<in># cs \<Longrightarrow> conn_tenant c = Some tid \<Longrightarrow> map_of (tenants cfg) tid = Some t \<Longrightarrow> charge cfg t n time (runtime_of b tid) = (res, r) \<Longrightarrow>
       hub_step env sg cfg \<lparr>hub_broker = b, conns = cs, opens = os\<rparr> \<lparr>hub_broker = set_runtime tid r b, conns = cs, opens = os\<rparr>"
| cancel_bytes:
    "c \<in># cs \<Longrightarrow> conn_tenant c = Some tid \<Longrightarrow>
       hub_step env sg cfg \<lparr>hub_broker = b, conns = cs, opens = os\<rparr> \<lparr>hub_broker = set_runtime tid (cancel_charge n (runtime_of b tid)) b, conns = cs, opens = os\<rparr>"
| gate_receive:
    "(port, tid, core, asc ''gate'', anon) \<in> set (datagram_listeners cfg) \<Longrightarrow> begin_connection b = Some b1 \<Longrightarrow>
       hub_step env sg cfg \<lparr>hub_broker = b, conns = cs, opens = os\<rparr> \<lparr>hub_broker = b1, conns = add_mset (Datagram (tid, core) anon raw) cs, opens = os\<rparr>"
| gate_refuse:
    "datagram_payload env sg cfg now raw route anon b = (Inl e, b1) \<Longrightarrow>
       hub_step env sg cfg \<lparr>hub_broker = b, conns = add_mset (Datagram route anon raw) cs, opens = os\<rparr> \<lparr>hub_broker = end_connection b1, conns = cs, opens = os\<rparr>"
| gate_quota:
    "datagram_payload env sg cfg now raw route anon b = (Inr payload, b1) \<Longrightarrow> map_of (tenants cfg) (fst route) = Some t \<Longrightarrow> enter t b1 = None \<Longrightarrow>
       hub_step env sg cfg \<lparr>hub_broker = b, conns = add_mset (Datagram route anon raw) cs, opens = os\<rparr> \<lparr>hub_broker = end_connection b1, conns = cs, opens = os\<rparr>"
| gate_exchange:
    "datagram_payload env sg cfg now raw route anon b = (Inr payload, b1) \<Longrightarrow> map_of (tenants cfg) (fst route) = Some t \<Longrightarrow> enter t b1 = Some b2 \<Longrightarrow>
       hub_step env sg cfg \<lparr>hub_broker = b, conns = add_mset (Datagram route anon raw) cs, opens = os\<rparr> \<lparr>hub_broker = b2, conns = add_mset (Exchanging (tenant_id t)) cs, opens = os\<rparr>"
| gate_done:
    "hub_step env sg cfg \<lparr>hub_broker = b, conns = add_mset (Exchanging tid) cs, opens = os\<rparr> \<lparr>hub_broker = end_connection (leave tid b), conns = cs, opens = os\<rparr>"
| session_refuse:
    "(port, tid, core, asc ''s6na'', anon) \<in> set (datagram_listeners cfg) \<Longrightarrow> (port, tid) \<notin> set os \<Longrightarrow>
     datagram_payload env sg cfg now raw (tid, core) anon b = (Inl e, b1) \<Longrightarrow>
       hub_step env sg cfg \<lparr>hub_broker = b, conns = cs, opens = os\<rparr> \<lparr>hub_broker = b1, conns = cs, opens = os\<rparr>"
| session_keep:
    "(port, tid, core, asc ''s6na'', anon) \<in> set (datagram_listeners cfg) \<Longrightarrow> (port, tid) \<notin> set os \<Longrightarrow>
     datagram_payload env sg cfg now raw (tid, core) anon b = (Inr payload, b1) \<Longrightarrow>
       hub_step env sg cfg \<lparr>hub_broker = b, conns = cs, opens = os\<rparr> \<lparr>hub_broker = b1, conns = cs, opens = os\<rparr>"
| session_open:
    "(port, tid, core, asc ''s6na'', anon) \<in> set (datagram_listeners cfg) \<Longrightarrow> (port, tid) \<notin> set os \<Longrightarrow>
     datagram_payload env sg cfg now raw (tid, core) anon b = (Inr payload, b1) \<Longrightarrow> map_of (tenants cfg) tid = Some t \<Longrightarrow>
     connections b1 < 4096 \<Longrightarrow> active (runtime_of b1 tid) < max_connections t \<Longrightarrow>
       hub_step env sg cfg \<lparr>hub_broker = b, conns = cs, opens = os\<rparr> \<lparr>hub_broker = b1, conns = cs, opens = (port, tid) # os\<rparr>"
| session_failed:
    "hub_step env sg cfg \<lparr>hub_broker = b, conns = cs, opens = os1 @ (port, tid) # os2\<rparr> \<lparr>hub_broker = b, conns = cs, opens = os1 @ os2\<rparr>"
| session_start:
    "begin_session tid b = b1 \<Longrightarrow>
       hub_step env sg cfg \<lparr>hub_broker = b, conns = cs, opens = os1 @ (port, tid) # os2\<rparr> \<lparr>hub_broker = b1, conns = add_mset (Session tid) cs, opens = os1 @ os2\<rparr>"
| session_done:
    "hub_step env sg cfg \<lparr>hub_broker = b, conns = add_mset (Session tid) cs, opens = os\<rparr> \<lparr>hub_broker = end_connection (leave tid b), conns = cs, opens = os\<rparr>"

inductive reachable :: "penv \<Rightarrow> signer \<Rightarrow> config \<Rightarrow> hub \<Rightarrow> bool" for env sg cfg where
  start: "reachable env sg cfg (hub_init now cfg)"
| step: "reachable env sg cfg h \<Longrightarrow> hub_step env sg cfg h h' \<Longrightarrow> reachable env sg cfg h'"

section \<open>A loaded configuration is well formed\<close>

definition endpoint_ok :: "penv \<Rightarrow> endpoint \<Rightarrow> bool" where
  "endpoint_ok env ep \<longleftrightarrow> env_loopback env (fst ep) = Some True \<and> 1 \<le> snd ep \<and> snd ep \<le> 65535"

definition tenant_ok :: "penv \<Rightarrow> ustr \<times> tenant \<Rightarrow> bool" where
  "tenant_ok env p \<longleftrightarrow>
     (case p of (tid, t) \<Rightarrow>
        tenant_id t = tid \<and> tenant_id_ok env tid \<and> approval t \<in> {asc ''default-approved'', asc ''approval-required''}
        \<and> length (public_keys t) \<le> 32 \<and> list_all (\<lambda>k. length k = 32) (public_keys t)
        \<and> 1 \<le> max_connections t \<and> max_connections t \<le> 1024
        \<and> 1024 \<le> bytes_per_second t \<and> bytes_per_second t \<le> 2 ^ 30
        \<and> 1024 \<le> burst_bytes t \<and> burst_bytes t \<le> 2 ^ 30)"

definition routes_ok :: "penv \<Rightarrow> ustr list \<Rightarrow> ustr list \<Rightarrow> ((ustr \<times> ustr) \<times> endpoint) list \<Rightarrow> bool" where
  "routes_ok env tids cores rs \<longleftrightarrow>
     distinct (map fst rs) \<and> distinct (map snd rs)
     \<and> list_all (\<lambda>((t, c), ep). t \<in> set tids \<and> c \<in> set cores \<and> endpoint_ok env ep) rs"

definition listeners_ok :: "config \<Rightarrow> bool" where
  "listeners_ok cfg \<longleftrightarrow>
     distinct (listen_port cfg # map fst (anonymous_listeners cfg))
     \<and> list_all (\<lambda>(_, t, c). (t, c) \<in> set (map fst (routes cfg))) (anonymous_listeners cfg)
     \<and> distinct (map fst (datagram_listeners cfg))
     \<and> list_all (\<lambda>(_, t, c, _, _). (t, c) \<in> set (map fst (routes cfg)) \<and> c \<in> set DATAGRAM_CORES) (datagram_listeners cfg)"

definition config_ok :: "penv \<Rightarrow> config \<Rightarrow> bool" where
  "config_ok env cfg \<longleftrightarrow>
     endpoint_ok env (listen_host cfg, listen_port cfg)
     \<and> distinct (map fst (cfg_cores cfg)) \<and> list_all (\<lambda>(c, ep). c \<in> set CORES \<and> endpoint_ok env ep) (cfg_cores cfg)
     \<and> distinct (map fst (tenants cfg)) \<and> list_all (tenant_ok env) (tenants cfg)
     \<and> routes_ok env (map fst (tenants cfg)) (map fst (cfg_cores cfg)) (routes cfg)
     \<and> listeners_ok cfg
     \<and> list_all (\<lambda>(t, _). t \<in> set (map fst (tenants cfg))) (approvals cfg)
     \<and> length (identity_key cfg) = 32
     \<and> 1024 \<le> max_frame cfg \<and> max_frame cfg \<le> 16777216 \<and> 1 \<le> handshake_seconds cfg \<and> handshake_seconds cfg \<le> 30
     \<and> 5 \<le> idle_seconds cfg \<and> idle_seconds cfg \<le> 3600"

lemma loopback_endpoint_Inr:
  "loopback_endpoint env h p = Inr True \<longleftrightarrow> is_int p \<and> endpoint_ok env (h, the_int p)"
  by (cases p) (auto simp: loopback_endpoint_def endpoint_ok_def int_in_iff is_int_def split: option.splits)

lemma in_keys_True: "in_keys ks v = Inr True \<longleftrightarrow> is_str v \<and> the_str v \<in> set ks"
  by (cases v) (auto simp: in_keys_def is_str_def)

lemma load_listen_ok: "load_listen env v = Inr (h, p) \<Longrightarrow> endpoint_ok env (h, p)"
  by (auto simp: load_listen_def Let_def loopback_endpoint_Inr)

lemma load_core_ok:
  assumes "load_core env p cs = Inr cs'" and "dict_ok cs" "list_all (\<lambda>(c, ep). c \<in> set CORES \<and> endpoint_ok env ep) cs"
  shows "dict_ok cs' \<and> list_all (\<lambda>(c, ep). c \<in> set CORES \<and> endpoint_ok env ep) cs'"
  using assms by (cases p) (auto simp: load_core_def Let_def loopback_endpoint_Inr list_all_iff dest!: set_dset)

lemma load_tenant_ok:
  assumes "load_tenant env v ts = Inr ts'" and "dict_ok ts" "list_all (tenant_ok env) ts"
  shows "dict_ok ts' \<and> list_all (tenant_ok env) ts'"
proof -
  let ?d = "the_obj v"
  let ?tid = "the_str (fld ?d ''id'')"
  from assms(1) obtain ks where
    id: "tenant_id_ok env ?tid"
    and ap: "fld ?d ''approval'' \<in> {jstr ''default-approved'', jstr ''approval-required''}"
    and pl: "length (the_list (fld ?d ''public_keys'')) \<le> 32"
    and ks: "emap (\<lambda>x. b64decode (the_str x)) (the_list (fld ?d ''public_keys'')) = Inr ks" "\<not> list_ex (\<lambda>k. length k \<noteq> 32) ks"
    and bd: "int_in 1 1024 (fld ?d ''max_connections'')" "int_in 1024 (2 ^ 30) (fld ?d ''bytes_per_second'')"
      "int_in 1024 (2 ^ 30) (fld ?d ''burst_bytes'')"
    and ts': "ts' = dset ?tid \<lparr>tenant_id = ?tid, public_keys = ks, approval = the_str (fld ?d ''approval''),
               max_connections = the_int (fld ?d ''max_connections''), bytes_per_second = the_int (fld ?d ''bytes_per_second''),
               burst_bytes = the_int (fld ?d ''burst_bytes'')\<rparr> ts"
    by (auto simp: load_tenant_def Let_def tenant_bounds_def not_less)
  have "length ks \<le> 32" using ks(1) pl by (auto simp: emap_Inr dest: list_all2_lengthD)
  then have "tenant_ok env (?tid, \<lparr>tenant_id = ?tid, public_keys = ks, approval = the_str (fld ?d ''approval''),
               max_connections = the_int (fld ?d ''max_connections''), bytes_per_second = the_int (fld ?d ''bytes_per_second''),
               burst_bytes = the_int (fld ?d ''burst_bytes'')\<rparr>)"
    using id ap ks(2) bd by (auto simp: tenant_ok_def int_in_iff list_all_iff list_ex_iff)
  then show ?thesis using assms(2,3) unfolding ts' by (auto simp: list_all_iff dest!: set_dset)
qed

lemma load_route_ok:
  assumes "load_route env tids cores v rs = Inr rs'" and "routes_ok env tids cores rs"
  shows "routes_ok env tids cores rs'"
proof -
  let ?d = "the_obj v"
  let ?key = "(the_str (fld ?d ''tenant''), the_str (fld ?d ''core''))"
  let ?ep = "(fld ?d ''host'', the_int (fld ?d ''port''))"
  from assms(1) have k: "fst ?key \<in> set tids" "snd ?key \<in> set cores" "endpoint_ok env ?ep"
    and n: "map_of rs ?key = None" "?ep \<notin> set (map snd rs)" and rs': "rs' = dset ?key ?ep rs"
    by (auto simp: load_route_def Let_def loopback_endpoint_Inr in_keys_True)
  have "rs' = rs @ [(?key, ?ep)]" unfolding rs' by (rule dset_new [OF n(1)])
  then show ?thesis using assms(2) k n by (auto simp: routes_ok_def map_of_eq_None_iff)
qed

lemma load_anonymous_ok:
  assumes "load_anonymous rks v acc = Inr acc'"
    and "distinct (fst acc)" "fst acc = port # map fst (snd acc)" "list_all (\<lambda>(_, t, c). (t, c) \<in> set rks) (snd acc)"
  shows "distinct (fst acc') \<and> fst acc' = port # map fst (snd acc') \<and> list_all (\<lambda>(_, t, c). (t, c) \<in> set rks) (snd acc')"
  using assms by (auto simp: load_anonymous_def Let_def)

lemma load_datagram_ok:
  assumes "load_datagram rks v acc = Inr acc'"
    and "distinct (fst acc)" "fst acc = map fst (snd acc)"
      "list_all (\<lambda>(_, t, c, _, _). (t, c) \<in> set rks \<and> c \<in> set DATAGRAM_CORES) (snd acc)"
  shows "distinct (fst acc') \<and> fst acc' = map fst (snd acc') \<and>
    list_all (\<lambda>(_, t, c, _, _). (t, c) \<in> set rks \<and> c \<in> set DATAGRAM_CORES) (snd acc')"
  using assms by (auto simp: load_datagram_def Let_def)

lemma load_approval_ok:
  assumes "load_approval tids v acc = Inr acc'" and "list_all (\<lambda>(t, _). t \<in> set tids) acc"
  shows "list_all (\<lambda>(t, _). t \<in> set tids) acc'"
  using assms by (auto simp: load_approval_def Let_def in_keys_True)

lemma load_catalogues_ok:
  assumes "load_catalogues env d = Inr (cs, ts, rs)"
  shows "dict_ok cs \<and> list_all (\<lambda>(c, ep). c \<in> set CORES \<and> endpoint_ok env ep) cs"
    and "dict_ok ts \<and> list_all (tenant_ok env) ts"
    and "routes_ok env (map fst ts) (map fst cs) rs"
proof -
  from assms have f: "efold (load_core env) (the_obj (fld d ''cores'')) [] = Inr cs"
    "efold (load_tenant env) (the_list (fld d ''tenants'')) [] = Inr ts"
    "efold (load_route env (map fst ts) (map fst cs)) (the_list (fld d ''routes'')) [] = Inr rs"
    by (auto simp: load_catalogues_def Let_def)
  show "dict_ok cs \<and> list_all (\<lambda>(c, ep). c \<in> set CORES \<and> endpoint_ok env ep) cs"
    by (rule efold_invariant [OF f(1)]) (simp_all add: dict_ok_def, use load_core_ok in \<open>fastforce simp: dict_ok_def\<close>)
  show "dict_ok ts \<and> list_all (tenant_ok env) ts"
    by (rule efold_invariant [OF f(2)]) (simp_all add: dict_ok_def, use load_tenant_ok in \<open>fastforce simp: dict_ok_def\<close>)
  show "routes_ok env (map fst ts) (map fst cs) rs"
    by (rule efold_invariant [OF f(3)]) (simp add: routes_ok_def, rule load_route_ok)
qed

lemma load_listeners_ok:
  assumes "load_listeners d port ts rks = Inr (an, dg)"
  shows "distinct (port # map fst an) \<and> list_all (\<lambda>(_, t, c). (t, c) \<in> set rks) an"
    and "distinct (map fst dg) \<and> list_all (\<lambda>(_, t, c, _, _). (t, c) \<in> set rks \<and> c \<in> set DATAGRAM_CORES) dg"
proof -
  from assms obtain p q where f: "efold (load_anonymous rks) (the_list (getd d ''anonymous_listeners'' (JList []))) ([port], []) = Inr (p, an)"
    "efold (load_datagram rks) (the_list (getd d ''datagram_listeners'' (JList []))) ([], []) = Inr (q, dg)"
    by (auto simp: load_listeners_def Let_def split: prod.splits)
  have "distinct (fst (p, an)) \<and> fst (p, an) = port # map fst (snd (p, an)) \<and> list_all (\<lambda>(_, t, c). (t, c) \<in> set rks) (snd (p, an))"
    by (rule efold_invariant [OF f(1)]) (simp, elim conjE, rule load_anonymous_ok, assumption+)
  then show "distinct (port # map fst an) \<and> list_all (\<lambda>(_, t, c). (t, c) \<in> set rks) an" by (metis fst_conv snd_conv)
  have "distinct (fst (q, dg)) \<and> fst (q, dg) = map fst (snd (q, dg)) \<and>
      list_all (\<lambda>(_, t, c, _, _). (t, c) \<in> set rks \<and> c \<in> set DATAGRAM_CORES) (snd (q, dg))"
    by (rule efold_invariant [OF f(2)]) (simp, elim conjE, rule load_datagram_ok, assumption+)
  then show "distinct (map fst dg) \<and> list_all (\<lambda>(_, t, c, _, _). (t, c) \<in> set rks \<and> c \<in> set DATAGRAM_CORES) dg" by (metis fst_conv snd_conv)
qed

lemma load_config_ok:
  assumes "load_config env euid file key_file = Inr cfg"
  shows "config_ok env cfg"
proof -
  from assms obtain d where
    l: "load_listen env (fld d ''listen'') = Inr (listen_host cfg, listen_port cfg)"
    and c: "load_catalogues env d = Inr (cfg_cores cfg, tenants cfg, routes cfg)"
    and n: "load_listeners d (listen_port cfg) (tenants cfg) (map fst (routes cfg)) = Inr (anonymous_listeners cfg, datagram_listeners cfg)"
    and lim: "check_limits (fld d ''limits'') = Inr ()" "max_frame cfg = the_int (fld (the_obj (fld d ''limits'')) ''max_frame'')"
      "handshake_seconds cfg = the_int (fld (the_obj (fld d ''limits'')) ''handshake_seconds'')"
      "idle_seconds cfg = the_int (fld (the_obj (fld d ''limits'')) ''idle_seconds'')"
    and k: "length (identity_key cfg) = 32"
    and a: "efold (load_approval (map fst (tenants cfg))) (the_list (fld d ''approvals'')) [] = Inr (approvals cfg)"
    by (auto simp: load_config_def Let_def split: prod.splits)
  have "list_all (\<lambda>(t, _). t \<in> set (map fst (tenants cfg))) (approvals cfg)"
    by (rule efold_invariant [OF a]) (simp, rule load_approval_ok)
  then show ?thesis
    using load_listen_ok [OF l] load_catalogues_ok [OF c] load_listeners_ok [OF n] lim k
    by (simp add: config_ok_def listeners_ok_def dict_ok_def check_limits_def Let_def int_in_iff) auto
qed

section \<open>The token bucket\<close>

text \<open>The events of one bucket in the order of the event loop. What a run lets through is what it charged less what it gave back.\<close>

datatype bucket_event = Charge nat rat | Cancel nat

fun bucket_run :: "config \<Rightarrow> tenant \<Rightarrow> bucket_event list \<Rightarrow> runtime \<Rightarrow> rat \<times> runtime" where
  "bucket_run cfg t [] r = (0, r)"
| "bucket_run cfg t (Charge n now # es) r =
     (case charge cfg t n now r of
        (Inl _, r1) \<Rightarrow> bucket_run cfg t es r1
      | (Inr _, r1) \<Rightarrow> (case bucket_run cfg t es r1 of (spent, r2) \<Rightarrow> (of_nat n + spent, r2)))"
| "bucket_run cfg t (Cancel n # es) r =
     (case bucket_run cfg t es (cancel_charge n r) of (spent, r2) \<Rightarrow> (spent - of_nat n, r2))"

lemma charge_tokens:
  assumes "charge cfg t n now r = (res, r')"
  shows "updated r' = now"
    and "tokens r' \<le> tokens r + (now - updated r) * of_int (bytes_per_second t) - (case res of Inl _ \<Rightarrow> 0 | Inr _ \<Rightarrow> of_nat n)"
    and "active r' = active r"
  using assms by (auto simp: charge_def Let_def split: if_splits)

lemma charge_delay:
  assumes "charge cfg t n now r = (Inr delay, r')" and "0 < bytes_per_second t"
  shows "0 \<le> delay" and "0 \<le> tokens r' + delay * of_int (bytes_per_second t)"
proof -
  define left where "left = min (of_int (burst_bytes t)) (tokens r + (now - updated r) * of_int (bytes_per_second t)) - of_nat n"
  have "tokens r' = left" and d: "delay = (if left < 0 then - left / of_int (bytes_per_second t) else 0)"
    using assms(1) by (auto simp: charge_def Let_def left_def split: if_splits)
  then show "0 \<le> delay" "0 \<le> tokens r' + delay * of_int (bytes_per_second t)"
    using assms(2) by (simp_all add: divide_nonpos_pos)
qed

lemma bucket_run_tokens:
  assumes "bucket_run cfg t es r = (spent, r')"
  shows "spent + tokens r' \<le> tokens r + (updated r' - updated r) * of_int (bytes_per_second t)"
  using assms
proof (induction es arbitrary: r spent)
  case (Cons e es)
  show ?case
  proof (cases e)
    case (Charge n now)
    obtain res r1 where c: "charge cfg t n now r = (res, r1)" by fastforce
    obtain s1 where b: "bucket_run cfg t es r1 = (s1, r')" "spent = (case res of Inl _ \<Rightarrow> 0 | Inr _ \<Rightarrow> of_nat n) + s1"
      using Cons.prems Charge c by (auto split: sum.splits prod.splits)
    show ?thesis using Cons.IH [OF b(1)] charge_tokens [OF c] b(2) by (simp add: algebra_simps)
  next
    case (Cancel n)
    obtain s1 where b: "bucket_run cfg t es (cancel_charge n r) = (s1, r')" "spent = s1 - of_nat n"
      using Cons.prems Cancel by (auto split: prod.splits)
    show ?thesis using Cons.IH [OF b(1)] b(2) by (simp add: cancel_charge_def)
  qed
qed simp

lemma bucket_conforms:
  assumes run: "bucket_run cfg t es r = (spent, r1)" and c: "charge cfg t n now r1 = (Inr delay, r2)"
    and rate: "0 < bytes_per_second t"
  shows "spent + of_nat n \<le> tokens r + (now + delay - updated r) * of_int (bytes_per_second t)"
  using bucket_run_tokens [OF run] charge_tokens(1,2) [OF c] charge_delay(2) [OF c rate] by (simp add: algebra_simps)

text \<open>What is relayed is the input, in order; only a rate limit cuts it short.\<close>

lemma copy_prefix:
  "copy cfg t chunks r = (out, res, r') \<Longrightarrow> [] \<notin> fst ` set chunks \<Longrightarrow>
     (\<exists>rest. concat (map fst chunks) = out @ rest) \<and> (res = Inr () \<longrightarrow> out = concat (map fst chunks)) \<and> active r' = active r"
proof (induction chunks arbitrary: r out)
  case (Cons c chunks)
  obtain data now where d: "c = (data, now)" by (cases c)
  then have ne: "data \<noteq> []" using Cons.prems(2) by auto
  obtain cr r1 where ch: "charge cfg t (length data) now r = (cr, r1)" by fastforce
  show ?case
  proof (cases cr)
    case (Inl e)
    then show ?thesis using Cons.prems(1) ne ch d charge_tokens(3) [OF ch] by auto
  next
    case (Inr x)
    obtain o1 where o1: "copy cfg t chunks r1 = (o1, res, r')" "out = data @ o1"
      using Cons.prems(1) ne ch d Inr by (auto split: prod.splits)
    show ?thesis using Cons.IH [OF o1(1)] Cons.prems(2) o1(2) d charge_tokens(3) [OF ch] by auto
  qed
qed simp

section \<open>The nonce table\<close>

text \<open>
  Every nonce in the table has its entry in the heap, the heap is sorted and the table is
  within its capacity.
\<close>

definition nonces_ok :: "broker \<Rightarrow> bool" where
  "nonces_ok b \<longleftrightarrow>
     dict_ok (nonces b) \<and> sorted (map fst (nonce_expiry b)) \<and> length (nonces b) \<le> 65536
     \<and> (\<forall>(k, e) \<in> set (nonces b). (e, k) \<in> set (nonce_expiry b))"

definition unexpired :: "int \<Rightarrow> int option \<Rightarrow> int option" where
  "unexpired now e = (case e of Some x \<Rightarrow> if x < now then None else Some x | None \<Rightarrow> None)"

lemma unexpired_simps [simp]:
  "unexpired now None = None" "x < now \<Longrightarrow> unexpired now (Some x) = None" "\<not> x < now \<Longrightarrow> unexpired now (Some x) = Some x"
  by (simp_all add: unexpired_def)

lemma unexpired_None: "unexpired now e = None \<longleftrightarrow> (\<forall>x. e = Some x \<longrightarrow> x < now)"
  by (simp add: unexpired_def split: option.split)

lemma expire_loop_props:
  "expire_loop now heap ns = (heap', ns') \<Longrightarrow> dict_ok ns \<Longrightarrow> sorted (map fst heap) \<Longrightarrow>
     \<forall>(k, e) \<in> set ns. (e, k) \<in> set heap \<Longrightarrow>
     dict_ok ns' \<and> sorted (map fst heap') \<and> length ns' \<le> length ns \<and> (\<forall>(k, e) \<in> set ns'. (e, k) \<in> set heap' \<and> now \<le> e) \<and>
     (\<forall>j. map_of ns' j = unexpired now (map_of ns j))"
proof (induction now heap ns rule: expire_loop.induct)
  case (1 now ns)
  have "p \<notin> set ns" for p using bspec [OF 1(4), of p] by (auto simp: case_prod_beta)
  then have "ns = []" by (cases ns) auto
  with 1 show ?case by simp
next
  case (2 now expires key heap ns)
  show ?case
  proof (cases "expires < now")
    case True
    let ?ns = "if map_of ns key = Some expires then ddel key ns else ns"
    have d: "dict_ok ?ns" using 2(3) by simp
    have h: "\<forall>(k, e) \<in> set ?ns. (e, k) \<in> set heap"
    proof (intro ballI, clarify)
      fix k e assume in1: "(k, e) \<in> set ?ns"
      then have m: "(k, e) \<in> set ns" by (auto dest: set_ddel split: if_splits)
      then have "map_of ns k = Some e" using 2(3) by (simp add: dict_ok_def)
      then have "\<not> (k = key \<and> e = expires)" using in1 set_ddel [of "(k, e)" key ns] by auto
      with m 2(5) show "(e, k) \<in> set heap" by auto
    qed
    have e: "expire_loop now heap ?ns = (heap', ns')" using 2(2) True by simp
    have s: "sorted (map fst heap)" using 2(4) by simp
    from 2(1) [OF True e d s h] have ih: "dict_ok ns'" "sorted (map fst heap')" "length ns' \<le> length ?ns"
      "\<forall>(k, e) \<in> set ns'. (e, k) \<in> set heap' \<and> now \<le> e"
      "\<And>j. map_of ns' j = unexpired now (map_of ?ns j)"
      by blast+
    have "map_of ns' j = unexpired now (map_of ns j)" for j
      using ih(5) [of j] True by (cases "map_of ns key = Some expires"; cases "j = key") (simp_all add: map_of_ddel)
    then show ?thesis using ih(1-4) length_ddel_le [of key ns] by (auto split: if_splits)
  next
    case False
    then have [simp]: "heap' = (expires, key) # heap" "ns' = ns" using 2(2) by simp_all
    have le: "now \<le> e" if "(k, e) \<in> set ns" for k e
      using that 2(4,5) False by fastforce
    have "map_of ns j = unexpired now (map_of ns j)" for j
      using le [OF map_of_SomeD, of j] by (cases "map_of ns j") (simp_all add: unexpired_def not_less)
    moreover have "\<forall>(k, e) \<in> set ns. (e, k) \<in> set ((expires, key) # heap) \<and> now \<le> e" using 2(5) le by blast
    ultimately show ?thesis using 2(3,4) by simp
  qed
qed

lemma expire_nonces_props:
  assumes "nonces_ok b"
  shows "nonces_ok (expire_nonces now b)"
    and "map_of (nonces (expire_nonces now b)) j = unexpired now (map_of (nonces b) j)"
    and "runtimes (expire_nonces now b) = runtimes b" "connections (expire_nonces now b) = connections b"
proof -
  obtain h ns where e: "expire_loop now (nonce_expiry b) (nonces b) = (h, ns)" by fastforce
  have p: "dict_ok ns" "sorted (map fst h)" "length ns \<le> length (nonces b)" "\<forall>(k, e) \<in> set ns. (e, k) \<in> set h \<and> now \<le> e"
    "\<And>j. map_of ns j = unexpired now (map_of (nonces b) j)"
    using expire_loop_props [OF e] assms unfolding nonces_ok_def by blast+
  show "nonces_ok (expire_nonces now b)" using p(1-4) assms by (auto simp: nonces_ok_def expire_nonces_def e)
  show "map_of (nonces (expire_nonces now b)) j = unexpired now (map_of (nonces b) j)"
    using p(5) by (simp add: expire_nonces_def e)
  show "runtimes (expire_nonces now b) = runtimes b" "connections (expire_nonces now b) = connections b"
    by (simp_all add: expire_nonces_def e)
qed

lemma claim_nonce_cases:
  assumes "claim_nonce key expires now b = (res, b')" and ok: "nonces_ok b"
  shows "nonces_ok b'" and "runtimes b' = runtimes b" and "connections b' = connections b"
    and "res = Inr () \<Longrightarrow> map_of (nonces b') key = Some expires \<and> (\<forall>x. map_of (nonces b) key = Some x \<longrightarrow> x < now)"
    and "map_of (nonces b) j = Some x \<Longrightarrow> now \<le> x \<Longrightarrow> j \<noteq> key \<or> res \<noteq> Inr () \<Longrightarrow> map_of (nonces b') j = Some x"
proof -
  let ?b = "expire_nonces now b"
  note e = expire_nonces_props [OF ok, of now]
  have new: "nonces_ok (?b\<lparr>nonces := dset key expires (nonces ?b), nonce_expiry := insort_key fst (expires, key) (nonce_expiry ?b)\<rparr>)"
    if "map_of (nonces ?b) key = None" "\<not> 65536 \<le> length (nonces ?b)"
    using e(1) that by (auto simp: nonces_ok_def sorted_insort_key set_insort_key dest!: set_dset)
  show "nonces_ok b'" using assms(1) new e(1) by (auto simp: claim_nonce_def Let_def split: if_splits)
  show "runtimes b' = runtimes b" "connections b' = connections b"
    using assms(1) e(3,4) by (auto simp: claim_nonce_def Let_def split: if_splits)
  show "res = Inr () \<Longrightarrow> map_of (nonces b') key = Some expires \<and> (\<forall>x. map_of (nonces b) key = Some x \<longrightarrow> x < now)"
    using assms(1) e(2) [of key] by (auto simp: claim_nonce_def Let_def map_of_dset unexpired_None split: if_splits)
  show "map_of (nonces b) j = Some x \<Longrightarrow> now \<le> x \<Longrightarrow> j \<noteq> key \<or> res \<noteq> Inr () \<Longrightarrow> map_of (nonces b') j = Some x"
    using assms(1) e(2) [of j] by (auto simp: claim_nonce_def Let_def map_of_dset split: if_splits)
qed

definition nonce_accept :: "nonce_key \<Rightarrow> int \<Rightarrow> int \<Rightarrow> broker \<Rightarrow> bool \<times> broker" where
  "nonce_accept key expires now b = (case claim_nonce key expires now b of (r, b') \<Rightarrow> (r = Inr (), b'))"

interpretation nonce_table: replay_guard nonce_accept "\<lambda>b. map_of (nonces b)" nonces_ok
proof unfold_locales
  fix b k e now r b'
  assume b: "nonces_ok b" and "nonce_accept k e now b = (r, b')"
  then obtain res where c: "claim_nonce k e now b = (res, b')" "r \<longleftrightarrow> res = Inr ()"
    by (auto simp: nonce_accept_def split: prod.splits)
  note cases = claim_nonce_cases [OF c(1) b]
  show "nonces_ok b'" by (rule cases)
  show "map_of (nonces b') j = Some x" if "map_of (nonces b) j = Some x" "now \<le> x" "j \<noteq> k \<or> \<not> r" for j x
    using cases(5) that c(2) by blast
next
  fix b k e now b'
  assume b: "nonces_ok b" and "nonce_accept k e now b = (True, b')"
  then have c: "claim_nonce k e now b = (Inr (), b')" by (auto simp: nonce_accept_def split: prod.splits)
  note cases = claim_nonce_cases(4) [OF c b refl]
  show "x < now" if "map_of (nonces b) k = Some x" for x using cases that by blast
  show "map_of (nonces b') k = Some e" using cases by blast
qed

section \<open>Admission\<close>

lemma admit_state:
  assumes "admit env sg cfg now raw b = (r, b')" and "nonces_ok b"
  shows "nonces_ok b' \<and> runtimes b' = runtimes b \<and> connections b' = connections b"
proof (cases "check_admission env sg cfg now raw")
  case (Inl e)
  then show ?thesis using assms by (simp add: admit_def)
next
  case (Inr a)
  obtain cr b1 where c: "claim_nonce (tenant_id (adm_tenant a), adm_nonce a) (adm_expires a) now b = (cr, b1)" by fastforce
  then have "b1 = b'" using assms(1) Inr by (auto simp: admit_def split: sum.splits)
  then show ?thesis using claim_nonce_cases(1-3) [OF c assms(2)] by simp
qed

lemma admit_Inr:
  assumes "admit env sg cfg now raw b = (Inr (t, vid, ep), b')"
  obtains a where "check_admission env sg cfg now raw = Inr a" "t = adm_tenant a" "virtual_id cfg a = Inr vid"
    "ep = the (map_of (routes cfg) (tenant_id t, adm_core a))"
    "claim_nonce (tenant_id t, adm_nonce a) (adm_expires a) now b = (Inr (), b')"
  using assms by (auto simp: admit_def split: sum.splits prod.splits)

lemma check_admission_Inr:
  assumes "check_admission env sg cfg now raw = Inr a"
  obtains d pub sig message where "portable_json (env_nfc env) 262144 (BytesIn raw) = Inr (JObj d)"
    "map_of (tenants cfg) (the_str (fld d ''tenant'')) = Some (adm_tenant a)"
    "adm_client a = the_str (fld d ''client'')" "adm_core a = the_str (fld d ''core'')"
    "map_of (routes cfg) (tenant_id (adm_tenant a), adm_core a) \<noteq> None"
    "fld d ''expires'' = JInt (adm_expires a)" "the_int (fld d ''issued'') \<le> now + 30" "now \<le> adm_expires a"
    "adm_expires a \<le> the_int (fld d ''issued'') + 120"
    "b64decode (the_str (fld d ''nonce'')) = Inr (adm_nonce a)" "b64decode (the_str (fld d ''public_key'')) = Inr pub"
    "b64decode (the_str (fld d ''signature'')) = Inr sig" "pub \<in> set (public_keys (adm_tenant a))"
    "json_bytes (JObj (filter (\<lambda>(k, _). k \<noteq> asc ''signature'') d)) = Inr message" "sig_verify sg pub sig message"
    "approval (adm_tenant a) = asc ''approval-required'' \<Longrightarrow> (tenant_id (adm_tenant a), adm_client a) \<in> set (approvals cfg)"
proof -
  from assms obtain v where v: "portable_json (env_nfc env) 262144 (BytesIn raw) = Inr v" and o: "is_obj v"
    and r: "check_request sg cfg now (the_obj v) = Inr a"
    unfolding check_admission_def Let_def ebind_Inr raise_if_Inr by blast
  define d where "d = the_obj v"
  have vd: "v = JObj d" using o by (simp add: d_def is_kindE(1) [symmetric])
  obtain t where t: "map_of (tenants cfg) (the_str (fld d ''tenant'')) = Some t"
    using r by (cases "map_of (tenants cfg) (the_str (fld d ''tenant''))") (auto simp: check_request_def Let_def d_def)
  from r obtain nonce pub sig message where
    q: "map_of (routes cfg) (tenant_id t, the_str (fld d ''core'')) \<noteq> None" "is_int (fld d ''expires'')"
      "\<not> now + 30 < the_int (fld d ''issued'')" "\<not> the_int (fld d ''expires'') < now"
      "the_int (fld d ''expires'') - the_int (fld d ''issued'') \<le> 120"
    and b: "b64decode (the_str (fld d ''nonce'')) = Inr nonce" "b64decode (the_str (fld d ''public_key'')) = Inr pub"
      "b64decode (the_str (fld d ''signature'')) = Inr sig" "pub \<in> set (public_keys t)"
    and m: "json_bytes (JObj (filter (\<lambda>(k, _). k \<noteq> asc ''signature'') d)) = Inr message" "sig_verify sg pub sig message"
    and ap: "\<not> (approval t = asc ''approval-required'' \<and> (tenant_id t, the_str (fld d ''client'')) \<notin> set (approvals cfg))"
    and a: "a = \<lparr>adm_tenant = t, adm_client = the_str (fld d ''client''), adm_core = the_str (fld d ''core''), adm_nonce = nonce,
                adm_expires = the_int (fld d ''expires'')\<rparr>"
    unfolding d_def [symmetric] check_request_def Let_def t option.case ebind_Inr raise_if_Inr broker_canonical_def by blast
  show thesis
    by (rule that [OF v [unfolded vd], of pub sig message]) (use t q b m ap a is_kindE(4) [OF q(2)] in simp_all)
qed

section \<open>Counters and quotas\<close>

definition pending :: "(int \<times> ustr) list \<Rightarrow> ustr \<Rightarrow> int" where
  "pending os tid = int (length (filter (\<lambda>p. snd p = tid) os))"

definition users :: "conn multiset \<Rightarrow> ustr \<Rightarrow> int" where
  "users cs tid = int (size (filter_mset (\<lambda>c. conn_tenant c = Some tid) cs))"

text \<open>
  The counters of the broker agree with what runs, and what runs with what waits in
  \<^verbatim>\<open>sock_connect\<close> stays within the quotas plus one per \<^verbatim>\<open>s6na\<close> listener.
\<close>

definition counts_ok :: "config \<Rightarrow> int \<Rightarrow> (ustr \<Rightarrow> int) \<Rightarrow> conn multiset \<Rightarrow> (int \<times> ustr) list \<Rightarrow> bool" where
  "counts_ok cfg c a cs os \<longleftrightarrow>
     c = int (size cs) \<and> (\<forall>x \<in># cs. \<forall>tid. conn_tenant x = Some tid \<longrightarrow> map_of (tenants cfg) tid \<noteq> None)
     \<and> distinct os \<and> set os \<subseteq> set (s6na_listeners cfg)
     \<and> c + int (length os) \<le> 4096 + int (length (s6na_listeners cfg))
     \<and> (\<forall>tid t. map_of (tenants cfg) tid = Some t \<longrightarrow>
          a tid = users cs tid \<and> users cs tid + pending os tid \<le> max_connections t + pending (s6na_listeners cfg) tid)"

definition hub_ok :: "config \<Rightarrow> hub \<Rightarrow> bool" where
  "hub_ok cfg h \<longleftrightarrow>
     nonces_ok (hub_broker h) \<and> map fst (runtimes (hub_broker h)) = map fst (tenants cfg)
     \<and> counts_ok cfg (connections (hub_broker h)) (\<lambda>tid. active (runtime_of (hub_broker h) tid)) (conns h) (opens h)"

lemma users_add [simp]: "users (add_mset x cs) tid = users cs tid + (if conn_tenant x = Some tid then 1 else 0)"
  by (simp add: users_def)

lemma pending_simps [simp]:
  "pending (p # os) tid = pending os tid + (if snd p = tid then 1 else 0)"
  "pending (os @ os') tid = pending os tid + pending os' tid"
  by (simp_all add: pending_def)

lemma pending_mono:
  assumes "distinct os" "set os \<subseteq> set ls"
  shows "pending os tid \<le> pending ls tid" and "length os \<le> length ls"
proof -
  have le: "length xs \<le> length ys" if "distinct xs" "set xs \<subseteq> set ys" for xs ys :: "(int \<times> ustr) list"
    using that card_mono [of "set ys" "set xs"] distinct_card [of xs] card_length [of ys] by simp
  show "length os \<le> length ls" by (rule le [OF assms])
  show "pending os tid \<le> pending ls tid"
    using le [of "filter (\<lambda>p. snd p = tid) os" "filter (\<lambda>p. snd p = tid) ls"] assms by (auto simp: pending_def)
qed

lemma pending_nonneg [simp]: "0 \<le> pending os tid"
  by (simp add: pending_def)

text \<open>The changes of the counters one step can make.\<close>

lemma counts_begin:
  assumes "counts_ok cfg c a cs os" "c < 4096" "conn_tenant x = None"
  shows "counts_ok cfg (c + 1) a (add_mset x cs) os"
  using assms pending_mono(2) [of os "s6na_listeners cfg"] by (auto simp: counts_ok_def)

lemma counts_end:
  assumes "counts_ok cfg c a (add_mset x cs) os" "conn_tenant x = None"
  shows "counts_ok cfg (c - 1) a cs os"
  using assms by (auto simp: counts_ok_def)

lemma counts_enter:
  assumes "counts_ok cfg c a (add_mset x cs) os" "conn_tenant x = None" "conn_tenant y = Some tid"
    and "map_of (tenants cfg) tid = Some t" "a tid < max_connections t"
  shows "counts_ok cfg c (a(tid := a tid + 1)) (add_mset y cs) os"
  using assms pending_mono(1) [of os "s6na_listeners cfg" tid] by (auto simp: counts_ok_def)

lemma counts_leave:
  assumes "counts_ok cfg c a (add_mset x cs) os" "conn_tenant x = Some tid"
  shows "counts_ok cfg (c - 1) (a(tid := a tid - 1)) cs os"
  using assms by (auto simp: counts_ok_def) (drule spec, drule spec, drule (1) mp, simp split: if_splits)+

lemma counts_open:
  assumes ok: "counts_ok cfg c a cs os" and new: "(port, tid) \<notin> set os" "(port, tid) \<in> set (s6na_listeners cfg)"
    and lt: "c < 4096" "map_of (tenants cfg) tid = Some t" "a tid < max_connections t"
  shows "counts_ok cfg c a cs ((port, tid) # os)"
proof -
  have o: "distinct ((port, tid) # os)" "set ((port, tid) # os) \<subseteq> set (s6na_listeners cfg)"
    using ok new by (auto simp: counts_ok_def)
  show ?thesis
    using ok o lt pending_mono(1) [OF o, of tid] pending_mono(2) [OF o] by (auto simp: counts_ok_def)
qed

lemma counts_drop:
  assumes "counts_ok cfg c a cs (os1 @ (port, tid) # os2)"
  shows "counts_ok cfg c a cs (os1 @ os2)"
  using assms by (auto simp: counts_ok_def) (drule spec, drule spec, drule (1) mp, simp split: if_splits)+

lemma counts_start:
  assumes "counts_ok cfg c a cs (os1 @ (port, tid) # os2)" "map_of (tenants cfg) tid = Some t"
  shows "counts_ok cfg (c + 1) (a(tid := a tid + 1)) (add_mset (Session tid) cs) (os1 @ os2)"
  using assms by (auto simp: counts_ok_def) (drule spec, drule spec, drule (1) mp, simp split: if_splits)+

text \<open>What each operation does to the counters.\<close>

lemma runtime_of_set [simp]: "runtime_of (set_runtime tid r b) j = (if j = tid then r else runtime_of b j)"
  by (simp add: runtime_of_def set_runtime_def map_of_dset)

lemma set_runtime_simps [simp]:
  "connections (set_runtime tid r b) = connections b" "nonces_ok (set_runtime tid r b) = nonces_ok b"
  "tid \<in> fst ` set (runtimes b) \<Longrightarrow> map fst (runtimes (set_runtime tid r b)) = map fst (runtimes b)"
  by (simp_all add: set_runtime_def nonces_ok_def update_keys)

lemma end_connection_simps [simp]:
  "connections (end_connection b) = connections b - 1" "nonces_ok (end_connection b) = nonces_ok b"
  "runtimes (end_connection b) = runtimes b" "runtime_of (end_connection b) = runtime_of b"
  by (simp_all add: end_connection_def nonces_ok_def runtime_of_def fun_eq_iff)

lemma add_active_act:
  "(\<lambda>j. active (runtime_of (add_active tid n b) j)) = (\<lambda>j. active (runtime_of b j))(tid := active (runtime_of b tid) + n)"
  by (auto simp: add_active_def Let_def)

lemma add_active_simps [simp]:
  "connections (add_active tid n b) = connections b" "nonces_ok (add_active tid n b) = nonces_ok b"
  "tid \<in> fst ` set (runtimes b) \<Longrightarrow> map fst (runtimes (add_active tid n b)) = map fst (runtimes b)"
  by (simp_all add: add_active_def Let_def)

definition same_counts :: "broker \<Rightarrow> broker \<Rightarrow> bool" where
  "same_counts b b' \<longleftrightarrow> (nonces_ok b \<longrightarrow> nonces_ok b' \<and> runtimes b' = runtimes b \<and> connections b' = connections b)"

lemma same_counts_refl [simp]: "same_counts b b"
  by (simp add: same_counts_def)

lemma admit_counts: "admit env sg cfg now raw b = (r, b') \<Longrightarrow> same_counts b b'"
  using admit_state by (auto simp: same_counts_def)

lemma handshake_counts: "handshake env sg cfg now anonymous stream b = (r, b') \<Longrightarrow> same_counts b b'"
  by (auto simp: handshake_def split: option.splits sum.splits prod.splits dest: admit_counts)

lemma payload_counts: "datagram_payload env sg cfg now raw route anon b = (r, b') \<Longrightarrow> same_counts b b'"
  by (auto simp: datagram_payload_def Let_def split: if_splits sum.splits prod.splits dest: admit_counts)

lemma hub_same:
  "hub_ok cfg \<lparr>hub_broker = b, conns = cs, opens = os\<rparr> \<Longrightarrow> same_counts b b' \<Longrightarrow> hub_ok cfg \<lparr>hub_broker = b', conns = cs, opens = os\<rparr>"
  by (simp add: hub_ok_def same_counts_def runtime_of_def)

lemma config_tenant: "config_ok env cfg \<Longrightarrow> map_of (tenants cfg) tid = Some t \<Longrightarrow> tenant_id t = tid \<and> 1 \<le> max_connections t"
  by (auto simp: config_ok_def list_all_iff tenant_ok_def dest: map_of_SomeD)

lemma config_datagram:
  assumes "config_ok env cfg" "(port, tid, core, carrier, anon) \<in> set (datagram_listeners cfg)"
  shows "map_of (tenants cfg) tid \<noteq> None" and "carrier = asc ''s6na'' \<Longrightarrow> (port, tid) \<in> set (s6na_listeners cfg)"
proof -
  obtain ep where "((tid, core), ep) \<in> set (routes cfg)"
    using assms by (fastforce simp: config_ok_def listeners_ok_def list_all_iff)
  then have "tid \<in> set (map fst (tenants cfg))"
    using assms(1) by (fastforce simp: config_ok_def routes_ok_def list_all_iff)
  then show "map_of (tenants cfg) tid \<noteq> None" by (auto simp: map_of_eq_None_iff)
  show "carrier = asc ''s6na'' \<Longrightarrow> (port, tid) \<in> set (s6na_listeners cfg)"
    using assms(2) by (force simp: s6na_listeners_def)
qed

lemma handshake_tenant:
  assumes "config_ok env cfg" "handshake env sg cfg now anonymous stream b = (Inr (t, ep), b')"
  shows "map_of (tenants cfg) (tenant_id t) = Some t"
proof -
  have "\<exists>tid. map_of (tenants cfg) tid = Some t"
  proof (cases anonymous)
    case None
    then obtain raw vid where "admit env sg cfg now raw b = (Inr (t, vid, ep), b')"
      using assms(2) by (auto simp: handshake_def split: sum.splits prod.splits)
    then show ?thesis by (elim admit_Inr check_admission_Inr) blast
  next
    case (Some r)
    then show ?thesis using assms(2) by (auto simp: handshake_def split: option.splits)
  qed
  then show ?thesis using config_tenant [OF assms(1)] by auto
qed

lemma runtime_key:
  assumes "hub_ok cfg \<lparr>hub_broker = b, conns = cs, opens = os\<rparr>" "map_of (tenants cfg) tid \<noteq> None"
  shows "tid \<in> fst ` set (runtimes b)"
proof -
  have "tid \<in> set (map fst (tenants cfg))" using assms(2) by (auto simp: map_of_eq_None_iff)
  then show ?thesis using assms(1) by (simp add: hub_ok_def flip: set_map)
qed

lemma hub_begin:
  assumes "hub_ok cfg \<lparr>hub_broker = b, conns = cs, opens = os\<rparr>" "begin_connection b = Some b'" "conn_tenant x = None"
  shows "hub_ok cfg \<lparr>hub_broker = b', conns = add_mset x cs, opens = os\<rparr>"
  using assms counts_begin [of cfg "connections b" _ cs os x]
  by (auto simp: hub_ok_def begin_connection_def nonces_ok_def runtime_of_def split: if_splits)

lemma hub_end:
  assumes "hub_ok cfg \<lparr>hub_broker = b, conns = add_mset x cs, opens = os\<rparr>" "conn_tenant x = None"
  shows "hub_ok cfg \<lparr>hub_broker = end_connection b, conns = cs, opens = os\<rparr>"
  using assms counts_end [of cfg "connections b" _ x cs os] by (auto simp: hub_ok_def)

lemma hub_enter:
  assumes ok: "hub_ok cfg \<lparr>hub_broker = b, conns = add_mset x cs, opens = os\<rparr>" and x: "conn_tenant x = None" "conn_tenant y = Some (tenant_id t)"
    and t: "map_of (tenants cfg) (tenant_id t) = Some t" and e: "enter t b = Some b'"
  shows "hub_ok cfg \<lparr>hub_broker = b', conns = add_mset y cs, opens = os\<rparr>"
proof -
  have b': "b' = add_active (tenant_id t) 1 b" "active (runtime_of b (tenant_id t)) < max_connections t"
    using e by (auto simp: enter_def split: if_splits)
  have "counts_ok cfg (connections b) (\<lambda>tid. active (runtime_of b tid)) (add_mset x cs) os" using ok by (simp add: hub_ok_def)
  from counts_enter [OF this x t b'(2)] show ?thesis
    using ok runtime_key [OF ok, of "tenant_id t"] t by (simp add: hub_ok_def b'(1) add_active_act)
qed

lemma hub_leave:
  assumes ok: "hub_ok cfg \<lparr>hub_broker = b, conns = add_mset x cs, opens = os\<rparr>" and x: "conn_tenant x = Some tid"
  shows "hub_ok cfg \<lparr>hub_broker = end_connection (leave tid b), conns = cs, opens = os\<rparr>"
proof -
  have c: "counts_ok cfg (connections b) (\<lambda>tid. active (runtime_of b tid)) (add_mset x cs) os" using ok by (simp add: hub_ok_def)
  then have "map_of (tenants cfg) tid \<noteq> None" using x by (auto simp: counts_ok_def)
  with counts_leave [OF c x] show ?thesis
    using ok runtime_key [OF ok, of tid] by (simp add: hub_ok_def leave_def add_active_act)
qed

lemma hub_runtime:
  assumes ok: "hub_ok cfg \<lparr>hub_broker = b, conns = cs, opens = os\<rparr>" and c: "c \<in># cs" "conn_tenant c = Some tid"
    and r: "active r = active (runtime_of b tid)"
  shows "hub_ok cfg \<lparr>hub_broker = set_runtime tid r b, conns = cs, opens = os\<rparr>"
proof -
  have "map_of (tenants cfg) tid \<noteq> None" using ok c by (auto simp: hub_ok_def counts_ok_def)
  moreover have "(\<lambda>j. active (runtime_of (set_runtime tid r b) j)) = (\<lambda>j. active (runtime_of b j))" using r by auto
  ultimately show ?thesis using ok runtime_key [OF ok, of tid] by (simp add: hub_ok_def)
qed

lemma hub_session:
  assumes cfg: "config_ok env cfg" and ok: "hub_ok cfg \<lparr>hub_broker = b, conns = cs, opens = os1 @ (port, tid) # os2\<rparr>"
  shows "hub_ok cfg \<lparr>hub_broker = begin_session tid b, conns = add_mset (Session tid) cs, opens = os1 @ os2\<rparr>"
proof -
  have c: "counts_ok cfg (connections b) (\<lambda>tid. active (runtime_of b tid)) cs (os1 @ (port, tid) # os2)" using ok by (simp add: hub_ok_def)
  then have "(port, tid) \<in> set (s6na_listeners cfg)" by (simp add: counts_ok_def)
  then obtain core carrier anon where "(port, tid, core, carrier, anon) \<in> set (datagram_listeners cfg)" by (auto simp: s6na_listeners_def)
  then obtain t where t: "map_of (tenants cfg) tid = Some t" using config_datagram(1) [OF cfg] by blast
  have n: "nonces_ok (b\<lparr>connections := k\<rparr>) = nonces_ok b" "runtime_of (b\<lparr>connections := k\<rparr>) j = runtime_of b j" for b k j
    by (simp_all add: nonces_ok_def runtime_of_def)
  from counts_start [OF c t] show ?thesis
    using ok runtime_key [OF ok, of tid] t by (simp add: hub_ok_def begin_session_def Let_def n add_active_act)
qed

lemma hub_step_ok:
  assumes "hub_step env sg cfg h h'" and cfg: "config_ok env cfg" and "hub_ok cfg h"
  shows "hub_ok cfg h'"
  using assms(1,3)
proof (induction rule: hub_step.induct)
  case (stream_accept b b1 anonymous cs os)
  then show ?case by (intro hub_begin) auto
next
  case (stream_refuse now anonymous stream b e b1 cs os)
  then show ?case by (intro hub_end [of _ _ "Accepted anonymous"]) (auto intro: hub_same dest: handshake_counts)
next
  case (stream_quota now anonymous stream b t ep b1 cs os)
  then show ?case by (intro hub_end [of _ _ "Accepted anonymous"]) (auto intro: hub_same dest: handshake_counts)
next
  case (stream_relay now anonymous stream b t ep b1 b2 cs os)
  have "hub_ok cfg \<lparr>hub_broker = b1, conns = add_mset (Accepted anonymous) cs, opens = os\<rparr>"
    by (rule hub_same [OF stream_relay(3) handshake_counts [OF stream_relay(1)]])
  from hub_enter [OF this _ _ handshake_tenant [OF cfg stream_relay(1)] stream_relay(2)] show ?case by simp
next
  case (stream_close b tid cs os)
  then show ?case by (intro hub_leave) auto
next
  case (charge_bytes c cs tid t n time b res r os)
  then show ?case by (intro hub_runtime [of _ _ _ _ c]) (auto dest: charge_tokens(3))
next
  case (cancel_bytes c cs tid b os n)
  then show ?case by (intro hub_runtime [of _ _ _ _ c]) (auto simp: cancel_charge_def)
next
  case (gate_receive port tid core anon b b1 cs os raw)
  then show ?case by (intro hub_begin) auto
next
  case (gate_refuse now raw route anon b e b1 cs os)
  then show ?case by (intro hub_end [of _ _ "Datagram route anon raw"]) (auto intro: hub_same dest: payload_counts)
next
  case (gate_quota now raw route anon b payload b1 t cs os)
  then show ?case by (intro hub_end [of _ _ "Datagram route anon raw"]) (auto intro: hub_same dest: payload_counts)
next
  case (gate_exchange now raw route anon b payload b1 t b2 cs os)
  have "hub_ok cfg \<lparr>hub_broker = b1, conns = add_mset (Datagram route anon raw) cs, opens = os\<rparr>"
    by (rule hub_same [OF gate_exchange(4) payload_counts [OF gate_exchange(1)]])
  moreover have "map_of (tenants cfg) (tenant_id t) = Some t" using config_tenant [OF cfg gate_exchange(2)] gate_exchange(2) by simp
  ultimately show ?case using hub_enter gate_exchange(3) by fastforce
next
  case (gate_done b tid cs os)
  then show ?case by (intro hub_leave) auto
next
  case (session_refuse port tid core anon os now raw b e b1 cs)
  then show ?case using hub_same payload_counts by blast
next
  case (session_keep port tid core anon os now raw b payload b1 cs)
  then show ?case using hub_same payload_counts by blast
next
  case (session_open port tid core anon os now raw b payload b1 t cs)
  have h: "hub_ok cfg \<lparr>hub_broker = b1, conns = cs, opens = os\<rparr>"
    by (rule hub_same [OF session_open(7) payload_counts [OF session_open(3)]])
  then have "counts_ok cfg (connections b1) (\<lambda>tid. active (runtime_of b1 tid)) cs os" by (simp add: hub_ok_def)
  from counts_open [OF this session_open(2) config_datagram(2) [OF cfg session_open(1) refl] session_open(5,4,6)]
  show ?case using h by (simp add: hub_ok_def)
next
  case (session_failed b cs os1 port tid os2)
  then show ?case using counts_drop by (auto simp: hub_ok_def)
next
  case (session_start tid b b1 cs os1 port os2)
  then show ?case using hub_session [OF cfg] by blast
next
  case (session_done b tid cs os)
  then show ?case by (intro hub_leave) auto
qed

lemma hub_init_ok: "config_ok env cfg \<Longrightarrow> hub_ok cfg (hub_init now cfg)"
proof -
  assume cfg: "config_ok env cfg"
  have r: "active (runtime_of (broker_init now cfg) tid) = 0" for tid
    by (auto simp: runtime_of_def broker_init_def map_of_map case_prod_beta split: option.splits)
  have "1 \<le> max_connections t" if "map_of (tenants cfg) tid = Some t" for tid t using config_tenant [OF cfg that] by simp
  then have "0 \<le> max_connections t + pending (s6na_listeners cfg) tid" if "map_of (tenants cfg) tid = Some t" for tid t
    using that pending_nonneg [of "s6na_listeners cfg" tid] by fastforce
  then show ?thesis
    using r by (simp add: hub_ok_def counts_ok_def hub_init_def users_def pending_def)
       (simp add: broker_init_def nonces_ok_def case_prod_beta comp_def)
qed

lemma hub_reachable_ok: "reachable env sg cfg h \<Longrightarrow> config_ok env cfg \<Longrightarrow> hub_ok cfg h"
  by (induction rule: reachable.induct) (auto intro: hub_init_ok hub_step_ok)

lemma admit_kept:
  assumes "admit env sg cfg now raw b = (r, b')" "nonces_ok b" "map_of (nonces b) k = Some x" "now \<le> x"
  shows "map_of (nonces b') k = Some x"
proof (cases "check_admission env sg cfg now raw")
  case (Inl e)
  then show ?thesis using assms by (simp add: admit_def)
next
  case (Inr a)
  let ?key = "(tenant_id (adm_tenant a), adm_nonce a)"
  obtain cr b1 where c: "claim_nonce ?key (adm_expires a) now b = (cr, b1)" by fastforce
  then have "b1 = b'" using assms(1) Inr by (auto simp: admit_def split: sum.splits)
  moreover have "k \<noteq> ?key \<or> cr \<noteq> Inr ()" using claim_nonce_cases(4) [OF c assms(2)] assms(3,4) by fastforce
  ultimately show ?thesis using claim_nonce_cases(5) [OF c assms(2-4)] by simp
qed

section \<open>A run of admissions\<close>

fun admit_run :: "penv \<Rightarrow> signer \<Rightarrow> config \<Rightarrow> (int \<times> bytes) list \<Rightarrow> broker \<Rightarrow> broker" where
  "admit_run env sg cfg [] b = b"
| "admit_run env sg cfg ((now, raw) # rs) b = admit_run env sg cfg rs (snd (admit env sg cfg now raw b))"

text \<open>The claims of nonces a run makes.\<close>

fun claims :: "penv \<Rightarrow> signer \<Rightarrow> config \<Rightarrow> (int \<times> bytes) list \<Rightarrow> nonce_key request list" where
  "claims env sg cfg [] = []"
| "claims env sg cfg ((now, raw) # rs) =
     (case check_admission env sg cfg now raw of
        Inl _ \<Rightarrow> claims env sg cfg rs
      | Inr a \<Rightarrow> ((tenant_id (adm_tenant a), adm_nonce a), adm_expires a, now) # claims env sg cfg rs)"

lemma admit_run_guard: "admit_run env sg cfg rs b = snd (guard_run nonce_accept (claims env sg cfg rs) b)"
proof (induction rs arbitrary: b)
  case (Cons r rs)
  obtain now raw where r: "r = (now, raw)" by (cases r)
  show ?case
  proof (cases "check_admission env sg cfg now raw")
    case (Inl e)
    then show ?thesis using Cons r by (simp add: admit_def)
  next
    case (Inr a)
    obtain cr b1 where c: "claim_nonce (tenant_id (adm_tenant a), adm_nonce a) (adm_expires a) now b = (cr, b1)" by fastforce
    then have "snd (admit env sg cfg now raw b) = b1" using Inr by (auto simp: admit_def split: sum.split)
    then show ?thesis using Cons r Inr c by (simp add: nonce_accept_def split: prod.split)
  qed
qed simp

lemma claims_time: "(k, e, now) \<in> set (claims env sg cfg rs) \<Longrightarrow> now \<in> fst ` set rs"
  by (induction rs) (auto split: sum.splits)

text \<open>The clock aside, the checks of a request depend on its document only.\<close>

lemma check_admission_same:
  assumes "check_admission env sg cfg now raw = Inr a" "check_admission env sg cfg now' raw' = Inr a'"
    and "portable_json (env_nfc env) 262144 (BytesIn raw') = portable_json (env_nfc env) 262144 (BytesIn raw)"
  shows "adm_tenant a' = adm_tenant a" "adm_nonce a' = adm_nonce a" "adm_expires a' = adm_expires a" "now' \<le> adm_expires a"
proof -
  obtain d where d: "portable_json (env_nfc env) 262144 (BytesIn raw) = Inr (JObj d)"
    "map_of (tenants cfg) (the_str (fld d ''tenant'')) = Some (adm_tenant a)" "fld d ''expires'' = JInt (adm_expires a)"
    "b64decode (the_str (fld d ''nonce'')) = Inr (adm_nonce a)"
    by (rule check_admission_Inr [OF assms(1)]) blast
  obtain d' where d': "portable_json (env_nfc env) 262144 (BytesIn raw') = Inr (JObj d')"
    "map_of (tenants cfg) (the_str (fld d' ''tenant'')) = Some (adm_tenant a')" "fld d' ''expires'' = JInt (adm_expires a')"
    "b64decode (the_str (fld d' ''nonce'')) = Inr (adm_nonce a')" "now' \<le> adm_expires a'"
    by (rule check_admission_Inr [OF assms(2)]) blast
  have "d' = d" using assms(3) d(1) d'(1) by simp
  then show "adm_tenant a' = adm_tenant a" "adm_nonce a' = adm_nonce a" "adm_expires a' = adm_expires a" "now' \<le> adm_expires a"
    using d d' by simp_all
qed

lemma admitted_only_once:
  assumes b: "nonces_ok b" and first: "admit env sg cfg now raw b = (Inr x, b1)"
    and later: "\<forall>(t, r) \<in> set rs. t \<le> now'"
    and same: "portable_json (env_nfc env) 262144 (BytesIn raw') = portable_json (env_nfc env) 262144 (BytesIn raw)"
  shows "fst (admit env sg cfg now' raw' (admit_run env sg cfg rs b1)) \<noteq> Inr y"
proof
  assume "fst (admit env sg cfg now' raw' (admit_run env sg cfg rs b1)) = Inr y"
  then obtain b3 where acc: "admit env sg cfg now' raw' (admit_run env sg cfg rs b1) = (Inr y, b3)" by (metis prod.collapse)
  obtain t vid ep where x: "x = (t, vid, ep)" by (cases x)
  obtain t' vid' ep' where y: "y = (t', vid', ep')" by (cases y)
  obtain a where a: "check_admission env sg cfg now raw = Inr a" "t = adm_tenant a"
    "claim_nonce (tenant_id t, adm_nonce a) (adm_expires a) now b = (Inr (), b1)"
    using first x by (auto elim: admit_Inr)
  obtain a' where a': "check_admission env sg cfg now' raw' = Inr a'" "t' = adm_tenant a'"
    "claim_nonce (tenant_id t', adm_nonce a') (adm_expires a') now' (admit_run env sg cfg rs b1) = (Inr (), b3)"
    using acc y by (auto elim: admit_Inr)
  note eq = check_admission_same [OF a(1) a'(1) same]
  have b1: "nonces_ok b1" "map_of (nonces b1) (tenant_id t, adm_nonce a) = Some (adm_expires a)"
    using claim_nonce_cases(1,4) [OF a(3) b] by blast+
  obtain bs where g: "guard_run nonce_accept (claims env sg cfg rs) b1 = (bs, admit_run env sg cfg rs b1)"
    by (cases "guard_run nonce_accept (claims env sg cfg rs) b1") (simp add: admit_run_guard)
  have "\<forall>(j, e, n) \<in> set (claims env sg cfg rs). n \<le> adm_expires a"
    using claims_time later eq(4) by fastforce
  with nonce_table.run_kept [OF g b1] have "map_of (nonces (admit_run env sg cfg rs b1)) (tenant_id t, adm_nonce a) = Some (adm_expires a)"
    by blast
  then have "adm_expires a < now'"
    using claim_nonce_cases(4) [OF a'(3) nonce_table.run_invar [OF g b1(1)] refl] eq a(2) a'(2) by simp
  with eq(4) show False by simp
qed

section \<open>Properties\<close>

text \<open>C29. A configuration that \<^verbatim>\<open>load_config\<close> accepts is well formed: the broker and every core and route
  are loopback addresses with valid ports, tenants and their limits are within the documented
  bounds, routes lead from a known tenant to a known core and no two share an endpoint, and no
  two listeners share a port.\<close>

theorem loaded_config_well_formed:
  "case load_config env euid file key_file of Inl _ \<Rightarrow> True | Inr cfg \<Rightarrow> config_ok env cfg"
  by (cases "load_config env euid file key_file") (auto dest: load_config_ok)


definition sample_tenant :: tenant where
  "sample_tenant = \<lparr>tenant_id = asc ''lab'', public_keys = [replicate 32 0], approval = asc ''default-approved'',
     max_connections = 2, bytes_per_second = 1024, burst_bytes = 4096\<rparr>"

definition sample_host :: pyval where
  "sample_host = jstr ''127.0.0.1''"

definition sample_config :: config where
  "sample_config =
     \<lparr>listen_host = sample_host, listen_port = 1086, identity_key = replicate 32 1,
      cfg_cores = [(asc ''go'', sample_host, 9001)], tenants = [(asc ''lab'', sample_tenant)],
      routes = [((asc ''lab'', asc ''go''), sample_host, 9002)], guard_required = True, gate_required = True,
      relay_socket = asc ''/run/relay'', approvals = [], max_frame = 65536, handshake_seconds = 5, idle_seconds = 60,
      anonymous_listeners = [(1090, asc ''lab'', asc ''go'')], datagram_listeners = []\<rparr>"

definition sample_env :: penv where
  "sample_env = \<lparr>env_nfc = (\<lambda>s. s), env_loopback = (\<lambda>v. Some (v = sample_host)), env_alnum = is_word\<rparr>"

lemma sample_config_ok: "config_ok sample_env sample_config"
  by (simp add: config_ok_def sample_config_def sample_env_def endpoint_ok_def CORES_def tenant_ok_def sample_tenant_def
      tenant_id_ok_def routes_ok_def listeners_ok_def is_word_def is_lower_def asc_def)

lemma sample_tenants: "map_of (tenants sample_config) (asc ''lab'') = Some sample_tenant"
  by (simp add: sample_config_def)

lemma sample_tenant_id: "tenant_id sample_tenant = asc ''lab''"
  by (simp add: sample_tenant_def)

text \<open>A connection of the anonymous listener that is relayed.\<close>

definition sample_hub :: hub where
  "sample_hub =
     \<lparr>hub_broker = add_active (asc ''lab'') 1 ((broker_init 0 sample_config)\<lparr>connections := 1\<rparr>),
      conns = {#Relaying (asc ''lab'')#}, opens = []\<rparr>"

lemma sample_hub_reachable: "reachable sample_env toy_signer sample_config sample_hub"
proof -
  let ?b = "(broker_init 0 sample_config)\<lparr>connections := 1\<rparr>"
  let ?r = "(asc ''lab'', asc ''go'')"
  have "hub_step sample_env toy_signer sample_config (hub_init 0 sample_config) \<lparr>hub_broker = ?b, conns = {#Accepted (Some ?r)#}, opens = []\<rparr>"
    unfolding hub_init_def by (rule stream_accept) (simp_all add: begin_connection_def broker_init_def sample_config_def)
  moreover have "hub_step sample_env toy_signer sample_config \<lparr>hub_broker = ?b, conns = {#Accepted (Some ?r)#}, opens = []\<rparr> sample_hub"
    unfolding sample_hub_def
  proof (rule stream_relay [where anonymous = "Some ?r" and stream = "[]" and t = sample_tenant and ep = "(sample_host, 9002)"
        and ?b1.0 = ?b and cs = "{#}" and now = 0, unfolded sample_tenant_id])
    show "handshake sample_env toy_signer sample_config 0 (Some ?r) [] ?b = (Inr (sample_tenant, sample_host, 9002), ?b)"
      by (simp add: handshake_def sample_config_def)
    show "enter sample_tenant ?b = Some (add_active (asc ''lab'') 1 ?b)"
      by (simp add: enter_def sample_tenant_def runtime_of_def broker_init_def sample_config_def)
  qed
  ultimately show ?thesis by (blast intro: reachable.intros)
qed




text \<open>
  Endpoints are compared as they are written: two routes that name one real broker by two
  spellings of its address are both accepted.
\<close>

lemma routes_spelled_apart:
  fixes env :: penv
  assumes "env_loopback env (jstr ''::1'') = Some True" "env_loopback env (jstr ''0:0:0:0:0:0:0:1'') = Some True"
  shows "\<exists>rs. efold (load_route env [asc ''a'', asc ''b''] [asc ''go''])
     [jobj [(''tenant'', jstr ''a''), (''core'', jstr ''go''), (''host'', jstr ''::1''), (''port'', JInt 9000)],
      jobj [(''tenant'', jstr ''b''), (''core'', jstr ''go''), (''host'', jstr ''0:0:0:0:0:0:0:1''), (''port'', JInt 9000)]] [] = Inr rs"
  by (simp add: load_route_def keys_are_def keys_jobj names_def fld_jobj in_keys_def loopback_endpoint_def assms Let_def)

end
