(* ===== verification/S6_Peer.thy ===== *)
theory S6_Peer
  imports S6_Broker
begin

text \<open>
  \<^verbatim>\<open>Public6/virtual_peer.py\<close>: the configuration of a virtual peer, the signed admission it
  sends and the frames around it, and what the broker of \<^verbatim>\<open>virtual_broker.py\<close> does with them.
  The 32 bytes of \<^verbatim>\<open>os.urandom\<close> and the clock are arguments.
\<close>

section \<open>Configuration\<close>

definition PEER_SCHEMA :: ustr where
  "PEER_SCHEMA = asc ''shadow6.virtual-peer.v1''"

definition ADMISSION_SCHEMA :: ustr where
  "ADMISSION_SCHEMA = asc ''shadow6.virtual-broker-admission.v1''"

definition peer_endpoint :: "penv \<Rightarrow> pyval \<Rightarrow> (ustr \<times> int) res" where
  "peer_endpoint env v =
     (let d = the_obj v; failure = ValueError ''Virtual Peer endpoints must use loopback IP addresses'' in
      ebind (raise_if (\<not> is_obj v \<or> \<not> keys_are [''host'', ''port''] d) (ValueError ''endpoint requires host and port'')) (\<lambda>_.
      ebind (raise_if (\<not> is_str (fld d ''host'')) failure) (\<lambda>_.
      ebind (case env_loopback env (fld d ''host'') of
               None \<Rightarrow> Inl (ValueError ''does not appear to be an IPv4 or IPv6 address'')
             | Some b \<Rightarrow> raise_if (\<not> b) failure) (\<lambda>_.
      ebind (raise_if (\<not> int_in 1 65535 (fld d ''port'')) (ValueError ''invalid endpoint port'')) (\<lambda>_.
        Inr (the_str (fld d ''host''), the_int (fld d ''port'')))))))"

definition peer_fields :: "string list" where
  "peer_fields = [''schema'', ''role'', ''core'', ''tenant'', ''identity'', ''private_key_file'',
     ''transport'', ''listen'', ''gate'', ''max_connections'', ''idle_seconds'']"

text \<open>\<^verbatim>\<open>c.isascii() and (c.isalnum() or c in "._-")\<close>\<close>

definition name_char :: "nat \<Rightarrow> bool" where
  "name_char c \<longleftrightarrow> is_word c \<or> one_of ''._-'' c"

record peer =
  p_role :: ustr
  p_core :: ustr
  p_tenant :: ustr
  p_identity :: ustr
  p_transport :: ustr
  p_max_connections :: int
  p_idle_seconds :: int
  p_listen :: "ustr \<times> int"
  p_gate :: "ustr \<times> int"
  p_key :: bytes
  p_active :: int

text \<open>The document, without the key file: the configuration and the path of the key.\<close>

definition check_peer :: "penv \<Rightarrow> pyval \<Rightarrow> (peer \<times> ustr) res" where
  "check_peer env v =
     (let d = the_obj v; s = (\<lambda>n. the_str (fld d n)) in
      ebind (raise_if (\<not> is_obj v \<or> \<not> keys_are peer_fields d \<or> fld d ''schema'' \<noteq> JStr PEER_SCHEMA)
              (ValueError ''unknown Virtual Peer schema or field'')) (\<lambda>_.
      ebind (raise_if (\<not> is_str (fld d ''role'') \<or> s ''role'' \<notin> {asc ''client'', asc ''agent''}
                       \<or> \<not> is_str (fld d ''core'') \<or> s ''core'' \<notin> set CORES)
              (ValueError ''invalid Virtual Peer role or Core family'')) (\<lambda>_.
      ebind (each (\<lambda>(field, limit).
               raise_if (\<not> str_len 1 limit (fld d field) \<or> \<not> list_all name_char (s field)) (ValueError (''invalid '' @ field)))
               [(''tenant'', 64), (''identity'', 128)]) (\<lambda>_.
      ebind (raise_if (\<not> is_str (fld d ''transport'') \<or> s ''transport'' \<notin> {asc ''tcp'', asc ''udp''})
              (ValueError ''invalid Virtual Peer transport'')) (\<lambda>_.
      ebind (raise_if (\<not> int_in 1 1024 (fld d ''max_connections'')) (ValueError ''invalid connection limit'')) (\<lambda>_.
      ebind (raise_if (\<not> int_in 5 3600 (fld d ''idle_seconds'')) (ValueError ''invalid idle deadline'')) (\<lambda>_.
      ebind (peer_endpoint env (fld d ''listen'')) (\<lambda>listen.
      ebind (peer_endpoint env (fld d ''gate'')) (\<lambda>gate.
      ebind (raise_if (listen = gate) (ValueError ''listen and Gate endpoints must differ'')) (\<lambda>_.
      ebind (raise_if (\<not> is_str (fld d ''private_key_file'') \<or> \<not> startswith ''/'' (s ''private_key_file''))
              (ValueError ''private key path must be absolute'')) (\<lambda>_.
        Inr (\<lparr>p_role = s ''role'', p_core = s ''core'', p_tenant = s ''tenant'', p_identity = s ''identity'',
              p_transport = s ''transport'', p_max_connections = the_int (fld d ''max_connections''),
              p_idle_seconds = the_int (fld d ''idle_seconds''), p_listen = listen, p_gate = gate, p_key = [], p_active = 0\<rparr>,
             s ''private_key_file''))))))))))))"

definition load_peer :: "penv \<Rightarrow> nat \<Rightarrow> fview \<Rightarrow> (ustr \<Rightarrow> fview) \<Rightarrow> peer res" where
  "load_peer env euid file key_file =
     ebind (bounded_file euid 16384 False file) (\<lambda>raw.
     ebind (utf8_decode raw) (\<lambda>t.
     ebind (portable_json (env_nfc env) 262144 (TextIn t)) (\<lambda>v.
     ebind (check_peer env v) (\<lambda>(p, path).
     ebind (bounded_file euid 32 True (key_file path)) (\<lambda>seed.
     ebind (raise_if (length seed \<noteq> 32) (ValueError ''Ed25519 seed must be exactly 32 bytes'')) (\<lambda>_.
       Inr (p\<lparr>p_key := seed\<rparr>)))))))"

text \<open>\<^verbatim>\<open>write_config\<close>: the document it writes beside the seed; \<open>exists\<close> tells whether one of the two outputs is there already.\<close>

definition peer_document ::
  "ustr \<Rightarrow> ustr \<Rightarrow> ustr \<Rightarrow> ustr \<times> int \<Rightarrow> ustr \<times> int \<Rightarrow> ustr \<Rightarrow> ustr \<Rightarrow> ustr \<Rightarrow> int \<Rightarrow> int \<Rightarrow> pyval" where
  "peer_document role core key_path listen gate tenant identity transport maximum idle =
     jobj [(''schema'', JStr PEER_SCHEMA), (''role'', JStr role), (''core'', JStr core), (''tenant'', JStr tenant),
           (''identity'', JStr identity), (''private_key_file'', JStr key_path), (''transport'', JStr transport),
           (''listen'', jobj [(''host'', JStr (fst listen)), (''port'', JInt (snd listen))]),
           (''gate'', jobj [(''host'', JStr (fst gate)), (''port'', JInt (snd gate))]),
           (''max_connections'', JInt maximum), (''idle_seconds'', JInt idle)]"

definition write_config ::
  "ustr \<Rightarrow> ustr \<Rightarrow> bool \<Rightarrow> ustr \<Rightarrow> ustr \<times> int \<Rightarrow> ustr \<times> int \<Rightarrow> ustr \<Rightarrow> ustr \<Rightarrow> ustr \<Rightarrow> int \<Rightarrow> int \<Rightarrow> bytes \<Rightarrow> (pyval \<times> bytes) res" where
  "write_config role core exists key_path listen gate tenant identity transport maximum idle seed =
     ebind (raise_if (role \<notin> {asc ''client'', asc ''agent''} \<or> core \<notin> set CORES) (ValueError ''invalid Virtual Peer role or Core family'')) (\<lambda>_.
     ebind (raise_if exists (ValueError ''output already exists; refusing to overwrite credentials or config'')) (\<lambda>_.
       Inr (peer_document role core key_path listen gate tenant identity transport maximum idle, seed)))"

section \<open>The peer\<close>

definition peer_public :: "signer \<Rightarrow> peer \<Rightarrow> ustr" where
  "peer_public sg p = b64encode (sig_public sg (p_key p))"

definition admission_body :: "signer \<Rightarrow> int \<Rightarrow> bytes \<Rightarrow> peer \<Rightarrow> (string \<times> pyval) list" where
  "admission_body sg now nonce p =
     [(''schema'', JStr ADMISSION_SCHEMA), (''tenant'', JStr (p_tenant p)), (''client'', JStr (p_identity p)),
      (''core'', JStr (p_core p)), (''issued'', JInt now), (''expires'', JInt (now + 60)),
      (''nonce'', JStr (b64encode nonce)), (''public_key'', JStr (peer_public sg p))]"

definition peer_admission :: "signer \<Rightarrow> int \<Rightarrow> bytes \<Rightarrow> peer \<Rightarrow> bytes res" where
  "peer_admission sg now nonce p =
     (let request = admission_body sg now nonce p in
      ebind (broker_canonical (jobj request)) (\<lambda>m.
        broker_canonical (jobj (request @ [(''signature'', JStr (b64encode (sig_sign sg (p_key p) m)))]))))"

text \<open>The connections: the counter, the first bytes of a stream and the datagram sent to the gate.\<close>

definition peer_accept :: "peer \<Rightarrow> peer option" where
  "peer_accept p = (if p_max_connections p \<le> p_active p then None else Some (p\<lparr>p_active := p_active p + 1\<rparr>))"

definition peer_close :: "peer \<Rightarrow> peer" where
  "peer_close p = p\<lparr>p_active := p_active p - 1\<rparr>"

definition stream_head :: "signer \<Rightarrow> int \<Rightarrow> bytes \<Rightarrow> peer \<Rightarrow> bytes res" where
  "stream_head sg now nonce p = ebind (peer_admission sg now nonce p) (\<lambda>a. Inr (be_encode 4 (length a) @ a))"

definition udp_accept :: "bytes \<Rightarrow> peer \<Rightarrow> peer option" where
  "udp_accept payload p = (if payload = [] \<or> 65507 < length payload then None else peer_accept p)"

definition udp_frame :: "signer \<Rightarrow> int \<Rightarrow> bytes \<Rightarrow> bytes \<Rightarrow> peer \<Rightarrow> bytes option res" where
  "udp_frame sg now nonce payload p =
     ebind (peer_admission sg now nonce p) (\<lambda>a.
     ebind (raise_if (65536 \<le> length a) StructError) (\<lambda>_.
     let frame = be_encode 2 (length a) @ a @ payload in
       Inr (if 65507 < length frame then None else Some frame)))"

section \<open>A loaded peer\<close>

definition peer_ok :: "penv \<Rightarrow> peer \<Rightarrow> bool" where
  "peer_ok env p \<longleftrightarrow>
     p_role p \<in> {asc ''client'', asc ''agent''} \<and> p_core p \<in> set CORES
     \<and> 1 \<le> length (p_tenant p) \<and> length (p_tenant p) \<le> 64 \<and> list_all name_char (p_tenant p)
     \<and> 1 \<le> length (p_identity p) \<and> length (p_identity p) \<le> 128 \<and> list_all name_char (p_identity p)
     \<and> p_transport p \<in> {asc ''tcp'', asc ''udp''}
     \<and> 1 \<le> p_max_connections p \<and> p_max_connections p \<le> 1024 \<and> 5 \<le> p_idle_seconds p \<and> p_idle_seconds p \<le> 3600
     \<and> endpoint_ok env (JStr (fst (p_listen p)), snd (p_listen p)) \<and> endpoint_ok env (JStr (fst (p_gate p)), snd (p_gate p))
     \<and> p_listen p \<noteq> p_gate p"

lemma peer_endpoint_Inr:
  "peer_endpoint env v = Inr (h, p) \<Longrightarrow> endpoint_ok env (JStr h, p)"
proof -
  assume "peer_endpoint env v = Inr (h, p)"
  then have "is_str (fld (the_obj v) ''host'')" "env_loopback env (fld (the_obj v) ''host'') = Some True"
    "int_in 1 65535 (fld (the_obj v) ''port'')" "h = the_str (fld (the_obj v) ''host'')" "p = the_int (fld (the_obj v) ''port'')"
    by (auto simp: peer_endpoint_def Let_def split: option.splits)
  then show ?thesis using is_kindE(3) [of "fld (the_obj v) ''host''"] by (auto simp: endpoint_ok_def int_in_iff)
qed

lemma check_peer_ok:
  assumes "check_peer env v = Inr (p, path)"
  shows "peer_ok env p"
proof -
  let ?s = "\<lambda>n. the_str (fld (the_obj v) n)" and ?f = "fld (the_obj v)"
  from assms obtain listen gate where r: "?s ''role'' \<in> {asc ''client'', asc ''agent''}" "?s ''core'' \<in> set CORES"
    and n: "str_len 1 64 (?f ''tenant'')" "list_all name_char (?s ''tenant'')" "str_len 1 128 (?f ''identity'')" "list_all name_char (?s ''identity'')"
    and t: "?s ''transport'' \<in> {asc ''tcp'', asc ''udp''}" "int_in 1 1024 (?f ''max_connections'')" "int_in 5 3600 (?f ''idle_seconds'')"
    and e: "peer_endpoint env (?f ''listen'') = Inr listen" "peer_endpoint env (?f ''gate'') = Inr gate" "listen \<noteq> gate"
    and p: "p = \<lparr>p_role = ?s ''role'', p_core = ?s ''core'', p_tenant = ?s ''tenant'', p_identity = ?s ''identity'',
              p_transport = ?s ''transport'', p_max_connections = the_int (?f ''max_connections''),
              p_idle_seconds = the_int (?f ''idle_seconds''), p_listen = listen, p_gate = gate, p_key = [], p_active = 0\<rparr>"
    unfolding check_peer_def Let_def ebind_Inr raise_if_Inr each_Inr by auto
  have "endpoint_ok env (JStr (fst listen), snd listen)" "endpoint_ok env (JStr (fst gate), snd gate)"
    using e(1,2) peer_endpoint_Inr by (metis prod.collapse)+
  then show ?thesis using r n t e(3) by (auto simp: peer_ok_def p str_len_iff int_in_iff)
qed

lemma load_peer_ok: "load_peer env euid file key_file = Inr p \<Longrightarrow> peer_ok env p \<and> length (p_key p) = 32 \<and> p_active p = 0"
proof -
  assume "load_peer env euid file key_file = Inr p"
  then obtain v q path seed where q: "check_peer env v = Inr (q, path)" "length seed = 32" "p = q\<lparr>p_key := seed\<rparr>"
    by (auto simp: load_peer_def split: prod.splits)
  moreover have "p_active q = 0" using q(1) by (auto simp: check_peer_def Let_def)
  ultimately show ?thesis using check_peer_ok [OF q(1)] by (simp add: peer_ok_def)
qed

text \<open>What \<^verbatim>\<open>write_config\<close> writes for valid arguments is what \<^verbatim>\<open>load_config\<close> accepts.\<close>

lemma written_config_accepted:
  assumes "write_config role core exists key_path listen gate tenant identity transport maximum idle seed = Inr (doc, seed)"
    and "endpoint_ok env (JStr (fst listen), snd listen)" "endpoint_ok env (JStr (fst gate), snd gate)" "listen \<noteq> gate"
    and "1 \<le> length tenant" "length tenant \<le> 64" "list_all name_char tenant"
    and "1 \<le> length identity" "length identity \<le> 128" "list_all name_char identity"
    and "transport \<in> {asc ''tcp'', asc ''udp''}" "1 \<le> maximum" "maximum \<le> 1024" "5 \<le> idle" "idle \<le> 3600" "startswith ''/'' key_path"
  shows "\<exists>p. check_peer env doc = Inr (p, key_path) \<and> peer_ok env p"
proof -
  have ep: "peer_endpoint env (jobj [(''host'', JStr (fst e)), (''port'', JInt (snd e))]) = Inr e"
    if "endpoint_ok env (JStr (fst e), snd e)" for e
    using that by (simp add: peer_endpoint_def Let_def fld_jobj keys_are_def keys_jobj names_def endpoint_ok_def)
  have "doc = peer_document role core key_path listen gate tenant identity transport maximum idle"
    and "role \<in> {asc ''client'', asc ''agent''}" "core \<in> set CORES"
    using assms(1) by (auto simp: write_config_def)
  then have "\<exists>p. check_peer env doc = Inr (p, key_path)"
    using assms(2-) ep [OF assms(2)] ep [OF assms(3)]
    by (simp add: check_peer_def Let_def peer_document_def fld_jobj keys_are_def keys_jobj names_def peer_fields_def)
  then show ?thesis using check_peer_ok by blast
qed

section \<open>The admission a peer sends\<close>

definition signed_admission :: "signer \<Rightarrow> int \<Rightarrow> bytes \<Rightarrow> peer \<Rightarrow> (string \<times> pyval) list" where
  "signed_admission sg now nonce p =
     admission_body sg now nonce p @
     [(''signature'', JStr (b64encode (sig_sign sg (p_key p) (map bt (json_text (jobj (admission_body sg now nonce p)))))))]"

lemma name_plain: "list_all name_char s \<Longrightarrow> list_all plain_char s"
  by (auto simp: list_all_iff name_char_def is_word_def is_lower_def is_upper_def is_digit_def one_of_def asc_def plain_char_def)

lemma core_plain: "c \<in> set CORES \<Longrightarrow> list_all plain_char c \<and> length c \<le> 5"
  by (auto simp: CORES_def asc_def plain_char_def)

lemma b64_lengths: "length n = 32 \<Longrightarrow> length (b64encode n) = 44" "length m = 64 \<Longrightarrow> length (b64encode m) = 88"
  by (simp_all add: length_b64encode)

lemma admission_plain:
  assumes p: "peer_ok env p" and sg: "signer_ok sg" and n: "length nonce = 32" and t: "0 \<le> now" "now + 60 \<le> 9007199254740991"
  shows "plain_doc 16 (jobj (admission_body sg now nonce p))" "plain_doc 16 (jobj (signed_admission sg now nonce p))"
    and "length (json_text (jobj (signed_admission sg now nonce p))) \<le> 1000"
proof -
  have s: "list_all plain_char (p_tenant p)" "length (p_tenant p) \<le> 64" "list_all plain_char (p_identity p)" "length (p_identity p) \<le> 128"
    "list_all plain_char (p_core p)" "length (p_core p) \<le> 5"
    using p name_plain core_plain by (auto simp: peer_ok_def)
  have l: "length (b64encode nonce) = 44" "length (peer_public sg p) = 44" "length (b64encode (sig_sign sg (p_key p) m)) = 88"
    "list_all plain_char (peer_public sg p)" "list_all plain_char (b64encode bs)" "list_all plain_char ADMISSION_SCHEMA" "length ADMISSION_SCHEMA = 35" for m bs
    using n sg by (simp_all add: length_b64encode peer_public_def signer_ok_def plain_b64 ADMISSION_SCHEMA_def plain_asc plain_char_def)
  show "plain_doc 16 (jobj (admission_body sg now nonce p))" "plain_doc 16 (jobj (signed_admission sg now nonce p))"
    using s l t by (simp_all add: plain_doc_literal admission_body_def signed_admission_def plain_char_def)
  have "length (show_int now) \<le> 17" "length (show_int (now + 60)) \<le> 17" using t by (auto intro!: length_show_int)
  moreover have "length (json_text (JStr s)) = length s + 2" if "list_all plain_char s" for s using plain_text(1) [OF that] by simp
  ultimately show "length (json_text (jobj (signed_admission sg now nonce p))) \<le> 1000"
    using s l by (subst length_json_literal) (simp_all add: admission_body_def signed_admission_def plain_char_def)
qed

lemma peer_admission_bytes:
  assumes "peer_ok env p" "signer_ok sg" "length nonce = 32" "0 \<le> now" "now + 60 \<le> 9007199254740991"
  shows "peer_admission sg now nonce p = Inr (map bt (json_text (jobj (signed_admission sg now nonce p))))"
proof -
  have "json_bytes (jobj (admission_body sg now nonce p)) = Inr (map bt (json_text (jobj (admission_body sg now nonce p))))"
    "json_bytes (jobj (signed_admission sg now nonce p)) = Inr (map bt (json_text (jobj (signed_admission sg now nonce p))))"
    by (rule plain_doc_read(2) [OF admission_plain(1) [OF assms] nfc_ok_id order_refl], simp add: jobj_def admission_body_def,
        rule plain_doc_read(2) [OF admission_plain(2) [OF assms] nfc_ok_id order_refl], simp add: jobj_def signed_admission_def)
  then show ?thesis by (simp add: peer_admission_def Let_def broker_canonical_def signed_admission_def)
qed

section \<open>The broker admits it\<close>

text \<open>What the operator has set up for the peer.\<close>

definition enrolled :: "config \<Rightarrow> signer \<Rightarrow> peer \<Rightarrow> tenant \<Rightarrow> endpoint \<Rightarrow> bool" where
  "enrolled cfg sg p t ep \<longleftrightarrow>
     map_of (tenants cfg) (p_tenant p) = Some t \<and> tenant_id t = p_tenant p
     \<and> map_of (routes cfg) (p_tenant p, p_core p) = Some ep \<and> sig_public sg (p_key p) \<in> set (public_keys t)
     \<and> (approval t = asc ''approval-required'' \<longrightarrow> (p_tenant p, p_identity p) \<in> set (approvals cfg))"

lemma own_admission_checked:
  assumes p: "peer_ok env p" and sg: "signer_ok sg" and nfc: "nfc_ok (env_nfc env)" and n: "length nonce = 32"
    and t: "0 \<le> issued" "issued + 60 \<le> 9007199254740991" "issued \<le> now + 30" "now \<le> issued + 60"
    and en: "enrolled cfg sg p t ep" and a: "peer_admission sg issued nonce p = Inr a"
  shows "check_admission env sg cfg now a =
     Inr \<lparr>adm_tenant = t, adm_client = p_identity p, adm_core = p_core p, adm_nonce = nonce, adm_expires = issued + 60\<rparr>"
    and "length a \<le> 1000" "1 \<le> length a"
proof -
  let ?kvs = "signed_admission sg issued nonce p"
  let ?m = "map bt (json_text (jobj (admission_body sg issued nonce p)))"
  note pl = admission_plain [OF p sg n t(1,2)]
  have ab: "a = map bt (json_text (jobj ?kvs))" using peer_admission_bytes [OF p sg n t(1,2)] a by simp
  then show l: "length a \<le> 1000" using pl(3) by simp
  show "1 \<le> length a" unfolding ab by (simp add: jobj_def)
  have r: "portable_json (env_nfc env) 262144 (BytesIn a) = Inr (jnorm (jobj ?kvs))"
    unfolding ab by (rule plain_doc_read(1) [OF pl(2) nfc]) (use pl(3) in simp_all)
  have dist: "distinct (map fst ?kvs)" by (simp add: signed_admission_def admission_body_def)
  define d where "d = the_obj (jnorm (jobj ?kvs))"
  have f: "fld d k = (case map_of ?kvs k of None \<Rightarrow> JNull | Some v \<Rightarrow> jnorm v)" for k
    unfolding d_def by (rule fld_jnorm_jobj [OF dist])
  have fs: "fld d ''schema'' = JStr ADMISSION_SCHEMA" "fld d ''tenant'' = JStr (p_tenant p)" "fld d ''client'' = JStr (p_identity p)"
    "fld d ''core'' = JStr (p_core p)" "fld d ''issued'' = JInt issued" "fld d ''expires'' = JInt (issued + 60)"
    "fld d ''nonce'' = JStr (b64encode nonce)" "fld d ''public_key'' = JStr (b64encode (sig_public sg (p_key p)))"
    "fld d ''signature'' = JStr (b64encode (sig_sign sg (p_key p) ?m))"
    unfolding f by (simp_all add: signed_admission_def admission_body_def peer_public_def)
  have k: "keys_are admission_fields d"
    unfolding d_def keys_are_def keys_jnorm_jobj by (auto simp: names_def admission_fields_def signed_admission_def admission_body_def)
  have u: "broker_canonical (JObj (filter (\<lambda>(k, _). k \<noteq> asc ''signature'') d)) = Inr ?m"
  proof -
    have "json_bytes (JObj (filter (\<lambda>(k, _). k \<noteq> asc ''signature'') d)) = json_bytes (jobj (admission_body sg issued nonce p))"
      unfolding d_def signed_admission_def by (rule json_bytes_unsigned [OF pl(1) nfc]) (simp add: admission_body_def)
    also have "\<dots> = Inr ?m"
      by (rule plain_doc_read(2) [OF pl(1) nfc order_refl]) (simp add: jobj_def admission_body_def)
    finally show ?thesis by (simp add: broker_canonical_def)
  qed
  have ln: "length (sig_public sg (p_key p)) = 32" "length (sig_sign sg (p_key p) ?m) = 64"
    "sig_verify sg (sig_public sg (p_key p)) (sig_sign sg (p_key p) ?m) ?m"
    using sg by (auto simp: signer_ok_def)
  have "check_request sg cfg now d =
     Inr \<lparr>adm_tenant = t, adm_client = p_identity p, adm_core = p_core p, adm_nonce = nonce, adm_expires = issued + 60\<rparr>"
    using en p n t(3,4) ln by (simp add: check_request_def Let_def fs u enrolled_def peer_ok_def)
  then show "check_admission env sg cfg now a =
     Inr \<lparr>adm_tenant = t, adm_client = p_identity p, adm_core = p_core p, adm_nonce = nonce, adm_expires = issued + 60\<rparr>"
    using l k fs(1) by (simp add: check_admission_def r flip: d_def) (simp add: d_def jobj_def ADMISSION_SCHEMA_def)
qed

lemma virtual_id_Inr:
  assumes "list_all plain_char (tenant_id (adm_tenant a))" "list_all plain_char (adm_client a)" "list_all plain_char (adm_core a)"
  shows "\<exists>vid. virtual_id cfg a = Inr vid"
proof -
  have "scalars s" if "list_all plain_char s" for s using plain_text(2) [OF that] by (rule ascii_scalars)
  then have "jv_ok (JList [JStr (tenant_id (adm_tenant a)), JStr (adm_client a), JStr (adm_core a)])" using assms by simp
  then show ?thesis by (simp add: virtual_id_def broker_canonical_def json_bytes_ok)
qed

lemma own_admission_admitted:
  assumes "peer_ok env p" "signer_ok sg" "nfc_ok (env_nfc env)" "length nonce = 32"
    and "0 \<le> issued" "issued + 60 \<le> 9007199254740991" "issued \<le> now + 30" "now \<le> issued + 60"
    and en: "enrolled cfg sg p t ep" and a: "peer_admission sg issued nonce p = Inr a"
    and b: "nonces_ok b" "unexpired now (map_of (nonces b) (p_tenant p, nonce)) = None" "length (nonces (expire_nonces now b)) < 65536"
  shows "\<exists>vid b'. admit env sg cfg now a b = (Inr (t, vid, ep), b')"
proof -
  let ?a = "\<lparr>adm_tenant = t, adm_client = p_identity p, adm_core = p_core p, adm_nonce = nonce, adm_expires = issued + 60\<rparr>"
  have "\<exists>b'. claim_nonce (p_tenant p, nonce) (issued + 60) now b = (Inr (), b')"
    using b(2,3) expire_nonces_props(2) [OF b(1), of now "(p_tenant p, nonce)"] by (simp add: claim_nonce_def Let_def)
  moreover have "\<exists>vid. virtual_id cfg ?a = Inr vid"
    by (rule virtual_id_Inr) (use assms(1) en name_plain core_plain in \<open>auto simp: peer_ok_def enrolled_def\<close>)
  ultimately show ?thesis
    using own_admission_checked(1) [OF assms(1-9) a] en by (auto simp: admit_def enrolled_def)
qed

lemma own_head_read:
  assumes "peer_ok env p" "signer_ok sg" "nfc_ok (env_nfc env)" "length nonce = 32"
    and "0 \<le> issued" "issued + 60 \<le> 9007199254740991" "issued \<le> now + 30" "now \<le> issued + 60"
    and "enrolled cfg sg p t ep" and a: "peer_admission sg issued nonce p = Inr a"
  shows "read_request (be_encode 4 (length a) @ a @ rest) = Inr a"
proof -
  have "length a \<le> 1000" "1 \<le> length a" by (rule own_admission_checked [OF assms])+
  then show ?thesis by (simp add: read_request_def be_decode_encode Let_def)
qed

lemma own_frame_accepted:
  assumes "peer_ok env p" "signer_ok sg" "nfc_ok (env_nfc env)" "length nonce = 32"
    and "0 \<le> issued" "issued + 60 \<le> 9007199254740991" "issued \<le> now + 30" "now \<le> issued + 60"
    and en: "enrolled cfg sg p t ep" and a: "peer_admission sg issued nonce p = Inr a"
    and b: "nonces_ok b" "unexpired now (map_of (nonces b) (p_tenant p, nonce)) = None" "length (nonces (expire_nonces now b)) < 65536"
    and payload: "payload \<noteq> []" "int (length a + length payload + 2) \<le> min (max_frame cfg) 65507"
  shows "udp_frame sg issued nonce payload p = Inr (Some (be_encode 2 (length a) @ a @ payload))"
    and "fst (datagram_payload env sg cfg now (be_encode 2 (length a) @ a @ payload) (p_tenant p, p_core p) False b) = Inr payload"
proof -
  have l: "length a \<le> 1000" "1 \<le> length a" by (rule own_admission_checked [OF assms(1-10)])+
  show "udp_frame sg issued nonce payload p = Inr (Some (be_encode 2 (length a) @ a @ payload))"
    using a l payload(2) by (simp add: udp_frame_def)
  obtain vid b' where "admit env sg cfg now a b = (Inr (t, vid, ep), b')"
    using own_admission_admitted [OF assms(1-13)] by blast
  moreover have "length payload \<noteq> 0" using payload(1) by simp
  ultimately show "fst (datagram_payload env sg cfg now (be_encode 2 (length a) @ a @ payload) (p_tenant p, p_core p) False b) = Inr payload"
    using l payload(2) en by (simp add: datagram_payload_def Let_def be_decode_encode enrolled_def)
qed

section \<open>A sample peer\<close>

definition sample_peer :: peer where
  "sample_peer = \<lparr>p_role = asc ''client'', p_core = asc ''go'', p_tenant = asc ''lab'', p_identity = asc ''peer-01'', p_transport = asc ''tcp'',
     p_max_connections = 32, p_idle_seconds = 120, p_listen = (asc ''127.0.0.1'', 1087), p_gate = (asc ''127.0.0.1'', 1086),
     p_key = replicate 32 0, p_active = 0\<rparr>"

definition sample_nonce32 :: bytes where
  "sample_nonce32 = replicate 32 7"

lemma sample_peer_ok: "peer_ok sample_env sample_peer"
  by (simp add: peer_ok_def sample_peer_def sample_env_def sample_host_def endpoint_ok_def CORES_def)
     (simp add: name_char_def is_word_def is_lower_def is_digit_def one_of_def asc_def)

lemma sample_nfc: "nfc_ok (env_nfc sample_env)"
  by (simp add: sample_env_def nfc_ok_def)

lemma sample_enrolled: "enrolled sample_config toy_signer sample_peer sample_tenant (sample_host, 9002)"
  by (simp add: enrolled_def sample_config_def sample_peer_def sample_tenant_def toy_signer_def)

lemma sample_broker: "nonces_ok (broker_init 0 sample_config)" "unexpired now (map_of (nonces (broker_init 0 sample_config)) k) = None"
  "length (nonces (expire_nonces now (broker_init 0 sample_config))) < 65536"
  by (simp_all add: broker_init_def nonces_ok_def expire_nonces_def)

definition sample_request :: bytes where
  "sample_request = map bt (json_text (jobj (signed_admission toy_signer 1000 sample_nonce32 sample_peer)))"

lemma sample_request_made: "peer_admission toy_signer 1000 sample_nonce32 sample_peer = Inr sample_request"
  unfolding sample_request_def by (rule peer_admission_bytes [OF sample_peer_ok toy_signer_ok]) (simp_all add: sample_nonce32_def)

lemma sample_admitted:
  obtains vid b' where "admit sample_env toy_signer sample_config 1010 sample_request (broker_init 0 sample_config) =
     (Inr (sample_tenant, vid, sample_host, 9002), b')"
  using own_admission_admitted [OF sample_peer_ok toy_signer_ok sample_nfc, of sample_nonce32 1000 1010, OF _ _ _ _ _ sample_enrolled
      sample_request_made sample_broker(1) sample_broker(2) sample_broker(3)]
  by (auto simp: sample_nonce32_def)

section \<open>Properties\<close>

text \<open>C25. What an admission means: the broker returns a tenant and a route only for a document that
  names the tenant and the route's core, is within its validity, carries a signature that
  verifies under a key of the tenant over the whole document, is approved where the tenant
  requires it, and whose nonce was not in use; the nonce is then in use until the document
  expires. A refusal leaves every nonce that has not expired in use.\<close>

theorem admission_safe:
  assumes "nonces_ok b"
  shows "case admit env sg cfg now raw b of
     (Inl _, b') \<Rightarrow> list_all (\<lambda>(k, e). map_of (nonces b') k = Some e) (filter (\<lambda>(k, e). now \<le> e) (nonces b))
   | (Inr (t, vid, ep), b') \<Rightarrow>
       (\<exists>d pub sig message nonce expires.
          portable_json (env_nfc env) 262144 (BytesIn raw) = Inr (JObj d)
          \<and> map_of (tenants cfg) (the_str (fld d ''tenant'')) = Some t
          \<and> map_of (routes cfg) (tenant_id t, the_str (fld d ''core'')) = Some ep
          \<and> fld d ''expires'' = JInt expires \<and> the_int (fld d ''issued'') \<le> now + 30 \<and> now \<le> expires
          \<and> expires \<le> the_int (fld d ''issued'') + 120
          \<and> b64decode (the_str (fld d ''public_key'')) = Inr pub \<and> pub \<in> set (public_keys t)
          \<and> b64decode (the_str (fld d ''signature'')) = Inr sig
          \<and> json_bytes (JObj (filter (\<lambda>(k, _). k \<noteq> asc ''signature'') d)) = Inr message \<and> sig_verify sg pub sig message
          \<and> (if approval t = asc ''approval-required'' then (tenant_id t, the_str (fld d ''client'')) \<in> set (approvals cfg) else True)
          \<and> b64decode (the_str (fld d ''nonce'')) = Inr nonce
          \<and> unexpired now (map_of (nonces b) (tenant_id t, nonce)) = None
          \<and> map_of (nonces b') (tenant_id t, nonce) = Some expires)"
proof -
  obtain r b' where r: "admit env sg cfg now raw b = (r, b')" by fastforce
  show ?thesis
  proof (cases r)
    case (Inl e)
    have "map_of (nonces b') k = Some x" if "(k, x) \<in> set (nonces b)" "now \<le> x" for k x
      using admit_kept [OF r assms _ that(2)] that(1) assms by (simp add: nonces_ok_def dict_ok_def)
    then show ?thesis using r Inl by (auto simp: list_all_iff)
  next
    case (Inr x)
    obtain t vid ep where x: "x = (t, vid, ep)" by (cases x)
    obtain a where a: "check_admission env sg cfg now raw = Inr a" "t = adm_tenant a"
      "ep = the (map_of (routes cfg) (tenant_id t, adm_core a))"
      "claim_nonce (tenant_id t, adm_nonce a) (adm_expires a) now b = (Inr (), b')"
      using r Inr x by (auto elim: admit_Inr)
    have n: "map_of (nonces b') (tenant_id t, adm_nonce a) = Some (adm_expires a)"
      "unexpired now (map_of (nonces b) (tenant_id t, adm_nonce a)) = None"
      using claim_nonce_cases(4) [OF a(4) assms refl] by (simp_all add: unexpired_None)
    show ?thesis
      unfolding r Inr x sum.case prod.case
      by (rule check_admission_Inr [OF a(1)], intro exI conjI) (use n a in \<open>simp_all split: if_split\<close>)
  qed
qed

theorem admission_safe_witness:
  "\<exists>vid b' nonce. admit sample_env toy_signer sample_config 1010 sample_request (broker_init 0 sample_config) =
       (Inr (sample_tenant, vid, sample_host, 9002), b')
     \<and> map_of (nonces b') (asc ''lab'', nonce) \<noteq> None"
proof -
  obtain vid b' where a: "admit sample_env toy_signer sample_config 1010 sample_request (broker_init 0 sample_config) =
     (Inr (sample_tenant, vid, sample_host, 9002), b')" by (rule sample_admitted)
  from admission_safe [OF sample_broker(1), where env = sample_env and sg = toy_signer and cfg = sample_config and now = 1010 and raw = sample_request]
  obtain nonce expires where "map_of (nonces b') (tenant_id sample_tenant, nonce) = Some expires"
    unfolding a sum.case prod.case by blast
  then show ?thesis using a by (auto simp: sample_tenant_id)
qed



text \<open>C30. A peer and its broker agree: the first bytes of a stream that an enrolled peer opens, and the
  datagrams it sends, carry an admission that the broker accepts for the peer's tenant and the
  route of its core; of the datagram the broker forwards exactly the payload.\<close>

theorem peer_reaches_its_core:
  assumes "peer_ok env p" and "signer_ok sg" and "nfc_ok (env_nfc env)" and "length nonce = 32"
    and "0 \<le> issued" "issued + 60 \<le> 9007199254740991" "issued \<le> now + 30" "now \<le> issued + 60"
    and "enrolled cfg sg p t ep" and "nonces_ok b" "unexpired now (map_of (nonces b) (p_tenant p, nonce)) = None"
    and "length (nonces (expire_nonces now b)) < 65536"
    and "payload \<noteq> []" "int (length payload) + 1002 \<le> min (max_frame cfg) 65507"
  shows "(\<exists>head. stream_head sg issued nonce p = Inr head
       \<and> fst (handshake env sg cfg now None (head @ stream) b) = Inr (t, ep))
    \<and> (\<exists>frame. udp_frame sg issued nonce payload p = Inr (Some frame)
       \<and> fst (datagram_payload env sg cfg now frame (p_tenant p, p_core p) False b) = Inr payload)"
proof -
  obtain a where a: "peer_admission sg issued nonce p = Inr a" using peer_admission_bytes [OF assms(1,2,4,5,6)] by blast
  have "length a \<le> 1000" by (rule own_admission_checked(2) [OF assms(1-9) a])
  then have pl: "int (length a + length payload + 2) \<le> min (max_frame cfg) 65507" using assms(14) by simp
  obtain vid b' where "admit env sg cfg now a b = (Inr (t, vid, ep), b')"
    using own_admission_admitted [OF assms(1-9) a assms(10-12)] by blast
  then have "fst (handshake env sg cfg now None (be_encode 4 (length a) @ a @ stream) b) = Inr (t, ep)"
    by (simp add: handshake_def own_head_read [OF assms(1-9) a])
  moreover have "stream_head sg issued nonce p = Inr (be_encode 4 (length a) @ a)" using a by (simp add: stream_head_def)
  ultimately show ?thesis using own_frame_accepted [OF assms(1-9) a assms(10-13) pl] by auto
qed

theorem peer_reaches_its_core_witness:
  "\<exists>frame. udp_frame toy_signer 1000 sample_nonce32 [1, 2, 3] sample_peer = Inr (Some frame)
     \<and> fst (datagram_payload sample_env toy_signer sample_config 1010 frame (asc ''lab'', asc ''go'') False (broker_init 0 sample_config)) = Inr [1, 2, 3]"
proof -
  have "length sample_nonce32 = 32" by (simp add: sample_nonce32_def)
  from peer_reaches_its_core [OF sample_peer_ok toy_signer_ok sample_nfc this, of 1000 1010, OF _ _ _ _ sample_enrolled
      sample_broker(1) sample_broker(2) sample_broker(3), of "[1, 2, 3]"]
  show ?thesis by (simp add: sample_config_def) (simp add: sample_peer_def)
qed

end
