(* ===== verification/S6_JoinCode.thy ===== *)
theory S6_JoinCode
  imports S6_Peer
begin

text \<open>
  \<^verbatim>\<open>Public6/join_code.py\<close>: the base64url tokens of protocol envelopes, passports, visas and
  invitations, the 40-character join codes, the keys derived from a code, the public node
  profile, and what provisioning a node and installing a peer write. Ed25519 is the parameter
  \<open>sg\<close>; \<open>nfc\<close> is Unicode normalisation and \<open>reach\<close> tells whether
  \<^verbatim>\<open>ipaddress.ip_address\<close> accepts a text as an address that is neither unspecified nor
  multicast. The clock and random bytes are arguments. Where the code writes a document and
  reads it back, keys are written in sorted order here: that changes neither the length of the
  text nor what is read.
\<close>

section \<open>Tokens\<close>

definition INVITATION_PREFIX :: string where
  "INVITATION_PREFIX = ''S6INV1.''"

definition PROTOCOL_PREFIX :: string where
  "PROTOCOL_PREFIX = ''S6P1.''"

definition PASSPORT_PREFIX :: string where
  "PASSPORT_PREFIX = ''S6PASS1.''"

definition VISA_PREFIX :: string where
  "VISA_PREFIX = ''S6VISA1.''"

definition PROTOCOL_MAX_BYTES :: nat where
  "PROTOCOL_MAX_BYTES = 262144"

definition MAX_CREDENTIAL_BYTES :: nat where
  "MAX_CREDENTIAL_BYTES = 32768"

text \<open>The URL-safe alphabet, and \<^verbatim>\<open>urlsafe_b64encode(raw).decode().rstrip("=")\<close>.\<close>

definition url_char :: "nat \<Rightarrow> nat" where
  "url_char c = (if c = 43 then 45 else if c = 47 then 95 else c)"

definition std_char :: "nat \<Rightarrow> nat" where
  "std_char c = (if c = 45 then 43 else if c = 95 then 47 else c)"

definition rstrip_char :: "nat \<Rightarrow> ustr \<Rightarrow> ustr" where
  "rstrip_char c s = rev (dropWhile (\<lambda>x. x = c) (rev s))"

definition b64url :: "bytes \<Rightarrow> ustr" where
  "b64url raw = rstrip_char 61 (map url_char (b64encode raw))"

definition url_class :: "nat \<Rightarrow> bool" where
  "url_class c \<longleftrightarrow> is_word c \<or> one_of ''_-'' c"

text \<open>\<^verbatim>\<open>-n % 4\<close> signs of padding.\<close>

definition b64_pad :: "ustr \<Rightarrow> ustr" where
  "b64_pad s = s @ replicate ((4 - length s mod 4) mod 4) 61"

definition token_bytes :: "string \<Rightarrow> ustr \<Rightarrow> bytes res" where
  "token_bytes prefix token =
     (let payload = drop (length prefix) token in
      ebind (raise_if (payload = [] \<or> \<not> list_all url_class payload) (ValueError ''invalid token alphabet'')) (\<lambda>_.
      ebind (b64decode (map std_char (b64_pad payload))) (\<lambda>raw.
      ebind (raise_if (b64url raw \<noteq> payload) (ValueError ''noncanonical token encoding'')) (\<lambda>_.
        Inr raw))))"

text \<open>\<^verbatim>\<open>except Exception as exc: raise ValueError(...) from exc\<close>\<close>

definition or_value_error :: "'a res \<Rightarrow> string \<Rightarrow> 'a res" where
  "or_value_error m msg = (case m of Inl _ \<Rightarrow> Inl (ValueError msg) | Inr x \<Rightarrow> Inr x)"

text \<open>\<^verbatim>\<open>[class]{low,high}\<close>, and the classes of identifiers.\<close>

definition scope_class :: "nat \<Rightarrow> bool" where
  "scope_class c \<longleftrightarrow> is_word c \<or> one_of ''._:-'' c"

section \<open>Protocol envelopes\<close>

definition envelope_fields :: "string list" where
  "envelope_fields = [''schema'', ''version'', ''purpose'', ''core'', ''role'', ''identity'', ''routes'', ''components'', ''credentials'']"

definition envelope_roles :: "ustr list" where
  "envelope_roles = map asc [''broker'', ''agent'', ''client'', ''gate'', ''relay'', ''plugin'', ''all'']"

definition core_id_ok :: "pyval \<Rightarrow> bool" where
  "core_id_ok v \<longleftrightarrow> is_str v \<and> matches is_word scope_class 0 63 (the_str v)"

definition check_envelope :: "pyval \<Rightarrow> unit res" where
  "check_envelope v =
     (let d = the_obj v; scope = fld d ''core''; ids = (if is_list scope then the_list scope else [scope]) in
      ebind (raise_if (\<not> is_obj v \<or> \<not> keys_in envelope_fields d) (ValueError ''invalid Shadow6 protocol envelope'')) (\<lambda>_.
      ebind (raise_if (\<not> keys_are envelope_fields d \<or> fld d ''schema'' \<noteq> jstr ''shadow6.protocol-envelope.v1'' \<or> fld d ''version'' \<noteq> JInt 1)
              (ValueError ''invalid Shadow6 protocol envelope schema'')) (\<lambda>_.
      ebind (raise_if (\<not> str_len 1 64 (fld d ''purpose'')) (ValueError ''invalid envelope purpose'')) (\<lambda>_.
      ebind (raise_if (\<not> (1 \<le> length ids \<and> length ids \<le> 16) \<or> list_ex (\<lambda>c. \<not> core_id_ok c) ids \<or> \<not> distinct ids
                       \<or> is_list scope \<and> jstr ''all'' \<in> set ids)
              (ValueError ''invalid envelope Core scope'')) (\<lambda>_.
      ebind (raise_if (\<not> is_str (fld d ''role'') \<or> the_str (fld d ''role'') \<notin> set envelope_roles) (ValueError ''invalid envelope role'')) (\<lambda>_.
      raise_if (\<not> is_obj (fld d ''identity'') \<or> \<not> is_list (fld d ''routes'') \<or> \<not> is_obj (fld d ''components'') \<or> \<not> is_obj (fld d ''credentials''))
        (ValueError ''invalid envelope sections'')))))))"

definition pack_protocol :: "(ustr \<Rightarrow> ustr) \<Rightarrow> pyval \<Rightarrow> ustr res" where
  "pack_protocol nfc envelope =
     ebind (check_envelope envelope) (\<lambda>_.
     ebind (json_bytes envelope) (\<lambda>raw.
     ebind (portable_json nfc (int PROTOCOL_MAX_BYTES) (BytesIn raw)) (\<lambda>_.
     let token = asc PROTOCOL_PREFIX @ b64url raw in
     ebind (raise_if (PROTOCOL_MAX_BYTES < length token) (ValueError ''protocol envelope is oversized'')) (\<lambda>_.
       Inr token))))"

definition unpack_protocol :: "(ustr \<Rightarrow> ustr) \<Rightarrow> ustr \<Rightarrow> pyval res" where
  "unpack_protocol nfc token =
     ebind (raise_if (\<not> startswith PROTOCOL_PREFIX token \<or> PROTOCOL_MAX_BYTES < length token) (ValueError ''invalid Shadow6 protocol envelope'')) (\<lambda>_.
     ebind (or_value_error
             (ebind (token_bytes PROTOCOL_PREFIX token) (\<lambda>raw. portable_json nfc (int PROTOCOL_MAX_BYTES) (BytesIn raw)))
             ''invalid Shadow6 protocol envelope encoding'') (\<lambda>v.
     ebind (pack_protocol nfc v) (\<lambda>_.
       Inr v)))"

section \<open>Passports and visas\<close>

definition PASSPORT_SCHEMA :: string where
  "PASSPORT_SCHEMA = ''shadow6.passport.v1''"

definition VISA_SCHEMA :: string where
  "VISA_SCHEMA = ''shadow6.visa.v1''"

definition credential_bytes :: "pyval \<Rightarrow> bytes res" where
  "credential_bytes v = json_bytes v"

definition sign_claim :: "signer \<Rightarrow> pydict \<Rightarrow> bytes \<Rightarrow> pydict res" where
  "sign_claim sg claim issuer_key =
     ebind (raise_if (length issuer_key \<noteq> 32) (ValueError ''issuer key must be a 32-byte Ed25519 seed'')) (\<lambda>_.
     let c1 = dset (asc ''issuer'') (JStr (to_hex (sig_public sg issuer_key))) claim in
     ebind (credential_bytes (JObj c1)) (\<lambda>m.
       Inr (dset (asc ''signature'') (JStr (to_hex (sig_sign sg issuer_key m))) c1)))"

definition issue_passport ::
  "signer \<Rightarrow> int \<Rightarrow> ustr \<Rightarrow> ustr list \<Rightarrow> ustr list \<Rightarrow> int \<Rightarrow> bytes option \<Rightarrow> ustr res" where
  "issue_passport sg issued subject components roles ttl issuer_key =
     ebind (raise_if (\<not> (1 \<le> length subject \<and> length subject \<le> 128) \<or> \<not> (1 \<le> ttl \<and> ttl \<le> 604800)) (ValueError ''invalid passport claim'')) (\<lambda>_.
     ebind (raise_if (\<not> list_all (text_of scope_class 1 64) components) (ValueError ''invalid passport components'')) (\<lambda>_.
     ebind (raise_if (\<not> list_all (text_of scope_class 1 32) roles) (ValueError ''invalid passport roles'')) (\<lambda>_.
     let claim = the_obj (jobj [(''schema'', jstr PASSPORT_SCHEMA), (''subject'', JStr subject),
                   (''components'', JList (map JStr (sort (remdups components)))), (''roles'', JList (map JStr (sort (remdups roles)))),
                   (''issued_at'', JInt issued), (''expires_at'', JInt (issued + ttl))]) in
     ebind (case issuer_key of None \<Rightarrow> Inr claim | Some k \<Rightarrow> sign_claim sg claim k) (\<lambda>c.
     ebind (credential_bytes (JObj c)) (\<lambda>raw.
       Inr (asc PASSPORT_PREFIX @ b64url raw))))))"

definition credential_fields :: "string \<Rightarrow> string list" where
  "credential_fields prefix =
     (if prefix = PASSPORT_PREFIX then [''schema'', ''subject'', ''components'', ''roles'', ''issued_at'', ''expires_at'']
      else [''schema'', ''subject'', ''audience'', ''component'', ''passport_expires_at'', ''passport_digest'', ''issued_at'', ''expires_at''])"

definition credential_schema :: "string \<Rightarrow> string option" where
  "credential_schema prefix =
     (if prefix = PASSPORT_PREFIX then Some PASSPORT_SCHEMA else if prefix = VISA_PREFIX then Some VISA_SCHEMA else None)"

text \<open>\<^verbatim>\<open>i > v\<close> for an integer and a decoded value.\<close>

definition int_gt :: "int \<Rightarrow> pyval \<Rightarrow> bool res" where
  "int_gt i v =
     (case v of JInt j \<Rightarrow> Inr (j < i) | JBool b \<Rightarrow> Inr ((if b then 1 else 0) < i)
      | _ \<Rightarrow> Inl (TypeError ''not supported between instances''))"

definition check_signature :: "signer \<Rightarrow> bool \<Rightarrow> pydict \<Rightarrow> unit res" where
  "check_signature sg require_signature d =
     (let s = fld d ''signature''; i = fld d ''issuer'' in
      if s \<noteq> JNull \<or> i \<noteq> JNull
      then
        ebind (raise_if (\<not> is_str s \<or> \<not> is_str i) (ValueError ''incomplete credential signature'')) (\<lambda>_.
        or_value_error
          (ebind (raise_if (\<not> hex_text 64 (the_str i) \<or> \<not> hex_text 128 (the_str s)) (ValueError ''invalid signature encoding'')) (\<lambda>_.
           ebind (credential_bytes (JObj (without ''signature'' d))) (\<lambda>m.
             raise_if (\<not> sig_verify sg (from_hex (the_str i)) (from_hex (the_str s)) m) InvalidSignature)))
          ''invalid credential signature'')
      else raise_if require_signature (ValueError ''unsigned credential is not accepted''))"

definition verify_credential :: "(ustr \<Rightarrow> ustr) \<Rightarrow> signer \<Rightarrow> int \<Rightarrow> bool \<Rightarrow> string \<Rightarrow> pyval \<Rightarrow> pydict res" where
  "verify_credential nfc sg now require_signature prefix token =
     ebind (raise_if (\<not> is_str token \<or> \<not> startswith prefix (the_str token) \<or> MAX_CREDENTIAL_BYTES < length (the_str token))
             (ValueError ''invalid credential'')) (\<lambda>_.
     ebind (or_value_error
             (ebind (token_bytes prefix (the_str token)) (\<lambda>raw. portable_json nfc (int MAX_CREDENTIAL_BYTES) (BytesIn raw)))
             ''invalid credential encoding'') (\<lambda>v.
     let d = the_obj v; required = credential_fields prefix in
     ebind (raise_if (credential_schema prefix = None \<or> \<not> is_obj v \<or> fld d ''schema'' \<noteq> jstr (the (credential_schema prefix)))
             (ValueError ''invalid credential schema'')) (\<lambda>_.
     ebind (raise_if (\<not> keys_in (required @ [''issuer'', ''signature'']) d \<or> \<not> names required \<subseteq> set (keys d)) (ValueError ''invalid credential fields'')) (\<lambda>_.
     let issued = fld d ''issued_at''; expires = fld d ''expires_at'' in
     ebind (raise_if (\<not> is_int issued \<or> \<not> is_int expires \<or> the_int expires < the_int issued \<or> the_int expires \<le> now)
             (ValueError ''expired credential'')) (\<lambda>_.
     ebind (check_signature sg require_signature d) (\<lambda>_.
     ebind (if prefix = VISA_PREFIX then int_gt (the_int expires) (fld d ''passport_expires_at'') else Inr False) (\<lambda>outlives.
     ebind (raise_if outlives (ValueError ''Visa outlives Passport'')) (\<lambda>_.
       Inr d))))))))"

text \<open>\<^verbatim>\<open>s in v\<close> for a string and a decoded value: an element of a list, a key, a part of a text.\<close>

definition contains :: "ustr \<Rightarrow> ustr \<Rightarrow> bool" where
  "contains s t \<longleftrightarrow> list_ex (\<lambda>i. take (length s) (drop i t) = s) [0..<Suc (length t)]"

definition py_in :: "ustr \<Rightarrow> pyval \<Rightarrow> bool res" where
  "py_in s v =
     (case v of JList xs \<Rightarrow> Inr (JStr s \<in> set xs) | JObj d \<Rightarrow> Inr (s \<in> set (keys d)) | JStr t \<Rightarrow> Inr (contains s t)
      | _ \<Rightarrow> Inl (TypeError ''argument is not iterable''))"

text \<open>\<^verbatim>\<open>x not in v and "all" not in v\<close>\<close>

definition out_of_scope :: "ustr \<Rightarrow> pyval \<Rightarrow> bool res" where
  "out_of_scope x v = ebind (py_in x v) (\<lambda>b. if b then Inr False else ebind (py_in (asc ''all'') v) (\<lambda>a. Inr (\<not> a)))"

definition issue_visa ::
  "(ustr \<Rightarrow> ustr) \<Rightarrow> signer \<Rightarrow> int \<Rightarrow> pyval \<Rightarrow> ustr \<Rightarrow> ustr \<Rightarrow> int \<Rightarrow> bytes option \<Rightarrow> ustr res" where
  "issue_visa nfc sg now passport audience component ttl issuer_key =
     ebind (verify_credential nfc sg now False PASSPORT_PREFIX passport) (\<lambda>claim.
     ebind (raise_if (\<not> text_of scope_class 1 128 audience \<or> \<not> text_of scope_class 1 64 component) (ValueError ''invalid visa audience or component'')) (\<lambda>_.
     ebind (raise_if (\<not> (1 \<le> ttl \<and> ttl \<le> 86400)) (ValueError ''invalid visa lifetime'')) (\<lambda>_.
     ebind (out_of_scope component (fld claim ''components'')) (\<lambda>out.
     ebind (raise_if out (ValueError ''Passport does not authorize Visa component'')) (\<lambda>_.
     ebind (raise_if (fld claim ''issuer'' \<in> {JNull, JStr []} \<or> issuer_key = None)
             (ValueError ''a signed Passport and issuer key are required for Visa issuance'')) (\<lambda>_.
     ebind (credential_bytes (JObj (without ''signature'' claim))) (\<lambda>parent.
     let visa = the_obj (jobj [(''schema'', jstr VISA_SCHEMA), (''subject'', fld claim ''subject''), (''audience'', JStr audience),
                  (''component'', JStr component), (''passport_expires_at'', fld claim ''expires_at''),
                  (''passport_digest'', JStr (to_hex (sha256 parent))), (''issued_at'', JInt now),
                  (''expires_at'', JInt (min (now + ttl) (the_int (fld claim ''expires_at''))))]) in
     ebind (sign_claim sg visa (the issuer_key)) (\<lambda>signed.
     ebind (raise_if (fld signed ''issuer'' \<noteq> fld claim ''issuer'') (ValueError ''Visa issuer key does not match Passport issuer'')) (\<lambda>_.
     ebind (credential_bytes (JObj signed)) (\<lambda>raw.
       Inr (asc VISA_PREFIX @ b64url raw)))))))))))"

definition require_credential_scope :: "ustr option \<Rightarrow> ustr option \<Rightarrow> ustr option \<Rightarrow> pydict \<Rightarrow> unit res" where
  "require_credential_scope component role audience claim =
     ebind (case component of
              Some c \<Rightarrow> if asc ''component'' \<in> set (keys claim) then Inr False else out_of_scope c (getd claim ''components'' (JList []))
            | None \<Rightarrow> Inr False) (\<lambda>b1.
     ebind (raise_if b1 (ValueError ''credential does not authorize this component'')) (\<lambda>_.
     ebind (case role of Some r \<Rightarrow> out_of_scope r (getd claim ''roles'' (JList [])) | None \<Rightarrow> Inr False) (\<lambda>b2.
     ebind (raise_if b2 (ValueError ''credential does not authorize this role'')) (\<lambda>_.
     ebind (raise_if (case audience of Some a \<Rightarrow> fld claim ''audience'' \<notin> {JNull, JStr a} | None \<Rightarrow> False)
             (ValueError ''credential audience mismatch'')) (\<lambda>_.
     raise_if (case component of Some c \<Rightarrow> asc ''component'' \<in> set (keys claim) \<and> fld claim ''component'' \<noteq> JStr c | None \<Rightarrow> False)
       (ValueError ''credential component mismatch''))))))"

text \<open>\<open>visa_free\<close> and \<open>allowed\<close> are the options of the caller.\<close>

definition verify_passport_visa ::
  "(ustr \<Rightarrow> ustr) \<Rightarrow> signer \<Rightarrow> int \<Rightarrow> ustr list \<Rightarrow> bool \<Rightarrow> bool \<Rightarrow> pyval \<Rightarrow> bool res" where
  "verify_passport_visa nfc sg now allowed visa_free require_signed envelope =
     ebind (pack_protocol nfc envelope) (\<lambda>_.
     let d = the_obj envelope; purpose = the_str (fld d ''purpose''); admission = fld (the_obj (fld d ''credentials'')) ''admission'' in
     if \<not> startswith ''community:'' purpose then Inr True
     else if admission = jstr ''visa-free'' then Inr visa_free
     else if drop 10 purpose \<notin> set allowed \<or> \<not> str_len 1 MAX_CREDENTIAL_BYTES admission then Inr False
     else if startswith PASSPORT_PREFIX (the_str admission)
     then ebind (verify_credential nfc sg now require_signed PASSPORT_PREFIX admission) (\<lambda>_. Inr True)
     else if startswith VISA_PREFIX (the_str admission)
     then ebind (verify_credential nfc sg now require_signed VISA_PREFIX admission) (\<lambda>_. Inr True)
     else Inr (\<not> require_signed))"

section \<open>Join codes\<close>

definition MODES :: "(nat \<times> string) list" where
  "MODES = [(1, ''directory''), (2, ''manual''), (3, ''ipv4-https'')]"

text \<open>\<^verbatim>\<open>ipaddress\<close> on dotted quads: four decimal octets without leading zeros.\<close>

definition octet_ok :: "ustr \<Rightarrow> bool" where
  "octet_ok s \<longleftrightarrow> s \<noteq> [] \<and> list_all is_digit s \<and> length s \<le> 3 \<and> (length s = 1 \<or> hd s \<noteq> 48) \<and> read_nat s \<le> 255"

definition parse_ipv4 :: "ustr \<Rightarrow> bytes option" where
  "parse_ipv4 s =
     (let parts = split_on 46 s in
      if length parts = 4 \<and> list_all octet_ok parts then Some (map (\<lambda>p. bt (read_nat p)) parts) else None)"

definition show_ipv4 :: "bytes \<Rightarrow> ustr" where
  "show_ipv4 bs = tl (concat (map (\<lambda>b. 46 # show_nat (unat b)) bs))"

definition unreachable_ipv4 :: "bytes \<Rightarrow> bool" where
  "unreachable_ipv4 a \<longleftrightarrow> a = [0, 0, 0, 0] \<or> (224 \<le> unat (hd a) \<and> unat (hd a) \<le> 239) \<or> unat (hd a) = 127"

text \<open>\<^verbatim>\<open>issue\<close>; an IPv6 address and a text that is no address are both a \<^verbatim>\<open>ValueError\<close>.\<close>

definition issue :: "(nat \<Rightarrow> bytes) \<Rightarrow> string \<Rightarrow> ustr option \<Rightarrow> int option \<Rightarrow> ustr res" where
  "issue urandom mode host port =
     (case find (\<lambda>(_, m). m = mode) MODES of
        None \<Rightarrow> Inl (ValueError ''unknown join-code mode'')
      | Some (number, _) \<Rightarrow>
          if mode = ''ipv4-https'' then
            (case parse_ipv4 (case host of Some h \<Rightarrow> h | None \<Rightarrow> []) of
               None \<Rightarrow> Inl (ValueError ''IPv4 HTTPS mode requires a reachable public IPv4 address'')
             | Some a \<Rightarrow>
                 ebind (raise_if (unreachable_ipv4 a) (ValueError ''IPv4 HTTPS mode requires a reachable public IPv4 address'')) (\<lambda>_.
                 ebind (raise_if (case port of Some p \<Rightarrow> \<not> (1 \<le> p \<and> p \<le> 65535) | None \<Rightarrow> True) (ValueError ''invalid HTTPS port'')) (\<lambda>_.
                   Inr (b64url (bt number # a @ be_encode 2 (nat (the port)) @ urandom 23)))))
          else
            ebind (raise_if (host \<noteq> None \<or> port \<noteq> None) (ValueError ''host and port are only encoded in IPv4 HTTPS mode'')) (\<lambda>_.
              Inr (b64url (bt number # urandom 29))))"

record join_info =
  ji_mode :: string
  lookup_id :: ustr
  https_host :: "ustr option"
  https_port :: "nat option"

definition code_bytes :: "ustr \<Rightarrow> bytes res" where
  "code_bytes code = b64decode (map std_char code)"

definition decode_code :: "pyval \<Rightarrow> join_info res" where
  "decode_code v =
     (let code = the_str v in
      ebind (raise_if (\<not> is_str v \<or> \<not> text_of url_class 40 40 code) (ValueError ''join code must contain exactly 40 base64url characters'')) (\<lambda>_.
      ebind (code_bytes code) (\<lambda>raw.
      (case (if length raw = 30 then map_of MODES (unat (hd raw)) else None) of
         None \<Rightarrow> Inl (ValueError ''invalid join-code version or encoding'')
       | Some mode \<Rightarrow>
           ebind (raise_if (b64url raw \<noteq> code) (ValueError ''invalid join-code version or encoding'')) (\<lambda>_.
           if unat (hd raw) = 3 then
             (let port = be_decode (take 2 (drop 5 raw)) in
              ebind (raise_if (port = 0) (ValueError ''invalid HTTPS port'')) (\<lambda>_.
                Inr \<lparr>ji_mode = mode, lookup_id = to_hex (sha256 raw), https_host = Some (show_ipv4 (take 4 (drop 1 raw))), https_port = Some port\<rparr>))
           else Inr \<lparr>ji_mode = mode, lookup_id = to_hex (sha256 raw), https_host = None, https_port = None\<rparr>)))))"

section \<open>Keys of a code\<close>

definition CORE_NAMES :: "ustr list" where
  "CORE_NAMES = map asc [''go'', ''rust'', ''gleam'', ''ada'', ''nim'', ''pony'', ''zig'', ''d'', ''cpp'', ''idris'', ''hare'', ''carp'']"

definition core_purpose :: "ustr \<Rightarrow> string \<Rightarrow> ustr" where
  "core_purpose core role = asc ''core:'' @ core @ asc (CHR '':'' # role)"

definition purposes :: "ustr list" where
  "purposes = [asc ''admission'', asc ''gate''] @ concat (map (\<lambda>c. [core_purpose c ''client'', core_purpose c ''agent'']) CORE_NAMES)"

definition peer_seed :: "pyval \<Rightarrow> ustr \<Rightarrow> bytes res" where
  "peer_seed code purpose =
     ebind (raise_if (purpose \<notin> set purposes) (ValueError ''unknown key purpose'')) (\<lambda>_.
     ebind (decode_code code) (\<lambda>_.
     ebind (code_bytes (the_str code)) (\<lambda>raw.
       Inr (sha256 (map bt (asc ''shadow6.public-node.v1'' @ 0 # purpose @ [0]) @ raw)))))"

definition peer_key :: "signer \<Rightarrow> pyval \<Rightarrow> ustr \<Rightarrow> ustr res" where
  "peer_key sg code purpose = ebind (peer_seed code purpose) (\<lambda>seed. Inr (to_hex (sig_public sg seed)))"

section \<open>Profiles\<close>

definition PROFILE_SCHEMA :: string where
  "PROFILE_SCHEMA = ''shadow6.public-node-profile.v1''"

definition tenant_class :: "nat \<Rightarrow> bool" where
  "tenant_class c \<longleftrightarrow> is_word c \<or> one_of ''._-'' c"

definition route_fields :: "string list" where
  "route_fields = [''core'', ''transport'', ''gate_host'', ''gate_port'', ''gate_public_key'', ''native_broker_public_key'',
     ''native_client_public_key'', ''native_agent_public_key'', ''default_agent_id'', ''default_agent_public_key'']"

definition hex_field :: "nat \<Rightarrow> pyval \<Rightarrow> bool" where
  "hex_field n v \<longleftrightarrow> is_str v \<and> hex_text n (the_str v)"

text \<open>One route of a profile; the accumulator has the cores seen so far.\<close>

definition check_route :: "signer \<Rightarrow> (ustr \<Rightarrow> bool) \<Rightarrow> pyval \<Rightarrow> pyval \<Rightarrow> ustr list \<Rightarrow> ustr list res" where
  "check_route sg reach code route seen_cores =
     (let d = the_obj route; s = (\<lambda>n. the_str (fld d n)); core = s ''core''; aid = s ''default_agent_id''; akey = s ''default_agent_public_key'' in
      ebind (raise_if (\<not> is_obj route \<or> \<not> keys_are route_fields d) (ValueError ''unknown Core route field'')) (\<lambda>_.
      ebind (raise_if (\<not> is_str (fld d ''core'') \<or> core \<notin> set CORE_NAMES \<or> core \<in> set seen_cores) (ValueError ''invalid or duplicate Core route'')) (\<lambda>_.
      ebind (raise_if (\<not> is_str (fld d ''transport'') \<or> s ''transport'' \<notin> {asc ''tcp'', asc ''udp''}) (ValueError ''invalid Core carrier'')) (\<lambda>_.
      ebind (raise_if (\<not> is_str (fld d ''gate_host'') \<or> \<not> reach (s ''gate_host'')) (ValueError ''invalid Gate address'')) (\<lambda>_.
      ebind (raise_if (\<not> hex_field 64 (fld d ''gate_public_key'')) (ValueError ''invalid Gate public key'')) (\<lambda>_.
      ebind (raise_if (\<not> hex_field 64 (fld d ''native_broker_public_key'')) (ValueError ''invalid native Broker public key'')) (\<lambda>_.
      ebind (peer_key sg code (core_purpose core ''client'')) (\<lambda>ck.
      ebind (raise_if (fld d ''native_client_public_key'' \<noteq> JStr ck) (ValueError ''native Core identity does not match join code'')) (\<lambda>_.
      ebind (peer_key sg code (core_purpose core ''agent'')) (\<lambda>ak.
      ebind (raise_if (fld d ''native_agent_public_key'' \<noteq> JStr ak) (ValueError ''native Core identity does not match join code'')) (\<lambda>_.
      ebind (raise_if (\<not> is_str (fld d ''default_agent_id'') \<or> \<not> is_str (fld d ''default_agent_public_key'') \<or> (aid = []) \<noteq> (akey = []))
              (ValueError ''incomplete default Agent identity'')) (\<lambda>_.
      ebind (raise_if (aid \<noteq> [] \<and> (\<not> text_of tenant_class 1 64 aid \<or> \<not> hex_text 64 akey)) (ValueError ''invalid default Agent identity'')) (\<lambda>_.
      ebind (raise_if (\<not> int_in 1024 65534 (fld d ''gate_port'')) (ValueError ''invalid fixed Gate port'')) (\<lambda>_.
        Inr (seen_cores @ [core])))))))))))))))"

definition check_profile :: "signer \<Rightarrow> (ustr \<Rightarrow> bool) \<Rightarrow> pyval \<Rightarrow> pyval \<Rightarrow> unit res" where
  "check_profile sg reach code v =
     (let d = the_obj v; routes = the_list (fld d ''routes''); failure = ValueError ''profile does not match join code'' in
      ebind (raise_if (\<not> is_obj v \<or> \<not> keys_are [''schema'', ''lookup_id'', ''tenant'', ''admission_public_key'', ''routes''] d
                       \<or> fld d ''schema'' \<noteq> jstr PROFILE_SCHEMA) failure) (\<lambda>_.
      ebind (decode_code code) (\<lambda>info.
      ebind (raise_if (fld d ''lookup_id'' \<noteq> JStr (lookup_id info)) failure) (\<lambda>_.
      ebind (peer_key sg code (asc ''admission'')) (\<lambda>ak.
      ebind (raise_if (fld d ''admission_public_key'' \<noteq> JStr ak) (ValueError ''profile admission identity does not match code'')) (\<lambda>_.
      ebind (raise_if (\<not> is_str (fld d ''tenant'') \<or> \<not> text_of tenant_class 1 64 (the_str (fld d ''tenant''))) (ValueError ''invalid tenant'')) (\<lambda>_.
      ebind (raise_if (\<not> is_list (fld d ''routes'') \<or> \<not> (1 \<le> length routes \<and> length routes \<le> 12)) (ValueError ''invalid Core routes'')) (\<lambda>_.
      ebind (efold (check_route sg reach code) routes []) (\<lambda>_.
        Inr ())))))))))"

definition validate_profile :: "(ustr \<Rightarrow> ustr) \<Rightarrow> signer \<Rightarrow> (ustr \<Rightarrow> bool) \<Rightarrow> bytes \<Rightarrow> pyval \<Rightarrow> pyval res" where
  "validate_profile nfc sg reach data code =
     ebind (raise_if (\<not> (1 \<le> length data \<and> length data \<le> 65536)) (ValueError ''profile is empty or oversized'')) (\<lambda>_.
     ebind (utf8_decode data) (\<lambda>t.
     ebind (portable_json nfc 262144 (TextIn t)) (\<lambda>v.
     ebind (check_profile sg reach code v) (\<lambda>_.
       Inr v))))"

text \<open>\<open>fetch\<close> is the body of the HTTPS answer for a URL, \<open>Inl\<close> where the request fails, is
  redirected or has another status; \<open>https_origin\<close> is the test of \<^verbatim>\<open>urlsplit(directory)\<close>.\<close>

definition resolve_profile ::
  "(ustr \<Rightarrow> ustr) \<Rightarrow> signer \<Rightarrow> (ustr \<Rightarrow> bool) \<Rightarrow> (ustr \<Rightarrow> bytes res) \<Rightarrow> (ustr \<Rightarrow> bool) \<Rightarrow> nat \<Rightarrow>
     pyval \<Rightarrow> ustr option \<Rightarrow> fview option \<Rightarrow> ustr option \<Rightarrow> pyval res" where
  "resolve_profile nfc sg reach fetch https_origin euid code directory manual_profile manual_pin =
     ebind (decode_code code) (\<lambda>info.
     ebind (if ji_mode info = ''manual'' then
              ebind (raise_if (directory \<noteq> None) (ValueError ''manual mode does not use a directory'')) (\<lambda>_.
              (case manual_profile of
                 None \<Rightarrow> Inl (ValueError ''manual mode requires an owner-only profile file'')
               | Some file \<Rightarrow> private_file euid 65536 file))
            else
              ebind (raise_if (manual_profile \<noteq> None \<or> manual_pin \<noteq> None) (ValueError ''unexpected manual profile or pin'')) (\<lambda>_.
              ebind (if ji_mode info = ''directory'' then
                       (case directory of
                          None \<Rightarrow> Inl (ValueError ''directory mode requires a trusted HTTPS directory'')
                        | Some url \<Rightarrow>
                            ebind (raise_if (\<not> https_origin url) (ValueError ''directory must be a trusted HTTPS origin'')) (\<lambda>_.
                              Inr (rstrip_char 47 url)))
                     else
                       ebind (raise_if (directory \<noteq> None) (ValueError ''IPv4 code already contains its HTTPS origin'')) (\<lambda>_.
                         Inr (asc ''https://'' @ the (https_host info) @ 58 # show_nat (the (https_port info))))) (\<lambda>origin.
              ebind (fetch (origin @ asc ''/.well-known/shadow6/'' @ lookup_id info @ asc ''.json'')) (\<lambda>body.
                Inr (take 65537 body))))) (\<lambda>data.
     ebind (validate_profile nfc sg reach data code) (\<lambda>profile.
     ebind (raise_if (ji_mode info = ''manual'' \<and>
              (let routes = the_list (fld (the_obj profile) ''routes'') in
               case manual_pin of
                 None \<Rightarrow> True
               | Some pin \<Rightarrow> \<not> hex_text 64 pin \<or> length routes \<noteq> 1 \<or> fld (the_obj (hd routes)) ''gate_public_key'' \<noteq> JStr pin))
             (ValueError ''manual mode requires a separately verified full Gate public key'')) (\<lambda>_.
       Inr profile))))"

section \<open>Invitations and credentials of an envelope\<close>

definition pack_invitation ::
  "(ustr \<Rightarrow> ustr) \<Rightarrow> signer \<Rightarrow> (ustr \<Rightarrow> bool) \<Rightarrow> pyval \<Rightarrow> pyval \<Rightarrow> ustr \<Rightarrow> ustr res" where
  "pack_invitation nfc sg reach code profile gate_public_key =
     ebind (raise_if (\<not> hex_text 64 gate_public_key) (ValueError ''invalid Gate public key'')) (\<lambda>_.
     ebind (json_bytes profile) (\<lambda>data.
     ebind (validate_profile nfc sg reach data code) (\<lambda>_.
     ebind (json_bytes (jobj [(''schema'', jstr ''shadow6.invitation.v1''), (''code'', code), (''gate_public_key'', JStr gate_public_key), (''profile'', profile)])) (\<lambda>packed.
     let token = asc INVITATION_PREFIX @ b64url packed in
     ebind (raise_if (16384 < length token) (ValueError ''invitation is oversized'')) (\<lambda>_.
       Inr token)))))"

text \<open>\<^verbatim>\<open>for r in v\<close> over a decoded value whose elements the loop treats as objects.\<close>

definition gate_keys :: "pyval \<Rightarrow> pyval list res" where
  "gate_keys v =
     (case v of
        JList rs \<Rightarrow> emap (\<lambda>r. if is_obj r then item (the_obj r) (asc ''gate_public_key'') else Inl (TypeError ''indices must be integers'')) rs
      | JStr [] \<Rightarrow> Inr [] | JObj [] \<Rightarrow> Inr []
      | JStr _ \<Rightarrow> Inl (TypeError ''string indices must be integers'') | JObj _ \<Rightarrow> Inl (TypeError ''string indices must be integers'')
      | _ \<Rightarrow> Inl (TypeError ''object is not iterable''))"

definition truthy :: "pyval \<Rightarrow> bool" where
  "truthy v =
     (case v of JNull \<Rightarrow> False | JBool b \<Rightarrow> b | JInt i \<Rightarrow> i \<noteq> 0 | JFloat _ \<Rightarrow> True | JStr s \<Rightarrow> s \<noteq> [] | JList xs \<Rightarrow> xs \<noteq> [] | JObj d \<Rightarrow> d \<noteq> [])"

definition unpack_invitation ::
  "(ustr \<Rightarrow> ustr) \<Rightarrow> signer \<Rightarrow> (ustr \<Rightarrow> bool) \<Rightarrow> pyval \<Rightarrow> pyval res" where
  "unpack_invitation nfc sg reach token =
     ebind (raise_if (\<not> is_str token \<or> \<not> startswith INVITATION_PREFIX (the_str token) \<or> 16384 < length (the_str token)) (ValueError ''invalid long invitation'')) (\<lambda>_.
     ebind (or_value_error
             (ebind (token_bytes INVITATION_PREFIX (the_str token)) (\<lambda>raw. portable_json nfc 262144 (BytesIn raw)))
             ''invalid long invitation encoding'') (\<lambda>v.
     let d = the_obj v; profile = fld d ''profile''; p = the_obj profile in
     ebind (raise_if (\<not> is_obj v \<or> \<not> keys_are [''schema'', ''code'', ''gate_public_key'', ''profile''] d \<or> fld d ''schema'' \<noteq> jstr ''shadow6.invitation.v1'')
             (ValueError ''invalid long invitation schema'')) (\<lambda>_.
     ebind (raise_if (\<not> is_obj profile) (TypeError ''object has no attribute get'')) (\<lambda>_.
     ebind (if truthy (fld p ''routes'')
            then ebind (json_bytes profile) (\<lambda>data. ebind (validate_profile nfc sg reach data (fld d ''code'')) (\<lambda>_. Inr ()))
            else Inr ()) (\<lambda>_.
     ebind (item p (asc ''routes'')) (\<lambda>routes.
     ebind (gate_keys routes) (\<lambda>ks.
     ebind (raise_if (fld d ''gate_public_key'' \<notin> set ks) (ValueError ''invitation Gate key does not match profile'')) (\<lambda>_.
       Inr v))))))))"

record credential_claims =
  cl_passport :: "pydict option"
  cl_visa :: "pydict option"
  cl_invitation :: "pyval option"

definition resolve_credentials ::
  "(ustr \<Rightarrow> ustr) \<Rightarrow> signer \<Rightarrow> (ustr \<Rightarrow> bool) \<Rightarrow> int \<Rightarrow> bool \<Rightarrow> pyval \<Rightarrow> credential_claims res" where
  "resolve_credentials nfc sg reach now require_signature v =
     (let d = the_obj v;
          check = (\<lambda>name prefix. let t = fld d name in
                     if t = JNull then Inr None
                     else ebind (verify_credential nfc sg now require_signature prefix t) (\<lambda>c. Inr (Some c))) in
      ebind (raise_if (\<not> is_obj v) (ValueError ''invalid credentials section'')) (\<lambda>_.
      ebind (check ''passport'' PASSPORT_PREFIX) (\<lambda>passport.
      ebind (check ''visa'' VISA_PREFIX) (\<lambda>visa.
      ebind (let t = fld d ''public6_invitation'' in
             if t = JNull then Inr None else ebind (unpack_invitation nfc sg reach t) (\<lambda>i. Inr (Some i))) (\<lambda>invitation.
        Inr \<lparr>cl_passport = passport, cl_visa = visa, cl_invitation = invitation\<rparr>)))))"

text \<open>The visa against the passport it must come from.\<close>

definition check_visa :: "ustr option \<Rightarrow> ustr option \<Rightarrow> pydict option \<Rightarrow> pydict \<Rightarrow> unit res" where
  "check_visa component audience passport visa =
     ebind (require_credential_scope component None audience visa) (\<lambda>_.
     (case passport of
        None \<Rightarrow> Inl (ValueError ''Visa requires its parent Passport'')
      | Some p \<Rightarrow>
          ebind (raise_if (\<not> py_eq (fld visa ''subject'') (fld p ''subject'')) (ValueError ''Visa subject does not match Passport'')) (\<lambda>_.
          ebind (raise_if (fld visa ''issuer'' \<noteq> fld p ''issuer'') (ValueError ''Visa issuer does not match Passport'')) (\<lambda>_.
          ebind (credential_bytes (JObj (without ''signature'' p))) (\<lambda>parent.
            raise_if (fld visa ''passport_digest'' \<noteq> JStr (to_hex (sha256 parent))) (ValueError ''Visa is not derived from this Passport''))))))"

record options =
  o_component :: "ustr option"
  o_role :: "ustr option"
  o_audience :: "ustr option"
  o_communities :: "ustr list"
  o_visa_free :: bool
  o_signed :: bool

definition resolve_protocol_envelope ::
  "(ustr \<Rightarrow> ustr) \<Rightarrow> signer \<Rightarrow> (ustr \<Rightarrow> bool) \<Rightarrow> int \<Rightarrow> options \<Rightarrow> ustr \<Rightarrow> (pyval \<times> credential_claims) res" where
  "resolve_protocol_envelope nfc sg reach now opt token =
     ebind (unpack_protocol nfc token) (\<lambda>envelope.
     let d = the_obj envelope in
     ebind (raise_if (case o_component opt of
               Some c \<Rightarrow> (case map_of (the_obj (fld d ''components'')) c of Some v \<Rightarrow> v \<noteq> JNull \<and> v \<noteq> JBool True | None \<Rightarrow> False)
             | None \<Rightarrow> False) (ValueError ''S6P1 envelope does not advertise this component'')) (\<lambda>_.
     ebind (raise_if (case o_role opt of Some r \<Rightarrow> the_str (fld d ''role'') \<notin> {r, asc ''all''} | None \<Rightarrow> False) (ValueError ''S6P1 envelope role mismatch'')) (\<lambda>_.
     ebind (verify_passport_visa nfc sg now (o_communities opt) (o_visa_free opt) (o_signed opt) envelope) (\<lambda>ok.
     ebind (raise_if (\<not> ok) (ValueError ''S6P1 community admission was rejected'')) (\<lambda>_.
     ebind (resolve_credentials nfc sg reach now (o_signed opt) (fld d ''credentials'')) (\<lambda>cl.
     ebind (case cl_passport cl of None \<Rightarrow> Inr () | Some p \<Rightarrow> require_credential_scope (o_component opt) (o_role opt) None p) (\<lambda>_.
     ebind (case cl_visa cl of None \<Rightarrow> Inr () | Some v \<Rightarrow> check_visa (o_component opt) (o_audience opt) (cl_passport cl) v) (\<lambda>_.
       Inr (envelope, cl)))))))))"

section \<open>Provisioning a node\<close>

definition profile_id :: "pyval \<Rightarrow> ustr res" where
  "profile_id code = ebind (decode_code code) (\<lambda>info. Inr (take 16 (lookup_id info)))"

definition lower_hex :: "nat \<Rightarrow> nat" where
  "lower_hex c = (if 65 \<le> c \<and> c \<le> 70 then c + 32 else c)"

definition server_public :: "signer \<Rightarrow> pydict \<Rightarrow> ustr res" where
  "server_public sg config =
     (let raw = map lower_hex (the_str (fld config ''private_key'')); material = from_hex raw in
      ebind (raise_if (\<not> is_str (fld config ''private_key'') \<or> \<not> (hex_text 64 raw \<or> hex_text 128 raw)) (ValueError ''invalid Gate private key'')) (\<lambda>_.
      let public = sig_public sg (take 32 material) in
      ebind (raise_if (length material = 64 \<and> drop 32 material \<noteq> public) (ValueError ''inconsistent expanded Gate private key'')) (\<lambda>_.
        Inr (to_hex public))))"

text \<open>\<^verbatim>\<open>s.partition(c)\<close>: the parts before and after, and whether the separator occurs.\<close>

definition partition_at :: "nat \<Rightarrow> ustr \<Rightarrow> ustr \<times> bool \<times> ustr" where
  "partition_at c s = (takeWhile (\<lambda>x. x \<noteq> c) s, c \<in> set s, tl (dropWhile (\<lambda>x. x \<noteq> c) s))"

definition key_entry :: "ustr \<Rightarrow> (ustr \<times> ustr) list \<Rightarrow> (ustr \<times> ustr) list res" where
  "key_entry entry key_map =
     (case partition_at 61 entry of (core, separator, key) \<Rightarrow>
        ebind (raise_if (\<not> separator \<or> core \<notin> set CORE_NAMES \<or> map_of key_map core \<noteq> None \<or> \<not> hex_text 64 key)
                (ValueError ''invalid or duplicate Core=native-Broker-key entry'')) (\<lambda>_.
          Inr (dset core key key_map)))"

definition agent_entry :: "ustr \<Rightarrow> (ustr \<times> ustr \<times> ustr) list \<Rightarrow> (ustr \<times> ustr \<times> ustr) list res" where
  "agent_entry entry agent_map =
     (case partition_at 61 entry of (core, separator, ident) \<Rightarrow>
        (case partition_at 58 ident of (agent_id, colon, public) \<Rightarrow>
           ebind (raise_if (\<not> separator \<or> \<not> colon \<or> core \<notin> set CORE_NAMES \<or> map_of agent_map core \<noteq> None
                            \<or> \<not> text_of tenant_class 1 64 agent_id \<or> \<not> hex_text 64 public)
                   (ValueError ''invalid or duplicate Core=AgentID:AgentPub entry'')) (\<lambda>_.
             Inr (dset core (agent_id, public) agent_map))))"

definition udp_cores :: "ustr list" where
  "udp_cores = map asc [''hare'', ''carp'', ''pony'', ''idris'']"

definition host_text :: "pyval \<Rightarrow> ustr" where
  "host_text v = (case v of JStr s \<Rightarrow> s | JInt i \<Rightarrow> show_int i | _ \<Rightarrow> [])"

definition after_last :: "nat \<Rightarrow> ustr \<Rightarrow> ustr" where
  "after_last c s = rev (takeWhile (\<lambda>x. x \<noteq> c) (rev s))"

text \<open>The upstream of a gate must be the broker: its datagram listener for the datagram cores, its stream listener for the others.\<close>

definition check_upstream :: "config \<Rightarrow> ustr \<Rightarrow> ustr \<Rightarrow> pydict \<Rightarrow> unit res" where
  "check_upstream loaded tenant core gate =
     (if core \<in> set udp_cores then
        ebind (if datagram_listeners loaded = [] then Inr False
               else
                 ebind (item gate (asc ''upstream'')) (\<lambda>u.
                 ebind (raise_if (\<not> is_str u) (TypeError ''object has no attribute rsplit'')) (\<lambda>_.
                 ebind (py_int (after_last 58 (the_str u))) (\<lambda>n.
                   Inr (list_ex (\<lambda>(port, t, c, _, anonymous). port = n \<and> t = tenant \<and> c = core \<and> \<not> anonymous) (datagram_listeners loaded)))))) (\<lambda>ok.
          raise_if (\<not> ok) (ValueError ''Gate UDP upstream must be a signed Virtual Broker datagram listener''))
      else raise_if (fld gate ''upstream'' \<noteq> JStr (host_text (listen_host loaded) @ 58 # show_int (listen_port loaded)))
             (ValueError ''Gate TCP upstream must be the Virtual Broker listener''))"

definition auto_admission :: "config \<Rightarrow> bool" where
  "auto_admission loaded \<longleftrightarrow>
     list_ex (\<lambda>(_, t). approval t = asc ''default-approved'') (tenants loaded) \<or> anonymous_listeners loaded \<noteq> []
     \<or> list_ex (\<lambda>(_, _, _, _, anonymous). anonymous) (datagram_listeners loaded)"

text \<open>One gate: the accumulator has the gate configurations and the routes so far. \<open>gate_file\<close> reads a gate configuration.\<close>

definition gate_entry ::
  "signer \<Rightarrow> (ustr \<Rightarrow> pydict res) \<Rightarrow> config \<Rightarrow> ustr \<Rightarrow> ustr \<Rightarrow> (ustr \<times> ustr) list \<Rightarrow> (ustr \<times> ustr \<times> ustr) list \<Rightarrow>
     ustr \<Rightarrow> (ustr \<times> pydict) list \<times> (string \<times> pyval) list list \<Rightarrow> ((ustr \<times> pydict) list \<times> (string \<times> pyval) list list) res" where
  "gate_entry sg gate_file loaded tenant address key_map agent_map entry acc =
     (case partition_at 61 entry of (core, separator, filename) \<Rightarrow>
        ebind (raise_if (\<not> separator \<or> core \<notin> set CORE_NAMES \<or> map_of (fst acc) core \<noteq> None) (ValueError ''invalid or duplicate Core=Gate-config entry'')) (\<lambda>_.
        ebind (raise_if (map_of (routes loaded) (tenant, core) = None) (ValueError ''Virtual Broker lacks the matching tenant/Core route'')) (\<lambda>_.
        (case map_of key_map core of
           None \<Rightarrow> Inl (ValueError ''native Broker public key required for each Core'')
         | Some native_key \<Rightarrow>
             ebind (gate_file filename) (\<lambda>gate.
             ebind (raise_if (\<not> py_eq (fld gate ''version'') (JInt 1) \<or> fld gate ''role'' \<noteq> jstr ''server'' \<or> fld gate ''enabled'' \<noteq> JBool True)
                     (ValueError ''Gate server must be explicitly enabled'')) (\<lambda>_.
             let mtd = fld gate ''mtd''; min_port = fld (the_obj mtd) ''min_port'';
                 g1 = dset (asc ''public_auto_admission'') (JBool (auto_admission loaded)) gate;
                 carrier = (if core \<in> set udp_cores then ''udp'' else ''tcp'') in
             ebind (raise_if (\<not> is_obj mtd \<or> fld (the_obj mtd) ''enabled'' \<noteq> JBool False \<or> \<not> int_in 1024 65534 min_port)
                     (ValueError ''public-node Gate must use a fixed, non-rotating port'')) (\<lambda>_.
             ebind (raise_if (\<not> is_list (fld g1 ''peer_public_keys'') \<or> 256 \<le> length (the_list (fld g1 ''peer_public_keys''))) (ValueError ''Gate peer key limit reached'')) (\<lambda>_.
             ebind (raise_if (\<not> is_list (fld g1 ''protocol'')) (ValueError ''invalid Gate protocol'')) (\<lambda>_.
             ebind (raise_if (jstr carrier \<notin> set (the_list (fld g1 ''protocol''))) (ValueError ''Gate does not enable the Core carrier'')) (\<lambda>_.
             ebind (check_upstream loaded tenant core g1) (\<lambda>_.
             ebind (server_public sg g1) (\<lambda>gate_key.
             let agent = (case map_of agent_map core of Some a \<Rightarrow> a | None \<Rightarrow> ([], [])) in
               Inr (dset core g1 (fst acc),
                    snd acc @ [[(''core'', JStr core), (''transport'', jstr carrier), (''gate_host'', JStr address), (''gate_port'', min_port),
                                (''gate_public_key'', JStr gate_key), (''native_broker_public_key'', JStr native_key),
                                (''native_client_public_key'', JStr []), (''native_agent_public_key'', JStr []),
                                (''default_agent_id'', JStr (fst agent)), (''default_agent_public_key'', JStr (snd agent))]])))))))))))))"

text \<open>The native keys of a route, once the code is issued.\<close>

definition route_keys :: "signer \<Rightarrow> pyval \<Rightarrow> (string \<times> pyval) list \<Rightarrow> (string \<times> pyval) list res" where
  "route_keys sg code route =
     (let core = (case map_of route ''core'' of Some v \<Rightarrow> the_str v | None \<Rightarrow> []) in
      ebind (peer_key sg code (core_purpose core ''client'')) (\<lambda>ck.
      ebind (peer_key sg code (core_purpose core ''agent'')) (\<lambda>ak.
        Inr (dset ''native_agent_public_key'' (JStr ak) (dset ''native_client_public_key'' (JStr ck) route)))))"

definition append_field :: "string \<Rightarrow> pyval \<Rightarrow> pydict \<Rightarrow> pydict" where
  "append_field k v d = dset (asc k) (JList (the_list (fld d k) @ [v])) d"

text \<open>The first tenant of the broker document with the given identifier, changed.\<close>

fun change_tenant :: "ustr \<Rightarrow> (pydict \<Rightarrow> pydict) \<Rightarrow> pyval list \<Rightarrow> pyval list" where
  "change_tenant tid f [] = []"
| "change_tenant tid f (t # ts) =
     (if fld (the_obj t) ''id'' = JStr tid then JObj (f (the_obj t)) # ts else t # change_tenant tid f ts)"

definition invite_name :: "ustr \<Rightarrow> string \<Rightarrow> ustr" where
  "invite_name pid role = asc ''invite-'' @ pid @ asc (CHR ''-'' # role)"

record provision_result =
  pr_code :: ustr
  pr_broker :: pydict
  pr_gates :: "(ustr \<times> pydict) list"
  pr_profile :: pyval
  pr_identities :: pyval

text \<open>The new broker document: the key of the admission identity and, where the tenant requires it, the approvals.\<close>

definition enroll :: "ustr \<Rightarrow> ustr \<Rightarrow> ustr \<Rightarrow> bool \<Rightarrow> pydict \<Rightarrow> pydict res" where
  "enroll tenant admission pid approve broker =
     (let key = JStr (b64encode (from_hex admission));
          b1 = dset (asc ''tenants'') (JList (change_tenant tenant (append_field ''public_keys'' key) (the_list (fld broker ''tenants'')))) broker in
      if \<not> approve then Inr b1
      else
        (let b2 = fold (\<lambda>role. append_field ''approvals'' (jobj [(''tenant'', JStr tenant), (''client'', JStr (invite_name pid role))])) [''client'', ''agent''] b1 in
         ebind (raise_if (4096 < length (the_list (fld b2 ''approvals''))) (ValueError ''Virtual Broker approval limit reached'')) (\<lambda>_. Inr b2)))"

definition identity_rows :: "ustr \<Rightarrow> (string \<times> pyval) list list \<Rightarrow> pyval list" where
  "identity_rows pid rs =
     concat (map (\<lambda>route. map (\<lambda>role.
       jobj [(''core'', the (map_of route ''core'')), (''role'', jstr role), (''id'', JStr (invite_name pid role)),
             (''public_key'', the (map_of route (''native_'' @ role @ ''_public_key'')))]) [''client'', ''agent'']) rs)"

text \<open>\<open>loaded\<close> and \<open>broker\<close> are the broker configuration, validated and as a document; \<open>address\<close>
  is the canonical text of the public host where it is an address that can be reached.\<close>

definition provision ::
  "(ustr \<Rightarrow> ustr) \<Rightarrow> signer \<Rightarrow> (ustr \<Rightarrow> bool) \<Rightarrow> (nat \<Rightarrow> bytes) \<Rightarrow> (ustr \<Rightarrow> pydict res) \<Rightarrow> (ustr \<Rightarrow> ustr option) \<Rightarrow>
     string \<Rightarrow> ustr \<Rightarrow> config \<Rightarrow> pydict \<Rightarrow> ustr list \<Rightarrow> ustr \<Rightarrow> ustr option \<Rightarrow> int option \<Rightarrow> ustr list \<Rightarrow> ustr list \<Rightarrow> provision_result res" where
  "provision nfc sg reach urandom gate_file public_address mode tenant loaded broker gate_paths public_host host port native_keys agents =
     ebind (raise_if (\<not> text_of tenant_class 1 64 tenant) (ValueError ''invalid tenant'')) (\<lambda>_.
     ebind (raise_if (gate_paths = [] \<or> 12 < length gate_paths) (ValueError ''provide 1-12 distinct Core Gate configurations'')) (\<lambda>_.
     (case public_address public_host of
        None \<Rightarrow> Inl (ValueError ''public Gate host must be reachable'')
      | Some address \<Rightarrow>
          ebind (raise_if (mode = ''ipv4-https'' \<and> host \<noteq> Some address) (ValueError ''IPv4 HTTPS code and Gate host must agree'')) (\<lambda>_.
          ebind (raise_if (map_of (tenants loaded) tenant = None) (ValueError ''tenant is absent from Virtual Broker'')) (\<lambda>_.
          (case find (\<lambda>t. fld (the_obj t) ''id'' = JStr tenant) (the_list (fld broker ''tenants'')) of
             None \<Rightarrow> Inl (RuntimeError ''StopIteration'')
           | Some entry \<Rightarrow>
               ebind (raise_if (32 \<le> length (the_list (fld (the_obj entry) ''public_keys''))) (ValueError ''Virtual Broker tenant key limit reached'')) (\<lambda>_.
               ebind (efold key_entry native_keys []) (\<lambda>key_map.
               ebind (efold agent_entry agents []) (\<lambda>agent_map.
               ebind (efold (gate_entry sg gate_file loaded tenant address key_map agent_map) gate_paths ([], [])) (\<lambda>(gates, rs).
               ebind (raise_if (set (map fst key_map) \<noteq> set (map fst gates) \<or> \<not> set (map fst agent_map) \<subseteq> set (map fst gates))
                       (ValueError ''Core key or Agent catalog does not match Gate routes'')) (\<lambda>_.
               ebind (issue urandom mode host port) (\<lambda>code.
               ebind (peer_key sg (JStr code) (asc ''admission'')) (\<lambda>admission.
               ebind (peer_key sg (JStr code) (asc ''gate'')) (\<lambda>gate_public.
               ebind (profile_id (JStr code)) (\<lambda>pid.
               ebind (enroll tenant admission pid (fld (the_obj entry) ''approval'' = jstr ''approval-required'') broker) (\<lambda>broker1.
               let gates1 = map (\<lambda>(c, g). (c, append_field ''peer_public_keys'' (JStr gate_public) g)) gates in
               ebind (emap (route_keys sg (JStr code)) rs) (\<lambda>rs1.
               ebind (decode_code (JStr code)) (\<lambda>info.
               let profile = jobj [(''schema'', jstr PROFILE_SCHEMA), (''lookup_id'', JStr (lookup_id info)), (''admission_public_key'', JStr admission),
                               (''tenant'', JStr tenant), (''routes'', JList (map jobj (sort_key (\<lambda>r. the_str (the (map_of r ''core''))) rs1)))] in
               ebind (json_bytes profile) (\<lambda>data.
               ebind (validate_profile nfc sg reach data (JStr code)) (\<lambda>_.
                 Inr \<lparr>pr_code = code, pr_broker = broker1, pr_gates = gates1, pr_profile = profile,
                      pr_identities = jobj [(''schema'', jstr ''shadow6.public-node-native-keys.v1''), (''lookup_id'', JStr (lookup_id info)),
                                        (''identities'', JList (identity_rows pid rs1))]\<rparr>))))))))))))))))))))"

section \<open>Installing a peer\<close>

definition gate_client :: "(string \<times> pyval) list \<Rightarrow> pyval \<Rightarrow> ustr \<Rightarrow> int \<Rightarrow> pyval" where
  "gate_client route gate_listen seed_hex port =
     (let f = (\<lambda>n. case map_of route n of Some v \<Rightarrow> v | None \<Rightarrow> JNull) in
      jobj [(''version'', JInt 1), (''enabled'', JBool True), (''role'', jstr ''client''), (''listen_host'', jstr ''127.0.0.1''),
            (''listen_port'', gate_listen), (''upstream'', jstr ''127.0.0.1:4433''), (''upstreams'', JList []),
            (''remote_host'', f ''gate_host''), (''remote_hosts'', JList []), (''load_balance'', jstr ''round_robin''),
            (''private_key'', JStr seed_hex), (''peer_public_keys'', JList [f ''gate_public_key'']),
            (''protocol'', JList [f ''transport'']), (''open_mode'', jstr ''unconditional''), (''allowed_cidrs'', JList []),
            (''windows'', JList []),
            (''mtd'', jobj [(''enabled'', JBool False), (''period_seconds'', JInt 300), (''min_port'', JInt port), (''max_port'', JInt (port + 1)), (''grace_seconds'', JInt 15)]),
            (''limits'', jobj [(''max_connections'', JInt 64), (''max_frame_bytes'', JInt 65507), (''idle_seconds'', JInt 120)])])"

definition route_items :: "pydict \<Rightarrow> (string \<times> pyval) list" where
  "route_items d = map (\<lambda>n. (n, fld d n)) route_fields"

record install_result =
  in_admission_seed :: bytes
  in_core_seed :: bytes
  in_gate :: pyval
  in_peer :: pyval

text \<open>The four files \<^verbatim>\<open>install_peer\<close> writes into the directory \<open>output_dir\<close>, an absolute path.\<close>

definition install_peer ::
  "(ustr \<Rightarrow> ustr) \<Rightarrow> signer \<Rightarrow> (ustr \<Rightarrow> bool) \<Rightarrow> ustr \<Rightarrow> pyval \<Rightarrow> ustr \<Rightarrow> string \<Rightarrow> ustr \<Rightarrow> int \<Rightarrow> int \<Rightarrow> install_result res" where
  "install_peer nfc sg reach code profile core role output_dir gate_port peer_port =
     ebind (json_bytes profile) (\<lambda>data.
     ebind (validate_profile nfc sg reach data (JStr code)) (\<lambda>_.
     ebind (raise_if (role \<notin> {''client'', ''agent''}) (ValueError ''invalid Virtual Peer role'')) (\<lambda>_.
     (case find (\<lambda>r. fld (the_obj r) ''core'' = JStr core) (the_list (fld (the_obj profile) ''routes'')) of
        None \<Rightarrow> Inl (ValueError ''Core family is not offered by this node'')
      | Some r \<Rightarrow>
          ebind (raise_if (\<not> (1024 \<le> gate_port \<and> gate_port \<le> 65535) \<or> \<not> (1024 \<le> peer_port \<and> peer_port \<le> 65535) \<or> gate_port = peer_port)
                  (ValueError ''invalid local port assignment'')) (\<lambda>_.
          ebind (peer_seed (JStr code) (asc ''gate'')) (\<lambda>gate_seed.
          ebind (profile_id (JStr code)) (\<lambda>pid.
          ebind (peer_seed (JStr code) (asc ''admission'')) (\<lambda>admission_seed.
          ebind (peer_seed (JStr code) (core_purpose core role)) (\<lambda>core_seed.
            Inr \<lparr>in_admission_seed = admission_seed, in_core_seed = core_seed,
                 in_gate = gate_client (route_items (the_obj r)) (JInt gate_port) (to_hex gate_seed) (the_int (fld (the_obj r) ''gate_port'')),
                 in_peer = peer_document (asc role) core (output_dir @ asc ''/admission.seed'') (asc ''127.0.0.1'', peer_port) (asc ''127.0.0.1'', gate_port)
                   (the_str (fld (the_obj profile) ''tenant'')) (invite_name pid role) (the_str (fld (the_obj r) ''transport'')) 32 120\<rparr>)))))))))"

section \<open>Tokens are canonical\<close>

lemma rstrip_append: "s \<noteq> [] \<Longrightarrow> last s \<noteq> c \<Longrightarrow> rstrip_char c (s @ replicate n c) = s"
proof -
  assume s: "s \<noteq> []" "last s \<noteq> c"
  have "dropWhile (\<lambda>x. x = c) (replicate n c @ rev s) = dropWhile (\<lambda>x. x = c) (rev s)" by (simp add: dropWhile_append)
  also have "\<dots> = rev s" using s by (simp add: dropWhile_eq_self_iff hd_rev)
  finally show ?thesis by (simp add: rstrip_char_def)
qed

lemma b64_shape: "\<exists>body n. b64encode raw = body @ replicate n 61 \<and> n \<le> 2 \<and> 61 \<notin> set body \<and> (raw \<noteq> [] \<longrightarrow> body \<noteq> [])"
proof (induction raw rule: b64encode.induct)
  case 1
  show ?case by (intro exI [of _ "[]"] exI [of _ 0]) simp
next
  case (2 a)
  show ?case by (intro exI [of _ "[b64_char (unat a div 4), b64_char (unat a mod 4 * 16)]"] exI [of _ 2])
      (simp add: numeral_2_eq_2 b64_char_pad [symmetric])
next
  case (3 a b)
  show ?case
    by (intro exI [of _ "[b64_char (unat a div 4), b64_char (unat a mod 4 * 16 + unat b div 16), b64_char (unat b mod 16 * 4)]"] exI [of _ 1])
      (simp add: b64_char_pad [symmetric])
next
  case (4 a b c r)
  then obtain body n where "b64encode r = body @ replicate n 61" "n \<le> 2" "61 \<notin> set body" by blast
  then show ?case
    by (intro exI [of _ "b64_char (unat a div 4) # b64_char (unat a mod 4 * 16 + unat b div 16) #
        b64_char (unat b mod 16 * 4 + unat c div 64) # b64_char (unat c mod 64) # body"] exI [of _ n])
      (simp add: b64_char_pad [symmetric])
qed

lemma std_url_char: "c \<noteq> 45 \<Longrightarrow> c \<noteq> 95 \<Longrightarrow> std_char (url_char c) = c"
  by (simp add: std_char_def url_char_def)

lemma b64_chars: "c \<in> set (b64encode raw) \<Longrightarrow> c = 61 \<or> (is_word c \<or> c = 43 \<or> c = 47)"
proof -
  have w: "is_word (b64_char n) \<or> b64_char n = 43 \<or> b64_char n = 47" for n
    by (auto simp: b64_char_def is_word_def is_upper_def is_lower_def is_digit_def)
  show "c \<in> set (b64encode raw) \<Longrightarrow> c = 61 \<or> (is_word c \<or> c = 43 \<or> c = 47)"
    by (induction raw rule: b64encode.induct) (use w in auto)
qed

lemma pad_count: "(l + n) mod 4 = 0 \<Longrightarrow> n \<le> 2 \<Longrightarrow> (4 - l mod 4) mod 4 = (n :: nat)"
proof -
  assume "(l + n) mod 4 = 0" "n \<le> 2"
  then have "n = 0 \<and> l mod 4 = 0 \<or> n = 1 \<and> l mod 4 = 3 \<or> n = 2 \<and> l mod 4 = 2" by presburger
  then show ?thesis by auto
qed

lemma url_class_char: "is_word c \<or> c = 43 \<or> c = 47 \<Longrightarrow> url_class (url_char c)"
  by (auto simp: url_class_def url_char_def one_of_def asc_def)

lemma b64url_facts:
  shows "map std_char (b64_pad (b64url raw)) = b64encode raw" and "list_all url_class (b64url raw)" and "raw \<noteq> [] \<Longrightarrow> b64url raw \<noteq> []"
    and "length (b64url raw) \<le> 4 * ((length raw + 2) div 3)"
proof -
  obtain body n where b: "b64encode raw = body @ replicate n 61" "n \<le> 2" "61 \<notin> set body" "raw \<noteq> [] \<Longrightarrow> body \<noteq> []"
    using b64_shape by blast
  have cs: "is_word c \<or> c = 43 \<or> c = 47" if "c \<in> set body" for c
    using that b(1,3) b64_chars [of c raw] by auto
  then have sc: "map std_char (map url_char body) = body"
    unfolding map_map by (intro map_idI) (fastforce simp: std_char_def url_char_def is_word_def is_lower_def is_upper_def is_digit_def)
  have u: "b64url raw = map url_char body"
  proof (cases "body = []")
    case True
    then have "raw = []" using b(4) by blast
    then show ?thesis using True by (simp add: b64url_def rstrip_char_def)
  next
    case False
    have "last body \<noteq> 61" using last_in_set [OF False] b(3) by metis
    then have "last (map url_char body) \<noteq> 61" using False by (auto simp: last_map url_char_def)
    moreover have "map url_char (b64encode raw) = map url_char body @ replicate n 61" by (simp add: b(1) url_char_def)
    ultimately show ?thesis using False by (simp add: b64url_def rstrip_append)
  qed
  have "(length body + n) mod 4 = 0"
    using length_b64encode [of raw] by (simp add: b(1))
  then have pad: "(4 - length body mod 4) mod 4 = n" by (rule pad_count) (rule b(2))
  then show "map std_char (b64_pad (b64url raw)) = b64encode raw"
    unfolding u b64_pad_def b(1) length_map pad map_append sc by (simp add: std_char_def)
  show "list_all url_class (b64url raw)"
    using cs url_class_char by (auto simp: u list_all_iff)
  show "raw \<noteq> [] \<Longrightarrow> b64url raw \<noteq> []" using b(4) u by simp
  show "length (b64url raw) \<le> 4 * ((length raw + 2) div 3)"
    using length_b64encode [of raw] by (simp add: u b(1))
qed

lemma token_roundtrip: "raw \<noteq> [] \<Longrightarrow> token_bytes prefix (asc prefix @ b64url raw) = Inr raw"
  by (simp add: token_bytes_def b64url_facts del: map_map)

lemma token_canonical: "token_bytes prefix token = Inr raw \<Longrightarrow> startswith prefix token \<Longrightarrow> token = asc prefix @ b64url raw"
  by (auto simp: token_bytes_def Let_def startswith_def) (metis append_take_drop_id)

lemma or_value_error_Inr [simp]: "or_value_error m msg = Inr x \<longleftrightarrow> m = Inr x"
  by (auto simp: or_value_error_def split: sum.split)

lemma startswith_append [simp]: "startswith p (asc p @ s)"
  by (simp add: startswith_def)

section \<open>Envelopes read back\<close>

lemma portable_json_back:
  assumes "jv_ok v" "portable_json nfc limit (BytesIn (map bt (json_text v))) = Inr w"
  shows "w = jnorm v"
proof -
  have dec: "utf8_decode (map bt (json_text v)) = Inr (json_text v)"
    using utf8_encode_ascii [OF ascii_json_text [OF assms(1)]] by (rule utf8_decode_encode)
  have "json_loads (strict_hooks (\<lambda>_. None) False False) (json_text v) = Inr (jnorm v)"
    using plain_strict_hooks assms(1) by (rule json_loads_text)
  then show ?thesis using assms(2) dec by (auto simp: portable_json_def strict_json_def)
qed

lemma jnorm_kinds [simp]:
  "is_list (jnorm v) = is_list v" "is_str (jnorm v) = is_str v" "the_list (jnorm v) = map jnorm (the_list v)"
  "str_len a b (jnorm v) = str_len a b v" "the_str (jnorm v) = the_str v" "jnorm v = JStr s \<longleftrightarrow> v = JStr s" "jnorm v = JInt i \<longleftrightarrow> v = JInt i"
  by (cases v; auto simp: is_list_def is_str_def the_list_def str_len_def the_str_def)+

lemma keys_are_jnorm: "keys_are ks (the_obj (jnorm (JObj d))) = keys_are ks d" "keys_in ks (the_obj (jnorm (JObj d))) = keys_in ks d"
  by (simp_all add: keys_are_def keys_in_def keys_jnorm del: jnorm.simps)

lemma check_envelope_jnorm:
  assumes "json_doc v" and "check_envelope v = Inr ()"
  shows "check_envelope (jnorm v) = Inr ()"
proof -
  obtain d where v: "v = JObj d" using assms(2) by (cases v) (auto simp: check_envelope_def is_obj_def Let_def)
  have f: "fld (the_obj (jnorm (JObj d))) k = jnorm (fld d k)" for k
    by (rule fld_jnorm) (use assms(1) v in simp)
  let ?scope = "fld d ''core''"
  let ?ids = "if is_list ?scope then the_list ?scope else [?scope]"
  have c: "list_all core_id_ok ?ids" "distinct ?ids" "1 \<le> length ?ids \<and> length ?ids \<le> 16" "\<not> (is_list ?scope \<and> jstr ''all'' \<in> set ?ids)"
    using assms(2) v by (auto simp: check_envelope_def Let_def list_ex_iff list_all_iff)
  have same: "jnorm x = x" if "core_id_ok x" for x using that by (cases x) (auto simp: core_id_ok_def is_str_def)
  have ids: "(if is_list (jnorm ?scope) then the_list (jnorm ?scope) else [jnorm ?scope]) = ?ids"
  proof (cases "is_list ?scope")
    case True
    then have "map jnorm (the_list ?scope) = the_list ?scope" using c(1) same by (intro map_idI) (auto simp: list_all_iff)
    then show ?thesis using True by simp
  next
    case False
    then show ?thesis using c(1) same by simp
  qed
  show ?thesis
    using assms(2) unfolding v check_envelope_def Let_def f ids
    by (auto simp: keys_are_jnorm simp del: jnorm.simps)
qed

lemma envelope_back:
  assumes "json_doc v" "jv_ok v" "pack_protocol nfc v = Inr token"
  shows "unpack_protocol nfc token = Inr (jnorm v)"
proof -
  let ?raw = "map bt (json_text v)"
  from assms(3) obtain w where c: "check_envelope v = Inr ()" and w: "portable_json nfc (int PROTOCOL_MAX_BYTES) (BytesIn ?raw) = Inr w"
    and t: "token = asc PROTOCOL_PREFIX @ b64url ?raw" "length token \<le> PROTOCOL_MAX_BYTES"
    by (auto simp: pack_protocol_def Let_def json_bytes_ok [OF assms(2)] not_less)
  have wn: "w = jnorm v" by (rule portable_json_back [OF assms(2) w])
  have "json_text v \<noteq> []" using opens_text [OF assms(2)] by (auto simp: opens_value_def)
  then have tb: "token_bytes PROTOCOL_PREFIX token = Inr ?raw" unfolding t(1) by (intro token_roundtrip) simp
  have "pack_protocol nfc (jnorm v) = Inr token"
    using check_envelope_jnorm [OF assms(1) c] w t assms(2) by (simp add: pack_protocol_def json_bytes_ok)
  then show ?thesis using tb w t by (simp add: unpack_protocol_def wn or_value_error_def)
qed

section \<open>Join codes read back\<close>

lemma show_read_nat:
  "list_all is_digit s \<Longrightarrow> s \<noteq> [] \<Longrightarrow> length s = 1 \<or> hd s \<noteq> 48 \<Longrightarrow> show_nat (read_nat s) = s"
proof (induction s rule: rev_induct)
  case (snoc c s)
  have c: "is_digit c" using snoc.prems(1) by simp
  then have cd: "c - 48 < 10" "48 + (c - 48) = c" by (auto simp: is_digit_def)
  show ?case
  proof (cases "s = []")
    case True
    then show ?thesis using cd by (subst show_nat.simps) (simp add: read_nat_def)
  next
    case False
    have h: "hd s \<noteq> 48" using snoc.prems(3) False by simp
    have ih: "show_nat (read_nat s) = s" using snoc.IH snoc.prems(1) False h by simp
    have "read_nat s \<noteq> 0"
    proof
      assume "read_nat s = 0"
      then have "s = [48]" using ih by (simp add: show_nat.simps)
      then show False using h by simp
    qed
    then have "show_nat (read_nat s * 10 + (c - 48)) = show_nat (read_nat s) @ [48 + (c - 48)]"
      using cd(1) by (subst show_nat.simps) simp
    then show ?thesis unfolding read_nat_snoc ih cd(2) .
  qed
qed simp

lemma join_split: "tl (concat (map (\<lambda>p. c # p) (split_upto c n s))) = s"
proof (induction n arbitrary: s)
  case (Suc n)
  show ?case
  proof (cases "c \<in> set s")
    case True
    then have "dropWhile (\<lambda>x. x \<noteq> c) s \<noteq> []" "hd (dropWhile (\<lambda>x. x \<noteq> c) s) = c"
      by (auto simp: dropWhile_eq_Nil_conv) (metis (mono_tags, lifting) dropWhile_eq_Nil_conv hd_dropWhile)
    then have e: "dropWhile (\<lambda>x. x \<noteq> c) s = c # tl (dropWhile (\<lambda>x. x \<noteq> c) s)" by (metis list.collapse)
    have ne: "concat (map (\<lambda>p. c # p) (split_upto c n t)) = c # tl (concat (map (\<lambda>p. c # p) (split_upto c n t)))" for t
      by (cases n) auto
    show ?thesis using True by (simp, subst ne, subst Suc.IH, subst e [symmetric], simp)
  qed simp
qed simp

lemma parse_show_ipv4: "parse_ipv4 s = Some a \<Longrightarrow> show_ipv4 a = s \<and> length a = 4"
proof -
  assume p: "parse_ipv4 s = Some a"
  then have parts: "length (split_on 46 s) = 4" "list_all octet_ok (split_on 46 s)" "a = map (\<lambda>p. bt (read_nat p)) (split_on 46 s)"
    by (auto simp: parse_ipv4_def Let_def split: if_splits)
  have o: "show_nat (unat (bt (read_nat q) :: byte)) = q" if "octet_ok q" for q
  proof -
    have "show_nat (read_nat q) = q" using that by (intro show_read_nat) (auto simp: octet_ok_def)
    moreover have "unat (bt (read_nat q) :: byte) = read_nat q" using that by (intro unat_bt) (simp add: octet_ok_def)
    ultimately show ?thesis by simp
  qed
  have "map (\<lambda>b. 46 # show_nat (unat b)) a = map (\<lambda>p. 46 # p) (split_on 46 s)"
    unfolding parts(3) using parts(2) o by (auto simp: list_all_iff)
  then have "show_ipv4 a = s" using join_split [of 46 "length s" s] by (simp only: show_ipv4_def split_on_def)
  then show ?thesis using parts by simp
qed

lemma b64_no_pad: "length raw mod 3 = 0 \<Longrightarrow> 61 \<notin> set (b64encode raw)"
proof (induction raw rule: b64encode.induct)
  case (4 a b c r)
  have "length r mod 3 = 0" using "4.prems" by (simp add: Suc3_eq_add_3 del: length_0_conv)
  then show ?case using "4.IH" b64_char_pad by (auto simp: b64_char_pad [symmetric])
qed simp_all

lemma code_facts:
  assumes "length raw = 30"
  shows "length (b64url raw) = 40" and "code_bytes (b64url raw) = Inr raw" and "text_of url_class 40 40 (b64url raw)"
proof -
  have ne: "b64encode raw \<noteq> []" using length_b64encode [of raw] assms by auto
  have "61 \<notin> set (b64encode raw)" using b64_no_pad [of raw] assms by simp
  then have "last (b64encode raw) \<noteq> 61" using last_in_set [OF ne] by metis
  then have "last (map url_char (b64encode raw)) \<noteq> 61" using ne by (auto simp: last_map url_char_def)
  then have "dropWhile (\<lambda>x. x = 61) (rev (map url_char (b64encode raw))) = rev (map url_char (b64encode raw))"
    using ne by (simp add: dropWhile_eq_self_iff hd_rev)
  then have u: "b64url raw = map url_char (b64encode raw)" by (simp add: b64url_def rstrip_char_def)
  then show l: "length (b64url raw) = 40" using assms by (simp add: length_b64encode)
  then have "b64_pad (b64url raw) = b64url raw" by (simp add: b64_pad_def)
  then show "code_bytes (b64url raw) = Inr raw" using b64url_facts(1) [of raw] by (simp add: code_bytes_def)
  show "text_of url_class 40 40 (b64url raw)" using l b64url_facts(2) by (simp add: text_of_def)
qed

lemma decode_b64url:
  assumes "length raw = 30" "map_of MODES (unat (hd raw)) = Some mode" "unat (hd raw) = 3 \<Longrightarrow> be_decode (take 2 (drop 5 raw)) \<noteq> 0"
  shows "decode_code (JStr (b64url raw)) = Inr \<lparr>ji_mode = mode, lookup_id = to_hex (sha256 raw),
     https_host = (if unat (hd raw) = 3 then Some (show_ipv4 (take 4 (drop 1 raw))) else None),
     https_port = (if unat (hd raw) = 3 then Some (be_decode (take 2 (drop 5 raw))) else None)\<rparr>"
  using assms code_facts [OF assms(1)] by (simp add: decode_code_def Let_def)

lemma issue_ipv4:
  assumes "issue urandom ''ipv4-https'' host port = Inr code"
  obtains h a p where "host = Some h" "parse_ipv4 h = Some a" "port = Some p" "1 \<le> p" "p \<le> 65535"
    "code = b64url (3 # a @ be_encode 2 (nat p) @ urandom 23)"
proof -
  let ?h = "case host of Some h \<Rightarrow> h | None \<Rightarrow> []"
  have f: "find (\<lambda>(_, m). m = ''ipv4-https'') MODES = Some (3, ''ipv4-https'')" by (simp add: MODES_def)
  obtain a where a: "parse_ipv4 ?h = Some a" using assms by (cases "parse_ipv4 ?h") (simp_all add: issue_def f)
  have "parse_ipv4 [] = None" by (simp add: parse_ipv4_def split_on_def)
  then obtain h where h: "host = Some h" using a by (cases host) auto
  obtain p where p: "port = Some p" using assms by (cases port) (simp_all add: issue_def f a)
  have r: "1 \<le> p" "p \<le> 65535" "code = b64url (3 # a @ be_encode 2 (nat p) @ urandom 23)"
    using assms by (simp_all add: issue_def f a p)
  show thesis by (rule that [OF h _ p r]) (use a h in simp)
qed

lemma issue_other:
  assumes "issue urandom mode host port = Inr code" "mode \<noteq> ''ipv4-https''"
  obtains n where "map_of MODES n = Some mode" "n = 1 \<or> n = 2" "code = b64url (bt n # urandom 29)"
proof -
  obtain n m where f: "find (\<lambda>(_, m). m = mode) MODES = Some (n, m)"
    using assms by (cases "find (\<lambda>(_, m). m = mode) MODES") (auto simp: issue_def)
  then have "map_of MODES n = Some mode" "n = 1 \<or> n = 2" using assms(2) by (auto simp: MODES_def split: if_splits)
  moreover have "code = b64url (bt n # urandom 29)" using assms by (simp add: issue_def f)
  ultimately show thesis by (rule that)
qed

lemma issue_decodes:
  assumes r: "\<And>n. length (urandom n) = n" and i: "issue urandom mode host port = Inr code"
  obtains info where "decode_code (JStr code) = Inr info" "ji_mode info = mode"
    "https_host info = (if mode = ''ipv4-https'' then host else None)"
    "https_port info = (if mode = ''ipv4-https'' then map_option nat port else None)"
proof (cases "mode = ''ipv4-https''")
  case True
  obtain h a p where a: "host = Some h" "parse_ipv4 h = Some a" "port = Some p" "1 \<le> p" "p \<le> 65535"
    "code = b64url (3 # a @ be_encode 2 (nat p) @ urandom 23)"
    by (rule issue_ipv4 [OF i [unfolded True]])
  let ?raw = "3 # a @ be_encode 2 (nat p) @ urandom 23"
  have l: "length a = 4" "show_ipv4 a = h" using parse_show_ipv4 [OF a(2)] by simp_all
  have "nat p < 256 ^ 2" using a(4,5) by (simp add: nat_less_iff)
  then have d: "be_decode (be_encode 2 (nat p)) = nat p" by (rule be_decode_encode)
  have t: "take 2 (drop 5 ?raw) = be_encode 2 (nat p)" "take 4 (drop 1 ?raw) = a" "length ?raw = 30" "hd ?raw = 3" using l(1) r by simp_all
  have "unat (3 :: byte) = 3" by simp
  then have "decode_code (JStr code) = Inr \<lparr>ji_mode = mode, lookup_id = to_hex (sha256 ?raw), https_host = Some h, https_port = Some (nat p)\<rparr>"
    using decode_b64url [OF t(3), of mode] a(4) unfolding t a(6) d l(2) True by (simp add: MODES_def)
  then show ?thesis by (rule that) (use True a in simp_all)
next
  case False
  obtain n where n: "map_of MODES n = Some mode" "n = 1 \<or> n = 2" "code = b64url (bt n # urandom 29)"
    by (rule issue_other [OF i False])
  have u: "unat (bt n :: byte) = n" "n \<noteq> 3" using n(2) by auto
  have "decode_code (JStr code) = Inr \<lparr>ji_mode = mode, lookup_id = to_hex (sha256 (bt n # urandom 29)), https_host = None, https_port = None\<rparr>"
    using decode_b64url [of "bt n # urandom 29" mode] n(1) u r unfolding n(3) by simp
  then show ?thesis by (rule that) (use False in simp_all)
qed

section \<open>Properties\<close>

text \<open>C32. A protocol envelope that is packed unpacks to the same document, for every document without
  floating-point numbers whose text has no lone surrogates; and an unpacked token is the only
  token for its bytes.\<close>

theorem envelope_roundtrip:
  assumes "json_doc v" and "jv_ok v" and "pack_protocol nfc v = Inr token"
  shows "unpack_protocol nfc token = Inr (jnorm v) \<and> token_bytes PROTOCOL_PREFIX token = json_bytes v
    \<and> (\<forall>other. startswith PROTOCOL_PREFIX other \<longrightarrow> token_bytes PROTOCOL_PREFIX other = json_bytes v \<longrightarrow> other = token)"
proof -
  have t: "token = asc PROTOCOL_PREFIX @ b64url (map bt (json_text v))"
    using assms(3) by (auto simp: pack_protocol_def Let_def json_bytes_ok [OF assms(2)])
  have "json_text v \<noteq> []" using opens_text [OF assms(2)] by (auto simp: opens_value_def)
  then have "token_bytes PROTOCOL_PREFIX token = json_bytes v"
    unfolding t json_bytes_ok [OF assms(2)] by (intro token_roundtrip) simp
  moreover have "other = token" if "startswith PROTOCOL_PREFIX other" "token_bytes PROTOCOL_PREFIX other = json_bytes v" for other
    using token_canonical [OF that(2) [unfolded json_bytes_ok [OF assms(2)]] that(1)] t by simp
  ultimately show ?thesis using envelope_back [OF assms] by blast
qed

definition sample_envelope :: pyval where
  "sample_envelope =
     jobj [(''schema'', jstr ''shadow6.protocol-envelope.v1''), (''version'', JInt 1), (''purpose'', jstr ''join''), (''core'', jstr ''go''),
           (''role'', jstr ''client''), (''identity'', jobj []), (''routes'', JList []), (''components'', jobj []), (''credentials'', jobj [])]"

lemma sample_envelope_plain: "plain_doc 16 sample_envelope" "length (json_text sample_envelope) \<le> 1000"
proof -
  show "plain_doc 16 sample_envelope"
    unfolding sample_envelope_def plain_doc_literal by (simp add: plain_doc_literal plain_asc plain_char_def)
  have "length (json_text (jstr k)) = length k + 2" if "list_all (\<lambda>c. plain_char (of_char c)) k" for k
    using length_asc_string [OF that] by simp
  moreover have "length (json_text (jobj [])) = 2" by (simp add: jobj_def)
  moreover have "length (json_text (JInt 1)) = 1" by (simp add: show_int_def show_nat.simps)
  ultimately show "length (json_text sample_envelope) \<le> 1000"
    unfolding sample_envelope_def by (subst length_json_literal) (simp_all add: plain_char_def del: json_text.simps, simp)
qed

lemma sample_envelope_packed: "\<exists>token. pack_protocol (\<lambda>s. s) sample_envelope = Inr token"
proof -
  note r = plain_doc_read [OF sample_envelope_plain(1) nfc_ok_id, of "int PROTOCOL_MAX_BYTES"]
  have "length (b64url (map bt (json_text sample_envelope))) \<le> 4 * ((1000 + 2) div 3)"
    by (rule order_trans [OF b64url_facts(4) mult_le_mono2 [OF div_le_mono]]) (use sample_envelope_plain(2) in simp)
  moreover have "check_envelope sample_envelope = Inr ()"
    by (simp add: sample_envelope_def check_envelope_def Let_def fld_jobj keys_in_def keys_are_def keys_jobj names_def envelope_fields_def
        core_id_ok_def matches_def envelope_roles_def is_list_def)
       (simp add: asc_def is_word_def is_lower_def is_upper_def is_digit_def scope_class_def jobj_def is_obj_def is_list_def)
  ultimately show ?thesis
    using r sample_envelope_plain(2) by (simp add: pack_protocol_def PROTOCOL_MAX_BYTES_def PROTOCOL_PREFIX_def)
qed

theorem envelope_roundtrip_witness:
  "\<exists>token. pack_protocol (\<lambda>s. s) sample_envelope = Inr token \<and> unpack_protocol (\<lambda>s. s) token = Inr (jnorm sample_envelope)"
proof -
  obtain token where t: "pack_protocol (\<lambda>s. s) sample_envelope = Inr token" using sample_envelope_packed by blast
  have b: "json_doc sample_envelope \<and> bounded (\<lambda>s. s) 65536 0 sample_envelope = Inr ()"
    by (rule plain_doc_bounded [OF sample_envelope_plain(1) nfc_ok_id]) simp
  have "jv_ok sample_envelope" using bounded_jv_ok b by blast
  from envelope_roundtrip [OF conjunct1 [OF b] this t] t show ?thesis by blast
qed

text \<open>C33. A join code that is issued decodes to the mode, address and port it was issued for, and a text
  that decodes is the one code of its 30 bytes.\<close>

theorem join_code_roundtrip:
  assumes "\<And>n. length (urandom n) = n" and "issue urandom mode host port = Inr code"
  shows "\<exists>info. decode_code (JStr code) = Inr info \<and> ji_mode info = mode
      \<and> https_host info = (if mode = ''ipv4-https'' then host else None)
      \<and> https_port info = (if mode = ''ipv4-https'' then map_option nat port else None)
      \<and> (\<forall>other. code_bytes other = code_bytes code \<longrightarrow> (\<exists>i. decode_code (JStr other) = Inr i) \<longrightarrow> other = code)"
proof -
  obtain info where info: "decode_code (JStr code) = Inr info" "ji_mode info = mode"
    "https_host info = (if mode = ''ipv4-https'' then host else None)"
    "https_port info = (if mode = ''ipv4-https'' then map_option nat port else None)"
    by (rule issue_decodes [OF assms])
  have c: "\<exists>raw. code_bytes x = Inr raw \<and> b64url raw = x" if "decode_code (JStr x) = Inr i" for x i
    using that by (auto simp: decode_code_def Let_def split: option.splits if_splits)
  have "other = code" if "code_bytes other = code_bytes code" "decode_code (JStr other) = Inr i" for other i
    using c [OF that(2)] c [OF info(1)] that(1) by auto
  then show ?thesis using info by blast
qed

theorem join_code_roundtrip_witness:
  "\<exists>code info. issue (\<lambda>n. replicate n 5) ''ipv4-https'' (Some (asc ''192.0.2.17'')) (Some 443) = Inr code
     \<and> decode_code (JStr code) = Inr info \<and> https_host info = Some (asc ''192.0.2.17'') \<and> https_port info = Some 443"
proof -
  have "parse_ipv4 (asc ''192.0.2.17'') = Some [192, 0, 2, 17]" by code_simp
  then obtain code where i: "issue (\<lambda>n. replicate n 5) ''ipv4-https'' (Some (asc ''192.0.2.17'')) (Some 443) = Inr code"
    by (simp add: issue_def MODES_def unreachable_ipv4_def)
  from join_code_roundtrip [OF _ this] i show ?thesis by fastforce
qed

end
