(* ===== verification/S6_Invite.thy ===== *)
theory S6_Invite
  imports S6_JoinCode
begin

text \<open>
  What an invitation grants, from \<^verbatim>\<open>src/Public6/join_code.py\<close>: the credentials of an envelope that
  \<^verbatim>\<open>resolve_protocol_envelope\<close> lets through, and the identity that \<^verbatim>\<open>provision\<close> enters into the broker
  and gate configurations, which is the one \<^verbatim>\<open>install_peer\<close> installs on the other side.
\<close>

section \<open>Verified credentials\<close>

text \<open>A credential that is current and whose signature, which may be missing only where it is not
  required, is one of its issuer over all its other fields.\<close>

definition credential_ok :: "signer \<Rightarrow> int \<Rightarrow> bool \<Rightarrow> string \<Rightarrow> pydict \<Rightarrow> bool" where
  "credential_ok sg now signed_only prefix d \<longleftrightarrow>
     credential_schema prefix \<noteq> None \<and> fld d ''schema'' = jstr (the (credential_schema prefix))
     \<and> names (credential_fields prefix) \<subseteq> set (keys d) \<and> set (keys d) \<subseteq> names (credential_fields prefix @ [''issuer'', ''signature''])
     \<and> is_int (fld d ''issued_at'') \<and> is_int (fld d ''expires_at'')
     \<and> the_int (fld d ''issued_at'') \<le> the_int (fld d ''expires_at'') \<and> now < the_int (fld d ''expires_at'')
     \<and> (if fld d ''issuer'' = JNull \<and> fld d ''signature'' = JNull then \<not> signed_only
        else \<exists>m. json_bytes (JObj (without ''signature'' d)) = Inr m
               \<and> sig_verify sg (from_hex (the_str (fld d ''issuer''))) (from_hex (the_str (fld d ''signature''))) m
               \<and> length (from_hex (the_str (fld d ''issuer''))) = 32 \<and> length (from_hex (the_str (fld d ''signature''))) = 64)"

lemma check_signature_Inr:
  "check_signature sg req d = Inr u \<Longrightarrow>
     (if fld d ''issuer'' = JNull \<and> fld d ''signature'' = JNull then \<not> req
      else \<exists>m. json_bytes (JObj (without ''signature'' d)) = Inr m
             \<and> sig_verify sg (from_hex (the_str (fld d ''issuer''))) (from_hex (the_str (fld d ''signature''))) m
             \<and> length (from_hex (the_str (fld d ''issuer''))) = 32 \<and> length (from_hex (the_str (fld d ''signature''))) = 64)"
  unfolding check_signature_def Let_def credential_bytes_def
  by (auto simp: hex_text_def length_from_hex split: if_splits)

lemma verify_credential_ok:
  assumes "verify_credential nfc sg now req prefix token = Inr d"
  shows "credential_ok sg now req prefix d"
proof -
  obtain v u where v: "the_obj v = d"
    "credential_schema prefix \<noteq> None" "fld (the_obj v) ''schema'' = jstr (the (credential_schema prefix))"
    "keys_in (credential_fields prefix @ [''issuer'', ''signature'']) (the_obj v)" "names (credential_fields prefix) \<subseteq> set (keys (the_obj v))"
    "is_int (fld (the_obj v) ''issued_at'')" "is_int (fld (the_obj v) ''expires_at'')"
    "\<not> the_int (fld (the_obj v) ''expires_at'') < the_int (fld (the_obj v) ''issued_at'')" "\<not> the_int (fld (the_obj v) ''expires_at'') \<le> now"
    "check_signature sg req (the_obj v) = Inr u"
    using assms unfolding verify_credential_def Let_def ebind_Inr raise_if_Inr sum.inject de_Morgan_disj not_not
    by (elim exE conjE) (rule that, assumption+)
  show ?thesis
    unfolding credential_ok_def using v(2-9) check_signature_Inr [OF v(10)] unfolding v(1) by (simp add: keys_in_def)
qed

definition authorizes :: "ustr \<Rightarrow> pyval \<Rightarrow> bool" where
  "authorizes x v \<longleftrightarrow> py_in x v = Inr True \<or> py_in (asc ''all'') v = Inr True"

lemma out_of_scope_False: "out_of_scope x v = Inr False \<Longrightarrow> authorizes x v"
  by (auto simp: out_of_scope_def authorizes_def split: if_splits)

text \<open>The passport of a caller that asks for a component and a role.\<close>

lemma passport_scope:
  assumes "require_credential_scope c r None d = Inr u" and "asc ''component'' \<notin> set (keys d)"
  shows "(case c of Some x \<Rightarrow> authorizes x (getd d ''components'' (JList [])) | None \<Rightarrow> True)
       \<and> (case r of Some x \<Rightarrow> authorizes x (getd d ''roles'' (JList [])) | None \<Rightarrow> True)"
  using assms unfolding require_credential_scope_def
  by (auto split: option.splits dest: out_of_scope_False)

lemma visa_scope:
  assumes "require_credential_scope c None a d = Inr u" and "asc ''component'' \<in> set (keys d)"
  shows "(case c of Some x \<Rightarrow> fld d ''component'' = JStr x | None \<Rightarrow> True)
       \<and> (case a of Some x \<Rightarrow> fld d ''audience'' \<in> {JNull, JStr x} | None \<Rightarrow> True)"
  using assms unfolding require_credential_scope_def by (auto split: option.splits)

lemma passport_keys: "credential_ok sg now req PASSPORT_PREFIX d \<Longrightarrow> asc ''component'' \<notin> set (keys d)"
  by (auto simp: credential_ok_def credential_fields_def names_def PASSPORT_PREFIX_def)

lemma visa_keys: "credential_ok sg now req VISA_PREFIX d \<Longrightarrow> asc ''component'' \<in> set (keys d)"
  by (auto simp: credential_ok_def credential_fields_def names_def PASSPORT_PREFIX_def VISA_PREFIX_def)

lemma resolve_credentials_ok:
  assumes "resolve_credentials nfc sg reach now req v = Inr cl"
  shows "(\<forall>p. cl_passport cl = Some p \<longrightarrow> credential_ok sg now req PASSPORT_PREFIX p)
       \<and> (\<forall>p. cl_visa cl = Some p \<longrightarrow> credential_ok sg now req VISA_PREFIX p)"
  using assms unfolding resolve_credentials_def Let_def
  by (auto split: if_splits dest: verify_credential_ok)

lemma check_visa_Inr:
  assumes "check_visa c a passport d = Inr u"
  shows "\<exists>p m. passport = Some p \<and> require_credential_scope c None a d = Inr ()
           \<and> py_eq (fld d ''subject'') (fld p ''subject'') \<and> fld d ''issuer'' = fld p ''issuer''
           \<and> json_bytes (JObj (without ''signature'' p)) = Inr m \<and> fld d ''passport_digest'' = JStr (to_hex (sha256 m))"
  using assms unfolding check_visa_def credential_bytes_def by (auto split: option.splits)

section \<open>The identity of an invitation\<close>

lemma fld_dset: "fld (dset (asc k) v d) j = (if j = k then v else fld d j)"
  by (simp add: fld_def getd_def map_of_dset)

lemma fld_append_field: "fld (append_field k v d) j = (if j = k then JList (the_list (fld d k) @ [v]) else fld d j)"
  by (simp add: append_field_def fld_dset)

lemma the_list_JList [simp]: "the_list (JList xs) = xs" and the_obj_JObj [simp]: "the_obj (JObj d) = d"
  by (simp_all add: the_list_def the_obj_def)

lemma find_changed:
  assumes "find (\<lambda>t. fld (the_obj t) ''id'' = JStr tid) ts = Some t" and "\<And>d. fld (f d) ''id'' = fld d ''id''"
  shows "find (\<lambda>t. fld (the_obj t) ''id'' = JStr tid) (change_tenant tid f ts) = Some (JObj (f (the_obj t)))"
  using assms by (induction ts) (auto split: if_splits)

lemma enroll_Inr:
  assumes "enroll tenant admission pid approve broker = Inr broker1"
    and "find (\<lambda>t. fld (the_obj t) ''id'' = JStr tenant) (the_list (fld broker ''tenants'')) = Some t"
  shows "\<exists>t1. find (\<lambda>t. fld (the_obj t) ''id'' = JStr tenant) (the_list (fld broker1 ''tenants'')) = Some t1
      \<and> JStr (b64encode (from_hex admission)) \<in> set (the_list (fld (the_obj t1) ''public_keys''))
      \<and> fld (the_obj t1) ''approval'' = fld (the_obj t) ''approval''
      \<and> (approve \<longrightarrow> (\<forall>role \<in> {''client'', ''agent''}.
             jobj [(''tenant'', JStr tenant), (''client'', JStr (invite_name pid role))] \<in> set (the_list (fld broker1 ''approvals''))))"
proof -
  let ?key = "JStr (b64encode (from_hex admission))" and ?find = "find (\<lambda>t. fld (the_obj t) ''id'' = JStr tenant)"
  let ?ts = "change_tenant tenant (append_field ''public_keys'' ?key) (the_list (fld broker ''tenants''))"
  have f: "?find ?ts = Some (JObj (append_field ''public_keys'' ?key (the_obj t)))"
    by (rule find_changed [OF assms(2)]) (simp add: fld_append_field)
  have b: "fld broker1 ''tenants'' = JList ?ts"
    "approve \<longrightarrow> (\<forall>role \<in> {''client'', ''agent''}.
       jobj [(''tenant'', JStr tenant), (''client'', JStr (invite_name pid role))] \<in> set (the_list (fld broker1 ''approvals'')))"
    using assms(1) by (auto simp: enroll_def Let_def fld_dset fld_append_field split: if_splits)
  show ?thesis
    by (intro exI [of _ "JObj (append_field ''public_keys'' ?key (the_obj t))"]) (use f b in \<open>simp add: fld_append_field\<close>)
qed

lemma peer_key_Inr: "peer_key sg code purpose = Inr k \<Longrightarrow> \<exists>seed. peer_seed code purpose = Inr seed \<and> k = to_hex (sig_public sg seed)"
  by (auto simp: peer_key_def)

lemma provision_Inr:
  assumes "provision nfc sg reach urandom gate_file public_address mode tenant loaded broker gate_paths public_host host port native_keys agents = Inr r"
  obtains seed gate_seed pid t where
    "peer_seed (JStr (pr_code r)) (asc ''admission'') = Inr seed" "peer_seed (JStr (pr_code r)) (asc ''gate'') = Inr gate_seed"
    "profile_id (JStr (pr_code r)) = Inr pid"
    "find (\<lambda>t. fld (the_obj t) ''id'' = JStr tenant) (the_list (fld broker ''tenants'')) = Some t"
    "enroll tenant (to_hex (sig_public sg seed)) pid (fld (the_obj t) ''approval'' = jstr ''approval-required'') broker = Inr (pr_broker r)"
    "list_all (\<lambda>(c, g). JStr (to_hex (sig_public sg gate_seed)) \<in> set (the_list (fld g ''peer_public_keys''))) (pr_gates r)"
    "fld (the_obj (pr_profile r)) ''tenant'' = JStr tenant"
proof -
  obtain t gates code admission gate_public pid broker1 where p:
    "find (\<lambda>t. fld (the_obj t) ''id'' = JStr tenant) (the_list (fld broker ''tenants'')) = Some t"
    "peer_key sg (JStr code) (asc ''admission'') = Inr admission" "peer_key sg (JStr code) (asc ''gate'') = Inr gate_public"
    "profile_id (JStr code) = Inr pid" "pr_code r = code"
    "enroll tenant admission pid (fld (the_obj t) ''approval'' = jstr ''approval-required'') broker = Inr broker1" "pr_broker r = broker1"
    "pr_gates r = map (\<lambda>(c, g). (c, append_field ''peer_public_keys'' (JStr gate_public) g)) gates"
    "fld (the_obj (pr_profile r)) ''tenant'' = JStr tenant"
    using assms unfolding provision_def Let_def
    by (auto simp: fld_jobj split: option.splits prod.splits)
  have "list_all (\<lambda>(c, g). JStr gate_public \<in> set (the_list (fld g ''peer_public_keys''))) (pr_gates r)"
    unfolding p(8) list_all_iff by (auto simp: fld_append_field)
  then show thesis using that p peer_key_Inr by metis
qed

lemma install_peer_Inr:
  assumes "install_peer nfc sg reach code profile core role dir gate_port peer_port = Inr inst"
  obtains gate_seed pid where
    "peer_seed (JStr code) (asc ''admission'') = Inr (in_admission_seed inst)" "peer_seed (JStr code) (asc ''gate'') = Inr gate_seed"
    "profile_id (JStr code) = Inr pid" "role \<in> {''client'', ''agent''}"
    "fld (the_obj (in_gate inst)) ''private_key'' = JStr (to_hex gate_seed)"
    "fld (the_obj (in_peer inst)) ''identity'' = JStr (invite_name pid role)"
    "fld (the_obj (in_peer inst)) ''tenant'' = JStr (the_str (fld (the_obj profile) ''tenant''))"
proof -
  obtain r where r: "find (\<lambda>r. fld (the_obj r) ''core'' = JStr core) (the_list (fld (the_obj profile) ''routes'')) = Some r"
    using assms unfolding install_peer_def ebind_Inr by (auto split: option.splits)
  obtain gs pid as cs where i: "peer_seed (JStr code) (asc ''gate'') = Inr gs" "profile_id (JStr code) = Inr pid"
    "peer_seed (JStr code) (asc ''admission'') = Inr as" "\<not> role \<notin> {''client'', ''agent''}"
    "\<lparr>in_admission_seed = as, in_core_seed = cs,
       in_gate = gate_client (route_items (the_obj r)) (JInt gate_port) (to_hex gs) (the_int (fld (the_obj r) ''gate_port'')),
       in_peer = peer_document (asc role) core (dir @ asc ''/admission.seed'') (asc ''127.0.0.1'', peer_port) (asc ''127.0.0.1'', gate_port)
                   (the_str (fld (the_obj profile) ''tenant'')) (invite_name pid role) (the_str (fld (the_obj r) ''transport'')) 32 120\<rparr> = inst"
    using assms unfolding install_peer_def r option.case ebind_Inr raise_if_Inr sum.inject by (elim exE conjE) (rule that, assumption+)
  show thesis
    by (rule that [of gs pid]) (use i in \<open>auto simp: gate_client_def peer_document_def fld_jobj Let_def\<close>)
qed

lemma loaded_key:
  assumes "load_tenant env v ts = Inr ts'" and "JStr (b64encode k) \<in> set (the_list (fld (the_obj v) ''public_keys''))"
  shows "\<exists>t. map_of ts' (the_str (fld (the_obj v) ''id'')) = Some t \<and> k \<in> set (public_keys t)"
proof -
  obtain ks a b c e where ks: "emap (\<lambda>x. b64decode (the_str x)) (the_list (fld (the_obj v) ''public_keys'')) = Inr ks"
    and t: "dset (the_str (fld (the_obj v) ''id'')) \<lparr>tenant_id = the_str (fld (the_obj v) ''id''), public_keys = ks, approval = a,
              max_connections = b, bytes_per_second = c, burst_bytes = e\<rparr> ts = ts'"
    using assms(1) unfolding load_tenant_def Let_def ebind_Inr sum.inject by (elim exE conjE) (rule that, assumption+)
  have "k \<in> set ks"
    using ks assms(2) unfolding emap_Inr list_all2_conv_all_nth in_set_conv_nth by (force simp: the_str_def)
  then show ?thesis unfolding t [symmetric] by (simp add: map_of_dset)
qed

section \<open>Properties\<close>


text \<open>C34. The peer that is installed from an invitation is the one that was provisioned: the tenant of the
  new broker document has the public key of the installed admission seed, also once the broker has
  loaded it; where the tenant requires approval the document approves the identity of the peer; and
  every gate has the public key of the gate seed.\<close>

theorem invited_peer_enrolled:
  "case provision nfc sg reach urandom gate_file public_address mode tenant loaded broker gate_paths public_host host port native_keys agents of
     Inl _ \<Rightarrow> True
   | Inr r \<Rightarrow>
       (case install_peer nfc sg reach (pr_code r) (pr_profile r) core role dir gate_port peer_port of
          Inl _ \<Rightarrow> True
        | Inr inst \<Rightarrow>
            fld (the_obj (in_peer inst)) ''tenant'' = JStr tenant
            \<and> (\<exists>t gate_seed.
                 find (\<lambda>t. fld (the_obj t) ''id'' = JStr tenant) (the_list (fld (pr_broker r) ''tenants'')) = Some t
               \<and> JStr (b64encode (sig_public sg (in_admission_seed inst))) \<in> set (the_list (fld (the_obj t) ''public_keys''))
               \<and> (case load_tenant env t ts of
                    Inl _ \<Rightarrow> True
                  | Inr ts' \<Rightarrow> (\<exists>x. map_of ts' tenant = Some x \<and> sig_public sg (in_admission_seed inst) \<in> set (public_keys x)))
               \<and> (if fld (the_obj t) ''approval'' = jstr ''approval-required''
                  then jobj [(''tenant'', JStr tenant), (''client'', fld (the_obj (in_peer inst)) ''identity'')]
                         \<in> set (the_list (fld (pr_broker r) ''approvals''))
                  else True)
               \<and> fld (the_obj (in_gate inst)) ''private_key'' = JStr (to_hex gate_seed)
               \<and> list_all (\<lambda>(c, g). JStr (to_hex (sig_public sg gate_seed)) \<in> set (the_list (fld g ''peer_public_keys''))) (pr_gates r)))"
proof (cases "provision nfc sg reach urandom gate_file public_address mode tenant loaded broker gate_paths public_host host port native_keys agents")
  case pr: (Inr r)
  show ?thesis
  proof (cases "install_peer nfc sg reach (pr_code r) (pr_profile r) core role dir gate_port peer_port")
    case inst: (Inr inst)
    obtain seed gs pid t where p:
      "peer_seed (JStr (pr_code r)) (asc ''admission'') = Inr seed" "peer_seed (JStr (pr_code r)) (asc ''gate'') = Inr gs"
      "profile_id (JStr (pr_code r)) = Inr pid"
      "find (\<lambda>t. fld (the_obj t) ''id'' = JStr tenant) (the_list (fld broker ''tenants'')) = Some t"
      "enroll tenant (to_hex (sig_public sg seed)) pid (fld (the_obj t) ''approval'' = jstr ''approval-required'') broker = Inr (pr_broker r)"
      "list_all (\<lambda>(c, g). JStr (to_hex (sig_public sg gs)) \<in> set (the_list (fld g ''peer_public_keys''))) (pr_gates r)"
      "fld (the_obj (pr_profile r)) ''tenant'' = JStr tenant"
      by (rule provision_Inr [OF pr])
    obtain gs' pid' where i0: "peer_seed (JStr (pr_code r)) (asc ''admission'') = Inr (in_admission_seed inst)"
      "peer_seed (JStr (pr_code r)) (asc ''gate'') = Inr gs'" "profile_id (JStr (pr_code r)) = Inr pid'" "role \<in> {''client'', ''agent''}"
      "fld (the_obj (in_gate inst)) ''private_key'' = JStr (to_hex gs')"
      "fld (the_obj (in_peer inst)) ''identity'' = JStr (invite_name pid' role)"
      "fld (the_obj (in_peer inst)) ''tenant'' = JStr (the_str (fld (the_obj (pr_profile r)) ''tenant''))"
      by (rule install_peer_Inr [OF inst])
    have i: "in_admission_seed inst = seed" "gs' = gs" "pid' = pid" using i0(1-3) p(1-3) by simp_all
    have tn: "fld (the_obj (in_peer inst)) ''tenant'' = JStr tenant" using i0(7) p(7) by (simp add: the_str_def)
    obtain t1 where t: "find (\<lambda>t. fld (the_obj t) ''id'' = JStr tenant) (the_list (fld (pr_broker r) ''tenants'')) = Some t1"
      "JStr (b64encode (sig_public sg seed)) \<in> set (the_list (fld (the_obj t1) ''public_keys''))"
      "fld (the_obj t1) ''approval'' = fld (the_obj t) ''approval''"
      "fld (the_obj t) ''approval'' = jstr ''approval-required'' \<Longrightarrow>
         jobj [(''tenant'', JStr tenant), (''client'', JStr (invite_name pid role))] \<in> set (the_list (fld (pr_broker r) ''approvals''))"
      using enroll_Inr [OF p(5,4)] i0(4) by auto
    have tid: "the_str (fld (the_obj t1) ''id'') = tenant" using t(1) by (auto simp: find_Some_iff the_str_def)
    have l: "case load_tenant env t1 ts of Inl _ \<Rightarrow> True | Inr ts' \<Rightarrow> (\<exists>x. map_of ts' tenant = Some x \<and> sig_public sg seed \<in> set (public_keys x))"
      using loaded_key [OF _ t(2), of env ts] tid by (auto split: sum.split)
    have c: "if fld (the_obj t1) ''approval'' = jstr ''approval-required''
        then jobj [(''tenant'', JStr tenant), (''client'', fld (the_obj (in_peer inst)) ''identity'')] \<in> set (the_list (fld (pr_broker r) ''approvals''))
        else True"
      using t(3,4) i(3) i0(6) by simp
    show ?thesis
      unfolding pr inst sum.case i(1) using tn t(1,2) l c i0(5) [unfolded i(2)] p(6) by blast
  qed (simp add: pr)
qed simp

end
