(* ===== verification/S6_Plugins.thy ===== *)
theory S6_Plugins
  imports S6_Plain S6_Crypto S6_Files "HOL-Library.Multiset"
begin

text \<open>
  The signed plugin runner, \<^verbatim>\<open>src/Plugin-System/shadow6_plugins.py\<close>: the canonical encoding of
  documents, the guarded read, the trust store, the loading of a plugin, the run of a plugin, the
  dispatch of hooks and the request/response session \<^verbatim>\<open>PluginRPCSession\<close>.

  The file system is a parameter, the views \<^typ>\<open>fview\<close> that the guarded reads see, and so is the
  child process: its outcome is a function of the code, the input and the time limit. \<open>nfc\<close> is
  Unicode normalisation and \<open>sg\<close> is Ed25519.
\<close>

section \<open>Names\<close>

definition id_char :: "nat \<Rightarrow> bool" where
  "id_char c \<longleftrightarrow> is_lower c \<or> is_digit c \<or> c = 45"

text \<open>\<^verbatim>\<open>ID_RE\<close>, \<^verbatim>\<open>VERSION_RE\<close>, \<^verbatim>\<open>CAPABILITY_RE\<close>, the file name of an entry point and the method of a request.\<close>

definition ID_RE :: "ustr \<Rightarrow> bool" where
  "ID_RE s \<longleftrightarrow> 2 \<le> length s \<and> length s \<le> 64 \<and> is_lower (hd s) \<and> list_all id_char (tl s)"

definition VERSION_RE :: "ustr \<Rightarrow> bool" where
  "VERSION_RE s \<longleftrightarrow>
     (let core = takeWhile (\<lambda>c. c \<noteq> 45) s; rest = dropWhile (\<lambda>c. c \<noteq> 45) s; parts = split_on 46 core in
      length parts = 3 \<and> list_all (\<lambda>p. p \<noteq> [] \<and> list_all is_digit p) parts
      \<and> (rest = [] \<or> (2 \<le> length rest \<and> list_all (\<lambda>c. id_char c \<or> c = 46) (tl rest))))"

definition CAPABILITY_RE :: "ustr \<Rightarrow> bool" where
  "CAPABILITY_RE s \<longleftrightarrow>
     (let parts = split_on 46 s in 2 \<le> length parts \<and> list_all (\<lambda>p. p \<noteq> [] \<and> is_lower (hd p) \<and> list_all id_char (tl p)) parts)"

definition entry_name_ok :: "ustr \<Rightarrow> bool" where
  "entry_name_ok s \<longleftrightarrow>
     (let n = length s - 3; stem = take n s in
      4 \<le> length s \<and> length s \<le> 131 \<and> drop n s = asc ''.py'' \<and> is_word (hd stem) \<and> list_all (\<lambda>c. is_word c \<or> one_of ''_.-'' c) (tl stem))"

definition method_ok :: "ustr \<Rightarrow> bool" where
  "method_ok s \<longleftrightarrow>
     startswith ''plugin.'' s \<and>
     (let t = drop 7 s in 1 \<le> length t \<and> length t \<le> 64 \<and> is_lower (hd t) \<and> list_all (\<lambda>c. is_lower c \<or> is_digit c \<or> one_of ''_.-'' c) (tl t))"

definition KNOWN_CAPABILITIES :: "ustr list" where
  "KNOWN_CAPABILITIES = map asc
     [''game.local'', ''hook.mtd.before'', ''hook.mtd.after'', ''rpc.target.authorize'', ''telemetry.read'',
      ''slot.lifecycle.before-start'', ''slot.lifecycle.after-stop'', ''slot.config.validate'',
      ''slot.transport.observe'', ''slot.transport.transform'', ''slot.protocol.factory'',
      ''slot.chat.filter'', ''slot.identity.verify'', ''slot.security.policy'',
      ''slot.telemetry.sink'', ''slot.assistant.eye'', ''slot.assistant.hand'',
      ''slot.init.decorate'', ''slot.ui.panel'']"

section \<open>Documents\<close>

text \<open>Exceptions that are a \<^verbatim>\<open>ValueError\<close> become a \<^verbatim>\<open>PluginError\<close>.\<close>

definition or_plugin_error :: "'a res \<Rightarrow> string \<Rightarrow> 'a res" where
  "or_plugin_error m msg = (case m of Inl e \<Rightarrow> Inl (if is_value_error e then PluginError msg else e) | Inr x \<Rightarrow> Inr x)"

text \<open>The nested function \<^verbatim>\<open>check\<close> of \<^verbatim>\<open>canonical\<close>, which threads the budget; first on a string.\<close>

definition check_text :: "nat \<Rightarrow> ustr \<Rightarrow> nat \<Rightarrow> nat res" where
  "check_text depth s budget =
     ebind (raise_if (1048576 < budget + 1) (PluginError ''JSON document exceeds size limit'')) (\<lambda>_.
     ebind (raise_if (32 < depth) (PluginError ''manifest nesting is excessive or contains a float'')) (\<lambda>_.
     ebind (or_plugin_error (utf8_encode s) ''invalid Unicode scalar'') (\<lambda>b.
     ebind (raise_if (65536 < length b \<or> 0 \<in> set s) (PluginError ''JSON string exceeds safety or size limit'')) (\<lambda>_.
       Inr (budget + 1 + length b)))))"

fun check_value :: "nat \<Rightarrow> pyval \<Rightarrow> nat \<Rightarrow> nat res" where
  "check_value depth v budget =
     (case v of
        JStr s \<Rightarrow> check_text depth s budget
      | _ \<Rightarrow>
          ebind (raise_if (1048576 < budget + 1) (PluginError ''JSON document exceeds size limit'')) (\<lambda>_.
          ebind (raise_if (32 < depth \<or> (case v of JFloat _ \<Rightarrow> True | _ \<Rightarrow> False)) (PluginError ''manifest nesting is excessive or contains a float'')) (\<lambda>_.
          (case v of
             JObj d \<Rightarrow>
               efold (\<lambda>(k, child) b.
                 ebind (raise_if (256 < length k) (PluginError ''invalid manifest key'')) (\<lambda>_.
                 ebind (check_text (depth + 1) k b) (check_value (depth + 1) child))) d (budget + 1)
           | JList xs \<Rightarrow> efold (check_value (depth + 1)) xs (budget + 1)
           | JInt i \<Rightarrow> ebind (raise_if (max_portable < abs i) (PluginError ''integer is not exactly portable'')) (\<lambda>_. Inr (budget + 1))
           | _ \<Rightarrow> Inr (budget + 1)))))"

declare check_value.simps [simp del]

definition plugin_canonical :: "(ustr \<Rightarrow> ustr) \<Rightarrow> pyval \<Rightarrow> bytes res" where
  "plugin_canonical nfc v =
     ebind (check_value 0 v 0) (\<lambda>_.
     ebind (json_bytes v) (\<lambda>encoded.
     ebind (raise_if (1048576 < length encoded) (PluginError ''JSON document exceeds size limit'')) (\<lambda>_.
     ebind (or_plugin_error (portable_json nfc 1048576 (BytesIn encoded)) ''invalid portable JSON'') (\<lambda>_.
       Inr encoded))))"

definition plugin_json :: "(ustr \<Rightarrow> ustr) \<Rightarrow> nat \<Rightarrow> jinput \<Rightarrow> pyval res" where
  "plugin_json nfc limit data =
     ebind (raise_if (limit < (case data of TextIn t \<Rightarrow> length t | BytesIn b \<Rightarrow> length b | OtherIn \<Rightarrow> 0)) (PluginError ''JSON document exceeds size limit'')) (\<lambda>_.
     ebind (or_plugin_error
             (case data of
                BytesIn b \<Rightarrow> ebind (utf8_decode b) (\<lambda>t. portable_json nfc (int limit) (TextIn t))
              | _ \<Rightarrow> portable_json nfc (int limit) data) ''invalid UTF-8 JSON'') (\<lambda>v.
     ebind (raise_if (\<not> is_obj v) (PluginError ''JSON document must be an object'')) (\<lambda>_.
     ebind (plugin_canonical nfc v) (\<lambda>_.
       Inr v))))"

section \<open>The guarded read\<close>

definition check_stat :: "nat \<Rightarrow> nat \<Rightarrow> bool \<Rightarrow> fstat \<Rightarrow> unit res" where
  "check_stat euid limit secret info =
     ebind (raise_if (\<not> s_isreg info \<or> limit < st_size info) (PluginError ''file must be bounded and regular'')) (\<lambda>_.
     ebind (raise_if (st_uid info \<notin> (if secret then {euid} else {0, euid}) \<or> group_other_writable info)
             (PluginError ''file must be owner-controlled and not group/other writable'')) (\<lambda>_.
     raise_if (secret \<and> s_imode info \<noteq> owner_rw) (PluginError ''private key must have mode 0600'')))"

definition secure_read :: "nat \<Rightarrow> nat \<Rightarrow> bool \<Rightarrow> fview option \<Rightarrow> bytes res" where
  "secure_read euid limit secret file =
     (case file of
        None \<Rightarrow> Inl (FileNotFoundError ''No such file or directory'')
      | Some v \<Rightarrow>
          ebind (check_stat euid limit secret (before v)) (\<lambda>_.
          ebind (check_stat euid limit secret (opened v)) (\<lambda>_.
          ebind (raise_if ((st_dev (before v), st_ino (before v)) \<noteq> (st_dev (opened v), st_ino (opened v))) (PluginError ''file changed while opening'')) (\<lambda>_.
          let data = os_read v 0 (limit + 1) in
          ebind (check_stat euid limit secret (after v)) (\<lambda>_.
          ebind (raise_if (limit < length data \<or> (st_size (opened v), st_mtime_ns (opened v), st_ctime_ns (opened v))
                                            \<noteq> (st_size (after v), st_mtime_ns (after v), st_ctime_ns (after v)))
                  (PluginError ''file grew or changed during read'')) (\<lambda>_.
            Inr data))))))"

section \<open>The registry\<close>

definition signed_payload :: "(ustr \<Rightarrow> ustr) \<Rightarrow> pydict \<Rightarrow> bytes res" where
  "signed_payload nfc d = plugin_canonical nfc (JObj (without ''signature'' d))"

definition signer_entry :: "ustr \<times> pyval \<Rightarrow> (ustr \<times> bytes) list \<Rightarrow> (ustr \<times> bytes) list res" where
  "signer_entry e result =
     (case e of (name, public_hex) \<Rightarrow>
        ebind (raise_if (\<not> ID_RE name) (PluginError ''trust store contains an invalid signer name'')) (\<lambda>_.
        ebind (raise_if (\<not> is_str public_hex \<or> \<not> hex_text 64 (the_str public_hex)) (PluginError ''invalid public key for signer'')) (\<lambda>_.
        ebind (raise_if (length (from_hex (the_str public_hex)) \<noteq> 32) (PluginError ''invalid Ed25519 public key length for signer'')) (\<lambda>_.
          Inr (dset name (from_hex (the_str public_hex)) result)))))"

definition load_trust_store :: "(ustr \<Rightarrow> ustr) \<Rightarrow> nat \<Rightarrow> fview option \<Rightarrow> (ustr \<times> bytes) list res" where
  "load_trust_store nfc euid file =
     ebind (secure_read euid 65536 False file) (\<lambda>raw.
     ebind (plugin_json nfc 65536 (BytesIn raw)) (\<lambda>document.
     let signers = fld (the_obj document) ''signers'' in
     ebind (raise_if (\<not> keys_are [''signers''] (the_obj document) \<or> \<not> is_obj signers
                      \<or> \<not> (1 \<le> length (the_obj signers) \<and> length (the_obj signers) \<le> 256))
             (PluginError ''trust store must contain at least one signer'')) (\<lambda>_.
     efold signer_entry (the_obj signers) [])))"

record registry =
  trusted_signers :: "(ustr \<times> bytes) list"
  granted_capabilities :: "ustr list"

text \<open>\<^verbatim>\<open>PluginRegistry.__init__\<close>; the root directory as its link test and the metadata of the resolved path.\<close>

definition registry_init :: "(ustr \<Rightarrow> ustr) \<Rightarrow> nat \<Rightarrow> bool \<Rightarrow> fstat \<Rightarrow> fview option \<Rightarrow> ustr list \<Rightarrow> registry res" where
  "registry_init nfc euid root_link root_stat store granted =
     ebind (raise_if root_link (PluginError ''plugin root must not be a symlink'')) (\<lambda>_.
     ebind (raise_if (\<not> s_isdir root_stat \<or> st_uid root_stat \<notin> {0, euid} \<or> st_mode root_stat div 2 mod 2 = 1)
             (PluginError ''plugin root must be an owner-controlled directory'')) (\<lambda>_.
     ebind (load_trust_store nfc euid store) (\<lambda>signers.
     ebind (raise_if (\<not> set granted \<subseteq> set KNOWN_CAPABILITIES) (PluginError ''unknown granted capabilities'')) (\<lambda>_.
       Inr \<lparr>trusted_signers = signers, granted_capabilities = granted\<rparr>))))"

text \<open>A name in the plugin root: whether it is a link and a directory, whether the resolved path
  is still a child of the root, and its files.\<close>

record plugin_dir =
  pd_link :: bool
  pd_dir :: bool
  pd_inside :: bool
  pd_file :: "ustr \<Rightarrow> fview option"

type_synonym plugin_root = "(ustr \<times> plugin_dir) list"

definition discover :: "plugin_root \<Rightarrow> ustr list" where
  "discover root =
     sort (map fst (filter (\<lambda>(_, d). pd_dir d \<and> \<not> pd_link d
       \<and> (case pd_file d (asc ''plugin.json'') of Some v \<Rightarrow> s_isreg (opened v) | None \<Rightarrow> False)) root))"

record manifest =
  plugin_id :: ustr
  mf_name :: ustr
  mf_version :: ustr
  entrypoint :: ustr
  capabilities :: "ustr list"
  mf_hooks :: "ustr list"
  timeout_seconds :: int
  max_output_bytes :: int
  mf_signer :: ustr
  code :: bytes

definition manifest_fields :: "string list" where
  "manifest_fields = [''schema_version'', ''id'', ''name'', ''version'', ''runtime'', ''entrypoint'', ''capabilities'', ''hooks'',
     ''timeout_seconds'', ''max_output_bytes'', ''sha256'', ''signer'', ''signature'']"

text \<open>A list of at most 32 capability names.\<close>

definition capability_names :: "pyval \<Rightarrow> bool" where
  "capability_names v \<longleftrightarrow> is_list v \<and> length (the_list v) \<le> 32 \<and> list_all (\<lambda>x. is_str x \<and> CAPABILITY_RE (the_str x)) (the_list v)"

abbreviation texts :: "pyval \<Rightarrow> ustr list" where
  "texts v \<equiv> map the_str (the_list v)"

text \<open>\<^verbatim>\<open>PluginRegistry.load\<close> in the order of the code: the identity of the plugin, its
  capabilities, its limits and its signature.\<close>

definition check_identity :: "ustr \<Rightarrow> pydict \<Rightarrow> unit res" where
  "check_identity pid d =
     ebind (raise_if (\<not> keys_are manifest_fields d) (PluginError ''manifest fields differ from schema'')) (\<lambda>_.
     ebind (raise_if (fld d ''schema_version'' \<noteq> JInt 1 \<or> fld d ''runtime'' \<noteq> jstr ''python3'') (PluginError ''unsupported plugin schema or runtime'')) (\<lambda>_.
     ebind (raise_if (fld d ''id'' \<noteq> JStr pid) (PluginError ''manifest id does not match its directory'')) (\<lambda>_.
     ebind (raise_if (\<not> str_len 1 100 (fld d ''name'')) (PluginError ''invalid plugin display name'')) (\<lambda>_.
     ebind (raise_if (\<not> is_str (fld d ''version'') \<or> \<not> VERSION_RE (the_str (fld d ''version''))) (PluginError ''invalid plugin version'')) (\<lambda>_.
     raise_if (\<not> is_str (fld d ''entrypoint'') \<or> \<not> entry_name_ok (the_str (fld d ''entrypoint''))) (PluginError ''entrypoint must be a local Python filename''))))))"

definition check_capabilities :: "registry \<Rightarrow> pydict \<Rightarrow> unit res" where
  "check_capabilities reg d =
     (let caps = fld d ''capabilities''; hooks = fld d ''hooks'' in
      ebind (raise_if (\<not> capability_names caps) (PluginError ''invalid capability list'')) (\<lambda>_.
      ebind (raise_if (\<not> distinct (texts caps)) (PluginError ''duplicate plugin capability'')) (\<lambda>_.
      ebind (raise_if (\<not> set (texts caps) \<subseteq> set KNOWN_CAPABILITIES) (PluginError ''unknown plugin capabilities'')) (\<lambda>_.
      ebind (raise_if (\<not> set (texts caps) \<subseteq> set (granted_capabilities reg)) (PluginError ''plugin capabilities were not granted'')) (\<lambda>_.
      ebind (raise_if (\<not> capability_names hooks) (PluginError ''invalid hook list'')) (\<lambda>_.
      raise_if (\<not> distinct (texts hooks) \<or> \<not> set (texts hooks) \<subseteq> set (texts caps))
        (PluginError ''hooks must be unique and have matching signed capabilities'')))))))"

definition check_manifest_signature :: "(ustr \<Rightarrow> ustr) \<Rightarrow> signer \<Rightarrow> registry \<Rightarrow> pydict \<Rightarrow> unit res" where
  "check_manifest_signature nfc sg reg d =
     (let s = fld d ''signer''; sig = fld d ''signature''; failure = PluginError ''plugin manifest signature verification failed'' in
      ebind (raise_if (\<not> is_str s \<or> \<not> ID_RE (the_str s)) (PluginError ''invalid signer'')) (\<lambda>_.
      (case map_of (trusted_signers reg) (the_str s) of
         None \<Rightarrow> Inl (PluginError ''untrusted plugin signer'')
       | Some public_key \<Rightarrow>
           ebind (raise_if (\<not> is_str sig \<or> \<not> hex_text 128 (the_str sig)) failure) (\<lambda>_.
           ebind (signed_payload nfc d) (\<lambda>payload.
           raise_if (\<not> sig_verify sg public_key (from_hex (the_str sig)) payload) failure)))))"

definition load_plugin ::
  "(ustr \<Rightarrow> ustr) \<Rightarrow> signer \<Rightarrow> nat \<Rightarrow> plugin_root \<Rightarrow> registry \<Rightarrow> ustr \<Rightarrow> manifest res" where
  "load_plugin nfc sg euid root reg pid =
     ebind (raise_if (\<not> ID_RE pid) (PluginError ''invalid plugin id'')) (\<lambda>_.
     (case map_of root pid of
        None \<Rightarrow> Inl (FileNotFoundError ''No such file or directory'')
      | Some dir \<Rightarrow>
          ebind (raise_if (pd_link dir) (PluginError ''plugin directory must not be a symlink'')) (\<lambda>_.
          ebind (raise_if (\<not> pd_inside dir) (PluginError ''plugin directory escapes the configured root'')) (\<lambda>_.
          ebind (secure_read euid 65536 False (pd_file dir (asc ''plugin.json''))) (\<lambda>raw.
          ebind (plugin_json nfc 65536 (BytesIn raw)) (\<lambda>document.
          let d = the_obj document; entry = the_str (fld d ''entrypoint''); digest = fld d ''sha256'' in
          ebind (check_identity pid d) (\<lambda>_.
          ebind (secure_read euid 1048576 False (pd_file dir entry)) (\<lambda>source.
          ebind (raise_if (\<not> is_str digest \<or> \<not> hex_text 64 (the_str digest)) (PluginError ''invalid plugin code digest'')) (\<lambda>_.
          ebind (raise_if (to_hex (sha256 source) \<noteq> the_str digest) (PluginError ''plugin code digest mismatch'')) (\<lambda>_.
          ebind (check_capabilities reg d) (\<lambda>_.
          ebind (raise_if (\<not> int_in 1 30 (fld d ''timeout_seconds'')) (PluginError ''plugin timeout must be between 1 and 30 seconds'')) (\<lambda>_.
          ebind (raise_if (\<not> int_in 1024 1048576 (fld d ''max_output_bytes'')) (PluginError ''plugin output limit is out of range'')) (\<lambda>_.
          ebind (check_manifest_signature nfc sg reg d) (\<lambda>_.
            Inr \<lparr>plugin_id = pid, mf_name = the_str (fld d ''name''), mf_version = the_str (fld d ''version''), entrypoint = entry,
                 capabilities = texts (fld d ''capabilities''), mf_hooks = texts (fld d ''hooks''),
                 timeout_seconds = the_int (fld d ''timeout_seconds''), max_output_bytes = the_int (fld d ''max_output_bytes''),
                 mf_signer = the_str (fld d ''signer''), code = source\<rparr>))))))))))))))"

section \<open>Running a plugin\<close>

text \<open>What becomes of the isolated child that gets the code, the input and the time limit.\<close>

datatype outcome = NoIsolation | SpawnFailed string | TimedOut | Exited int bytes bytes

type_synonym child = "bytes \<Rightarrow> bytes \<Rightarrow> int \<Rightarrow> outcome"

text \<open>\<^verbatim>\<open>len(xs) == len(set(xs))\<close> for a list of decoded values; lists and objects cannot be put into a set.\<close>

fun py_distinct :: "pyval list \<Rightarrow> bool" where
  "py_distinct [] = True"
| "py_distinct (x # xs) = (\<not> list_ex (py_eq x) xs \<and> py_distinct xs)"

definition unhashable :: "pyval \<Rightarrow> bool" where
  "unhashable v \<longleftrightarrow> is_list v \<or> is_obj v"

definition read_response :: "(ustr \<Rightarrow> ustr) \<Rightarrow> manifest \<Rightarrow> outcome \<Rightarrow> pyval res" where
  "read_response nfc m r =
     (case r of
        NoIsolation \<Rightarrow> Inl (PluginError ''OS network namespace isolation is unavailable (unshare not found)'')
      | SpawnFailed e \<Rightarrow> Inl (OSError e)
      | TimedOut \<Rightarrow> Inl (PluginError ''plugin exceeded its timeout'')
      | Exited status out err \<Rightarrow>
          (let limit = nat (max_output_bytes m); response = take (limit + 1) out; errors = take 4097 err in
           ebind (raise_if (status \<noteq> 0) (PluginError ''plugin exited with status'')) (\<lambda>_.
           ebind (raise_if (limit < length response) (PluginError ''plugin output exceeds its manifest limit'')) (\<lambda>_.
           ebind (raise_if (errors \<noteq> []) (PluginError ''plugin wrote unexpected diagnostic output'')) (\<lambda>_.
             plugin_json nfc limit (BytesIn response))))))"

text \<open>The request with the capabilities the child is given.\<close>

definition attenuate :: "manifest \<Rightarrow> pydict \<Rightarrow> pydict res" where
  "attenuate m d =
     (let caps = fld d ''capabilities'' in
      if caps = JNull then Inr (dset (asc ''capabilities'') (JList (map JStr (sort (remdups (capabilities m))))) d)
      else
        ebind (raise_if (\<not> is_list caps \<or> \<not> list_all is_str (the_list caps) \<or> \<not> py_distinct (the_list caps))
                (PluginError ''invalid OCAP capability attenuation'')) (\<lambda>_.
        ebind (raise_if (\<not> set (texts caps) \<subseteq> set (capabilities m)) (PluginError ''OCAP capability exceeds plugin grant'')) (\<lambda>_.
          Inr d)))"

definition run_plugin :: "(ustr \<Rightarrow> ustr) \<Rightarrow> child \<Rightarrow> manifest \<Rightarrow> pyval \<Rightarrow> pyval res" where
  "run_plugin nfc child m request =
     ebind (raise_if (\<not> is_obj request) (PluginError ''plugin request must be an object'')) (\<lambda>_.
     ebind (attenuate m (the_obj request)) (\<lambda>d.
     ebind (plugin_canonical nfc (JObj d)) (\<lambda>encoded.
     ebind (raise_if (65536 < length encoded) (PluginError ''plugin request exceeds 65536 bytes'')) (\<lambda>_.
       read_response nfc m (child (code m) (encoded @ [10]) (timeout_seconds m))))))"

definition dispatch_one ::
  "(ustr \<Rightarrow> ustr) \<Rightarrow> signer \<Rightarrow> child \<Rightarrow> nat \<Rightarrow> plugin_root \<Rightarrow> registry \<Rightarrow> ustr \<Rightarrow> pyval \<Rightarrow> ustr \<Rightarrow> (ustr \<times> pyval) list \<Rightarrow> (ustr \<times> pyval) list res" where
  "dispatch_one nfc sg child euid root reg hook payload pid results =
     ebind (load_plugin nfc sg euid root reg pid) (\<lambda>m.
     if hook \<in> set (mf_hooks m) then
       ebind (raise_if (hook \<notin> set (capabilities m)) (PluginError ''plugin declared hook without matching capability'')) (\<lambda>_.
       ebind (run_plugin nfc child m (jobj [(''protocol'', jstr ''shadow6.plugin.v1''), (''event'', JStr hook), (''payload'', payload)])) (\<lambda>r.
         Inr (dset pid r results)))
     else Inr results)"

definition dispatch_hook ::
  "(ustr \<Rightarrow> ustr) \<Rightarrow> signer \<Rightarrow> child \<Rightarrow> nat \<Rightarrow> plugin_root \<Rightarrow> registry \<Rightarrow> ustr \<Rightarrow> pyval \<Rightarrow> (ustr \<times> pyval) list res" where
  "dispatch_hook nfc sg child euid root reg hook payload =
     ebind (raise_if (\<not> CAPABILITY_RE hook \<or> \<not> startswith ''hook.'' hook) (PluginError ''invalid hook name'')) (\<lambda>_.
     efold (dispatch_one nfc sg child euid root reg hook payload) (discover root) [])"

section \<open>The request/response session\<close>

definition MAX_FRAME :: nat where
  "MAX_FRAME = 65536"

definition MAX_IN_FLIGHT :: nat where
  "MAX_IN_FLIGHT = 16"

definition rpc_encode :: "(ustr \<Rightarrow> ustr) \<Rightarrow> pyval \<Rightarrow> bytes res" where
  "rpc_encode nfc message =
     ebind (plugin_canonical nfc message) (\<lambda>payload.
     ebind (raise_if (MAX_FRAME - 4 < length payload) (PluginError ''Plugin RPC frame exceeds 65532 bytes'')) (\<lambda>_.
       Inr (be_encode 4 (length payload) @ payload)))"

definition rpc_decode :: "(ustr \<Rightarrow> ustr) \<Rightarrow> bytes \<Rightarrow> pyval res" where
  "rpc_decode nfc frame =
     ebind (raise_if (length frame < 4) (PluginError ''truncated Plugin RPC frame'')) (\<lambda>_.
     let size = be_decode (take 4 frame) in
     ebind (raise_if (MAX_FRAME - 4 < size \<or> length frame \<noteq> size + 4) (PluginError ''invalid Plugin RPC frame length'')) (\<lambda>_.
       plugin_json nfc 1048576 (BytesIn (drop 4 frame))))"

record rpc_session =
  rs_manifest :: manifest
  rs_capabilities :: "ustr list"
  last_id :: int
  rs_closed :: bool
  in_flight :: nat

definition rpc_init :: "manifest \<Rightarrow> ustr list option \<Rightarrow> rpc_session res" where
  "rpc_init m caps =
     (let granted = (case caps of None \<Rightarrow> capabilities m | Some c \<Rightarrow> c) in
      ebind (raise_if (\<not> set granted \<subseteq> set (capabilities m)) (PluginError ''OCAP capability exceeds plugin grant'')) (\<lambda>_.
        Inr \<lparr>rs_manifest = m, rs_capabilities = granted, last_id = 0, rs_closed = False, in_flight = 0\<rparr>))"

definition rpc_close :: "rpc_session \<Rightarrow> rpc_session" where
  "rpc_close s = s\<lparr>rs_closed := True\<rparr>"

text \<open>The three parts of \<^verbatim>\<open>dispatch\<close>: what it does under the lock, the call of the plugin, and the \<^verbatim>\<open>finally\<close>.\<close>

definition rpc_begin :: "pydict \<Rightarrow> rpc_session \<Rightarrow> int res \<times> rpc_session" where
  "rpc_begin d s =
     (let rid = fld d ''id'' in
      if rs_closed s then (Inl (PluginError ''Plugin RPC session is closed''), s)
      else if \<not> keys_in [''id'', ''method'', ''params'', ''capabilities''] d then (Inl (PluginError ''unknown Plugin RPC request field''), s)
      else if \<not> int_in 1 (2 ^ 64 - 1) rid then (Inl (PluginError ''Plugin RPC id must be a positive integer''), s)
      else if the_int rid \<le> last_id s then (Inl (PluginError ''Plugin RPC request replay or out of order''), s)
      else if MAX_IN_FLIGHT \<le> in_flight s then (Inl (PluginError ''too many Plugin RPC requests''), s\<lparr>last_id := the_int rid\<rparr>)
      else (Inr (the_int rid), s\<lparr>last_id := the_int rid, in_flight := in_flight s + 1\<rparr>))"

definition rpc_call :: "(ustr \<Rightarrow> ustr) \<Rightarrow> child \<Rightarrow> manifest \<Rightarrow> ustr list \<Rightarrow> pydict \<Rightarrow> pyval res" where
  "rpc_call nfc child m granted d =
     (let meth = fld d ''method''; requested = getd d ''capabilities'' (JList (map JStr (sort (remdups granted)))); params = getd d ''params'' (JObj []) in
      ebind (raise_if (\<not> is_str meth \<or> \<not> method_ok (the_str meth)) (PluginError ''invalid Plugin RPC method'')) (\<lambda>_.
      ebind (raise_if (\<not> is_list requested) (PluginError ''invalid OCAP capability attenuation'')) (\<lambda>_.
      ebind (raise_if (list_ex unhashable (the_list requested)) (TypeError ''unhashable type'')) (\<lambda>_.
      ebind (raise_if (\<not> py_distinct (the_list requested)) (PluginError ''invalid OCAP capability attenuation'')) (\<lambda>_.
      ebind (raise_if (\<not> list_all (\<lambda>x. is_str x \<and> the_str x \<in> set granted) (the_list requested)) (PluginError ''OCAP capability exceeds session grant'')) (\<lambda>_.
      ebind (raise_if (\<not> is_obj params) (PluginError ''Plugin RPC params must be an object'')) (\<lambda>_.
        run_plugin nfc child m (jobj [(''protocol'', jstr ''shadow6.plugin.rpc.v1''), (''method'', meth), (''capabilities'', requested), (''params'', params)]))))))))"

definition rpc_reply :: "int \<Rightarrow> pyval res \<Rightarrow> pyval res" where
  "rpc_reply rid r =
     (case r of
        Inr result \<Rightarrow> Inr (jobj [(''id'', JInt rid), (''ok'', JBool True), (''result'', result)])
      | Inl (PluginError msg) \<Rightarrow> Inr (jobj [(''id'', JInt rid), (''ok'', JBool False), (''error'', JStr (take 256 (asc msg)))])
      | Inl e \<Rightarrow> Inl e)"

definition rpc_end :: "rpc_session \<Rightarrow> rpc_session" where
  "rpc_end s = s\<lparr>in_flight := in_flight s - 1\<rparr>"

definition rpc_dispatch :: "(ustr \<Rightarrow> ustr) \<Rightarrow> child \<Rightarrow> pydict \<Rightarrow> rpc_session \<Rightarrow> pyval res \<times> rpc_session" where
  "rpc_dispatch nfc child d s =
     (case rpc_begin d s of
        (Inl e, s1) \<Rightarrow> (Inl e, s1)
      | (Inr rid, s1) \<Rightarrow> (rpc_reply rid (rpc_call nfc child (rs_manifest s) (rs_capabilities s) d), rpc_end s1))"

text \<open>The requests of several threads, interleaved: the session, the identifiers of the requests
  that run and, in order, those that were accepted.\<close>

record rpc_world =
  w_session :: rpc_session
  running :: "int multiset"
  accepted :: "int list"

inductive rpc_step :: "rpc_world \<Rightarrow> rpc_world \<Rightarrow> bool" where
  accept: "rpc_begin d (w_session w) = (Inr rid, s) \<Longrightarrow>
            rpc_step w \<lparr>w_session = s, running = add_mset rid (running w), accepted = accepted w @ [rid]\<rparr>"
| refuse: "rpc_begin d (w_session w) = (Inl e, s) \<Longrightarrow> rpc_step w (w\<lparr>w_session := s\<rparr>)"
| finish: "rid \<in># running w \<Longrightarrow> rpc_step w (w\<lparr>w_session := rpc_end (w_session w), running := running w - {#rid#}\<rparr>)"
| close: "rpc_step w (w\<lparr>w_session := rpc_close (w_session w)\<rparr>)"

definition rpc_start :: "rpc_session \<Rightarrow> rpc_world" where
  "rpc_start s = \<lparr>w_session = s, running = {#}, accepted = []\<rparr>"

section \<open>A plugin that is loaded\<close>

text \<open>The manifest that a trusted signer has signed: its identity, the digest of the code that
  will be run, its capabilities and its limits.\<close>

definition verified :: "(ustr \<Rightarrow> ustr) \<Rightarrow> signer \<Rightarrow> registry \<Rightarrow> manifest \<Rightarrow> bool" where
  "verified nfc sg reg m \<longleftrightarrow>
     (\<exists>d key payload sig.
        map_of (trusted_signers reg) (mf_signer m) = Some key
        \<and> plugin_canonical nfc (JObj (without ''signature'' d)) = Inr payload \<and> sig_verify sg key sig payload
        \<and> keys_are manifest_fields d \<and> fld d ''id'' = JStr (plugin_id m) \<and> fld d ''signer'' = JStr (mf_signer m)
        \<and> fld d ''sha256'' = JStr (to_hex (sha256 (code m)))
        \<and> fld d ''capabilities'' = JList (map JStr (capabilities m)) \<and> fld d ''hooks'' = JList (map JStr (mf_hooks m))
        \<and> fld d ''timeout_seconds'' = JInt (timeout_seconds m) \<and> fld d ''max_output_bytes'' = JInt (max_output_bytes m))
     \<and> set (capabilities m) \<subseteq> set KNOWN_CAPABILITIES \<inter> set (granted_capabilities reg) \<and> distinct (capabilities m)
     \<and> set (mf_hooks m) \<subseteq> set (capabilities m) \<and> distinct (mf_hooks m)
     \<and> 1 \<le> timeout_seconds m \<and> timeout_seconds m \<le> 30 \<and> 1024 \<le> max_output_bytes m \<and> max_output_bytes m \<le> 1048576"

lemma capability_names_texts: "capability_names v \<Longrightarrow> v = JList (map JStr (texts v))"
proof -
  assume c: "capability_names v"
  then have "map JStr (texts v) = map (\<lambda>x. x) (the_list v)"
    unfolding map_map by (intro map_cong refl) (auto simp: capability_names_def list_all_iff is_kindE(3) [symmetric])
  then show ?thesis using c is_kindE(2) [of v] by (simp add: capability_names_def)
qed

lemma check_capabilities_Inr:
  assumes "check_capabilities reg d = Inr u"
  shows "fld d ''capabilities'' = JList (map JStr (texts (fld d ''capabilities'')))"
    and "fld d ''hooks'' = JList (map JStr (texts (fld d ''hooks'')))"
    and "set (texts (fld d ''capabilities'')) \<subseteq> set KNOWN_CAPABILITIES \<inter> set (granted_capabilities reg)"
    and "distinct (texts (fld d ''capabilities''))" and "distinct (texts (fld d ''hooks''))"
    and "set (texts (fld d ''hooks'')) \<subseteq> set (texts (fld d ''capabilities''))"
proof -
  have c: "capability_names (fld d ''capabilities'')" "capability_names (fld d ''hooks'')"
    "set (texts (fld d ''capabilities'')) \<subseteq> set KNOWN_CAPABILITIES" "set (texts (fld d ''capabilities'')) \<subseteq> set (granted_capabilities reg)"
    "distinct (texts (fld d ''capabilities''))" "distinct (texts (fld d ''hooks''))"
    "set (texts (fld d ''hooks'')) \<subseteq> set (texts (fld d ''capabilities''))"
    using assms unfolding check_capabilities_def Let_def ebind_Inr raise_if_Inr de_Morgan_disj not_not by simp_all
  then show "fld d ''capabilities'' = JList (map JStr (texts (fld d ''capabilities'')))"
    "fld d ''hooks'' = JList (map JStr (texts (fld d ''hooks'')))"
    by (blast intro: capability_names_texts)+
  show "set (texts (fld d ''capabilities'')) \<subseteq> set KNOWN_CAPABILITIES \<inter> set (granted_capabilities reg)"
    using c(3,4) by blast
  show "distinct (texts (fld d ''capabilities''))" "distinct (texts (fld d ''hooks''))"
    "set (texts (fld d ''hooks'')) \<subseteq> set (texts (fld d ''capabilities''))" by (fact c)+
qed

lemma check_identity_Inr:
  assumes "check_identity pid d = Inr u"
  shows "keys_are manifest_fields d" and "fld d ''id'' = JStr pid"
  using assms unfolding check_identity_def ebind_Inr raise_if_Inr de_Morgan_disj not_not by simp_all

lemma check_manifest_signature_Inr:
  assumes "check_manifest_signature nfc sg reg d = Inr u"
  obtains key payload sig where "map_of (trusted_signers reg) (the_str (fld d ''signer'')) = Some key"
    "plugin_canonical nfc (JObj (without ''signature'' d)) = Inr payload" "sig_verify sg key sig payload"
    "fld d ''signer'' = JStr (the_str (fld d ''signer''))"
  using assms is_kindE(3) [of "fld d ''signer''"]
  by (auto simp: check_manifest_signature_def Let_def signed_payload_def split: option.splits)

lemma load_plugin_verified:
  assumes "load_plugin nfc sg euid root reg pid = Inr m"
  shows "verified nfc sg reg m \<and> plugin_id m = pid"
proof -
  obtain dir where dir: "map_of root pid = Some dir"
    using assms by (auto simp: load_plugin_def split: option.splits)
  obtain v source u1 u2 u3 where l: "check_identity pid (the_obj v) = Inr u1"
      "\<not> (\<not> is_str (fld (the_obj v) ''sha256'') \<or> \<not> hex_text 64 (the_str (fld (the_obj v) ''sha256'')))"
      "\<not> to_hex (sha256 source) \<noteq> the_str (fld (the_obj v) ''sha256'')"
      "check_capabilities reg (the_obj v) = Inr u2"
      "\<not> \<not> int_in 1 30 (fld (the_obj v) ''timeout_seconds'')" "\<not> \<not> int_in 1024 1048576 (fld (the_obj v) ''max_output_bytes'')"
      "check_manifest_signature nfc sg reg (the_obj v) = Inr u3"
      "\<lparr>plugin_id = pid, mf_name = the_str (fld (the_obj v) ''name''), mf_version = the_str (fld (the_obj v) ''version''),
         entrypoint = the_str (fld (the_obj v) ''entrypoint''), capabilities = texts (fld (the_obj v) ''capabilities''),
         mf_hooks = texts (fld (the_obj v) ''hooks''), timeout_seconds = the_int (fld (the_obj v) ''timeout_seconds''),
         max_output_bytes = the_int (fld (the_obj v) ''max_output_bytes''), mf_signer = the_str (fld (the_obj v) ''signer''), code = source\<rparr> = m"
    using assms unfolding load_plugin_def dir option.case Let_def ebind_Inr raise_if_Inr sum.inject
    by (elim exE conjE) (rule that, assumption+)
  let ?d = "the_obj v"
  note i = check_identity_Inr [OF l(1)] and c = check_capabilities_Inr [OF l(4)]
  obtain key payload sig where k: "map_of (trusted_signers reg) (the_str (fld ?d ''signer'')) = Some key"
    "plugin_canonical nfc (JObj (without ''signature'' ?d)) = Inr payload" "sig_verify sg key sig payload"
    "fld ?d ''signer'' = JStr (the_str (fld ?d ''signer''))"
    by (rule check_manifest_signature_Inr [OF l(7)])
  have digest: "fld ?d ''sha256'' = JStr (to_hex (sha256 source))" using l(2,3) is_kindE(3) by metis
  obtain t o' where n: "fld ?d ''timeout_seconds'' = JInt t" "1 \<le> t" "t \<le> 30"
    "fld ?d ''max_output_bytes'' = JInt o'" "1024 \<le> o'" "o' \<le> 1048576"
    using l(5,6) unfolding int_in_iff not_not by blast
  have "\<exists>d key payload sig.
      map_of (trusted_signers reg) (mf_signer m) = Some key
      \<and> plugin_canonical nfc (JObj (without ''signature'' d)) = Inr payload \<and> sig_verify sg key sig payload
      \<and> keys_are manifest_fields d \<and> fld d ''id'' = JStr (plugin_id m) \<and> fld d ''signer'' = JStr (mf_signer m)
      \<and> fld d ''sha256'' = JStr (to_hex (sha256 (code m)))
      \<and> fld d ''capabilities'' = JList (map JStr (capabilities m)) \<and> fld d ''hooks'' = JList (map JStr (mf_hooks m))
      \<and> fld d ''timeout_seconds'' = JInt (timeout_seconds m) \<and> fld d ''max_output_bytes'' = JInt (max_output_bytes m)"
    unfolding l(8) [symmetric] manifest.simps using k i digest c(1,2) n(1,4) the_kind(1) by metis
  then show ?thesis
    unfolding verified_def using c(3-) n(2,3,5,6) unfolding l(8) [symmetric] manifest.simps n(1,4) the_kind by blast
qed

section \<open>A plugin that is run\<close>

text \<open>The answer of a run: the child had the code of the manifest, ended without an error and
  wrote no more than the manifest allows.\<close>

definition ran :: "(ustr \<Rightarrow> ustr) \<Rightarrow> child \<Rightarrow> manifest \<Rightarrow> pyval \<Rightarrow> bool" where
  "ran nfc child m r \<longleftrightarrow>
     (\<exists>request input out.
        set (texts (fld request ''capabilities'')) \<subseteq> set (capabilities m) \<and> plugin_canonical nfc (JObj request) = Inr input \<and> length input \<le> 65536
        \<and> child (code m) (input @ [10]) (timeout_seconds m) = Exited 0 out [] \<and> length out \<le> nat (max_output_bytes m)
        \<and> plugin_json nfc (nat (max_output_bytes m)) (BytesIn out) = Inr r)"

lemma attenuate_Inr: "attenuate m d = Inr d' \<Longrightarrow> set (texts (fld d' ''capabilities'')) \<subseteq> set (capabilities m)"
proof (cases "fld d ''capabilities'' = JNull")
  case True
  assume "attenuate m d = Inr d'"
  then have "d' = dset (asc ''capabilities'') (JList (map JStr (sort (remdups (capabilities m))))) d"
    using True by (simp add: attenuate_def)
  then show ?thesis by (simp add: fld_def getd_def map_of_dset comp_def)
qed (auto simp: attenuate_def Let_def)

lemma read_response_Inr:
  assumes "read_response nfc m r = Inr v" 
  shows "\<exists>out. r = Exited 0 out [] \<and> length out \<le> nat (max_output_bytes m) \<and> plugin_json nfc (nat (max_output_bytes m)) (BytesIn out) = Inr v"
proof (cases r)
  case (Exited status out err)
  let ?n = "nat (max_output_bytes m)"
  have e: "status = 0" "take 4097 err = []" "\<not> ?n < length (take (?n + 1) out)" "plugin_json nfc ?n (BytesIn (take (?n + 1) out)) = Inr v"
    using assms Exited by (auto simp: read_response_def Let_def)
  have "length out \<le> ?n" using e(3) by (cases "length out \<le> ?n + 1") auto
  moreover have "err = []" using e(2) by (cases err) auto
  ultimately show ?thesis using Exited e(1,4) by simp
qed (use assms in \<open>simp_all add: read_response_def\<close>)

lemma run_plugin_ran: "run_plugin nfc child m request = Inr r \<Longrightarrow> ran nfc child m r"
proof -
  assume "run_plugin nfc child m request = Inr r"
  then obtain d encoded where d: "attenuate m (the_obj request) = Inr d" "plugin_canonical nfc (JObj d) = Inr encoded" "length encoded \<le> 65536"
    "read_response nfc m (child (code m) (encoded @ [10]) (timeout_seconds m)) = Inr r"
    by (auto simp: run_plugin_def not_less)
  show ?thesis
    unfolding ran_def using attenuate_Inr [OF d(1)] d(2,3) read_response_Inr [OF d(4)] by blast
qed

section \<open>Interleaved requests\<close>

definition rpc_ok :: "rpc_session \<Rightarrow> rpc_world \<Rightarrow> bool" where
  "rpc_ok s0 w \<longleftrightarrow>
     rs_manifest (w_session w) = rs_manifest s0 \<and> rs_capabilities (w_session w) = rs_capabilities s0
     \<and> in_flight (w_session w) = size (running w) \<and> size (running w) \<le> MAX_IN_FLIGHT \<and> set_mset (running w) \<subseteq> set (accepted w)
     \<and> sorted_wrt (<) (accepted w) \<and> (\<forall>rid \<in> set (accepted w). 1 \<le> rid \<and> rid \<le> last_id (w_session w)) \<and> 0 \<le> last_id (w_session w)"

lemma rpc_begin_cases:
  assumes "rpc_begin d s = (r, s')"
  shows "(\<exists>rid. r = Inr rid \<and> last_id s < rid \<and> 1 \<le> rid \<and> in_flight s < MAX_IN_FLIGHT \<and> \<not> rs_closed s
            \<and> s' = s\<lparr>last_id := rid, in_flight := in_flight s + 1\<rparr>)
       \<or> (\<exists>e. r = Inl e \<and> last_id s \<le> last_id s' \<and> s' = s\<lparr>last_id := last_id s'\<rparr>)"
  using assms unfolding rpc_begin_def Let_def by (auto simp: int_in_iff split: if_splits)

lemma rpc_step_ok: "rpc_step w w' \<Longrightarrow> rpc_ok s0 w \<Longrightarrow> rpc_ok s0 w'"
proof (induction rule: rpc_step.induct)
  case (accept d w rid s)
  then have b: "last_id (w_session w) < rid" "1 \<le> rid" "in_flight (w_session w) < MAX_IN_FLIGHT"
    "s = (w_session w)\<lparr>last_id := rid, in_flight := in_flight (w_session w) + 1\<rparr>"
    using rpc_begin_cases by fastforce+
  show ?case using accept(2) b by (fastforce simp: rpc_ok_def sorted_wrt_append)
next
  case (refuse d w e s)
  then obtain rid where "last_id (w_session w) \<le> rid" "s = (w_session w)\<lparr>last_id := rid\<rparr>"
    using rpc_begin_cases by blast
  then show ?case using refuse(2) by (fastforce simp: rpc_ok_def)
next
  case (finish rid w)
  then show ?case by (auto simp: rpc_ok_def rpc_end_def size_Diff_singleton dest: in_diffD)
next
  case (close w)
  then show ?case by (simp add: rpc_ok_def rpc_close_def)
qed

lemma rpc_steps_ok: "rpc_step\<^sup>*\<^sup>* w w' \<Longrightarrow> rpc_ok s0 w \<Longrightarrow> rpc_ok s0 w'"
  by (induction rule: rtranclp_induct) (auto intro: rpc_step_ok)

lemma rpc_init_Inr:
  "rpc_init m caps = Inr s \<Longrightarrow> rs_manifest s = m \<and> set (rs_capabilities s) \<subseteq> set (capabilities m) \<and> last_id s = 0 \<and> in_flight s = 0 \<and> \<not> rs_closed s"
  by (auto simp: rpc_init_def Let_def)

section \<open>Properties\<close>


text \<open>C37. However the requests of a session are interleaved, the identifiers it accepts increase
  strictly, so that none is accepted twice; at most sixteen run at a time, which the counter
  counts; and the session never has a capability the manifest does not have.\<close>

theorem rpc_requests_ordered:
  assumes "rpc_init m caps = Inr s0" and "rpc_step\<^sup>*\<^sup>* (rpc_start s0) w"
  shows "sorted_wrt (<) (accepted w) \<and> in_flight (w_session w) = size (running w) \<and> size (running w) \<le> MAX_IN_FLIGHT
    \<and> set_mset (running w) \<subseteq> set (accepted w) \<and> set (rs_capabilities (w_session w)) \<subseteq> set (capabilities (rs_manifest (w_session w)))"
proof -
  note i = rpc_init_Inr [OF assms(1)]
  have "rpc_ok s0 (rpc_start s0)" using i by (simp add: rpc_ok_def rpc_start_def)
  from rpc_steps_ok [OF assms(2) this] show ?thesis using i by (simp add: rpc_ok_def)
qed

definition sample_manifest :: manifest where
  "sample_manifest = \<lparr>plugin_id = asc ''echo'', mf_name = asc ''Echo'', mf_version = asc ''1.0.0'', entrypoint = asc ''echo.py'',
     capabilities = [asc ''telemetry.read''], mf_hooks = [], timeout_seconds = 5, max_output_bytes = 1024, mf_signer = asc ''local'', code = []\<rparr>"

theorem rpc_requests_ordered_witness:
  "\<exists>s0 w. rpc_init sample_manifest None = Inr s0 \<and> rpc_step\<^sup>*\<^sup>* (rpc_start s0) w \<and> accepted w = [1, 3] \<and> running w = {#3#}
     \<and> in_flight (w_session w) = 1"
proof -
  define s0 where "s0 = \<lparr>rs_manifest = sample_manifest, rs_capabilities = [asc ''telemetry.read''], last_id = 0, rs_closed = False, in_flight = 0\<rparr>"
  have i: "rpc_init sample_manifest None = Inr s0" by (simp add: rpc_init_def Let_def s0_def sample_manifest_def)
  have b: "rpc_begin (the_obj (jobj [(''id'', JInt n)])) s = (Inr n, s\<lparr>last_id := n, in_flight := in_flight s + 1\<rparr>)"
    if "\<not> rs_closed s" "last_id s < n" "1 \<le> n" "n \<le> 100" "in_flight s < MAX_IN_FLIGHT" for n s
    using that by (simp add: rpc_begin_def fld_jobj keys_in_def keys_jobj names_def)
  define s1 where "s1 = s0\<lparr>last_id := 1, in_flight := 1\<rparr>"
  define s2 where "s2 = s0\<lparr>last_id := 3, in_flight := 2\<rparr>"
  define w1 where "w1 = \<lparr>w_session = s1, running = {#1#}, accepted = [1]\<rparr>"
  define w2 where "w2 = \<lparr>w_session = s2, running = {#3, 1#}, accepted = [1, 3]\<rparr>"
  define w where "w = w2\<lparr>w_session := rpc_end s2, running := {#3, 1#} - {#1#}\<rparr>"
  have "rpc_step (rpc_start s0) w1"
    using rpc_step.accept [OF b [of "w_session (rpc_start s0)" 1]] by (simp add: rpc_start_def w1_def s1_def s0_def MAX_IN_FLIGHT_def)
  moreover have "rpc_step w1 w2"
    using rpc_step.accept [OF b [of "w_session w1" 3]] by (simp add: w1_def w2_def s1_def s2_def s0_def MAX_IN_FLIGHT_def numeral_2_eq_2)
  moreover have "rpc_step w2 w"
    using rpc_step.finish [of 1 w2] by (simp add: w2_def w_def)
  ultimately have r: "rpc_step\<^sup>*\<^sup>* (rpc_start s0) w" by (meson rtranclp.rtrancl_into_rtrancl rtranclp.rtrancl_refl)
  have "accepted w = [1, 3]" "running w = {#3#}" by (simp_all add: w_def w2_def)
  then show ?thesis using i r rpc_requests_ordered [OF i r] by auto
qed

end
