(* ===== verification/S6_Slots.thy ===== *)
theory S6_Slots
  imports S6_Plugins
begin

text \<open>
  Extension slots, \<^verbatim>\<open>src/Slot-System/shadow6_slots.py\<close>: the catalogue of slots, the bindings of signed
  plugins to slots, and the call of the providers of a slot in the mode of the slot.
\<close>

section \<open>The catalogue\<close>

record slot_def =
  level :: nat
  phase :: string
  mode :: string
  max_providers :: nat

definition slot_row :: "nat \<Rightarrow> string \<Rightarrow> string \<Rightarrow> nat \<Rightarrow> slot_def" where
  "slot_row l p m n = \<lparr>level = l, phase = p, mode = m, max_providers = n\<rparr>"

definition SLOTS :: "(ustr \<times> slot_def) list" where
  "SLOTS = map (\<lambda>(n, d). (asc n, d))
     [(''slot.lifecycle.before-start'', slot_row 3 ''lifecycle'' ''serial'' 8),
      (''slot.lifecycle.after-stop'', slot_row 3 ''lifecycle'' ''serial'' 8),
      (''slot.config.validate'', slot_row 3 ''configuration'' ''all-must-pass'' 8),
      (''slot.transport.observe'', slot_row 0 ''transport'' ''fanout'' 16),
      (''slot.transport.transform'', slot_row 1 ''transport'' ''pipeline'' 4),
      (''slot.protocol.factory'', slot_row 1 ''application'' ''first-success'' 8),
      (''slot.chat.filter'', slot_row 1 ''application'' ''pipeline'' 8),
      (''slot.identity.verify'', slot_row 2 ''identity'' ''all-must-pass'' 8),
      (''slot.security.policy'', slot_row 2 ''security'' ''all-must-pass'' 8),
      (''slot.telemetry.sink'', slot_row 0 ''observability'' ''fanout'' 16),
      (''slot.assistant.eye'', slot_row 0 ''assistant'' ''fanout'' 16),
      (''slot.assistant.hand'', slot_row 4 ''assistant'' ''serial'' 4),
      (''slot.init.decorate'', slot_row 3 ''service'' ''pipeline'' 4),
      (''slot.ui.panel'', slot_row 0 ''presentation'' ''fanout'' 16)]"

definition MAX_BINDINGS :: nat where
  "MAX_BINDINGS = 128"

section \<open>Bindings\<close>

definition or_slot_error :: "'a res \<Rightarrow> string \<Rightarrow> 'a res" where
  "or_slot_error m msg = (case m of Inl _ \<Rightarrow> Inl (SlotError msg) | Inr x \<Rightarrow> Inr x)"

definition binding_fields :: "string list" where
  "binding_fields = [''slot'', ''plugin'', ''priority'', ''required'', ''enabled'']"

abbreviation slot_of :: "pydict \<Rightarrow> ustr" where
  "slot_of b \<equiv> the_str (fld b ''slot'')"

abbreviation plugin_of :: "pydict \<Rightarrow> ustr" where
  "plugin_of b \<equiv> the_str (fld b ''plugin'')"

abbreviation enabled :: "pydict \<Rightarrow> bool" where
  "enabled b \<equiv> the_bool (fld b ''enabled'')"

text \<open>The shape of one binding, before the tests that depend on the other bindings.\<close>

definition check_binding :: "pyval \<Rightarrow> unit res" where
  "check_binding v =
     (let b = the_obj v in
      ebind (raise_if (\<not> is_obj v \<or> \<not> keys_are binding_fields b) (SlotError ''each binding has an exact five-field schema'')) (\<lambda>_.
      ebind (raise_if (\<not> is_str (fld b ''slot'') \<or> map_of SLOTS (slot_of b) = None \<or> \<not> is_str (fld b ''plugin'') \<or> \<not> ID_RE (plugin_of b))
              (SlotError ''binding references an unknown slot or invalid plugin'')) (\<lambda>_.
      ebind (raise_if (\<not> int_in 0 1000 (fld b ''priority'')) (SlotError ''binding priority must be an integer from 0 through 1000'')) (\<lambda>_.
      raise_if (\<not> is_bool (fld b ''required'') \<or> \<not> is_bool (fld b ''enabled'')) (SlotError ''required and enabled must be booleans'')))))"

text \<open>The accumulator: the pairs seen, the enabled providers of each slot and the bindings validated so far.\<close>

type_synonym bindings_acc = "(ustr \<times> ustr) list \<times> (ustr \<times> nat) list \<times> pydict list"

definition signed_for :: "ustr \<Rightarrow> manifest \<Rightarrow> bool" where
  "signed_for slot m \<longleftrightarrow> slot \<in> set (capabilities m) \<and> slot \<in> set (mf_hooks m)"

definition load_binding :: "(ustr \<Rightarrow> manifest res) \<Rightarrow> pyval \<Rightarrow> bindings_acc \<Rightarrow> bindings_acc res" where
  "load_binding load v acc =
     (case acc of (seen, counts, validated) \<Rightarrow>
        ebind (check_binding v) (\<lambda>_.
        let b = the_obj v; slot = slot_of b; plugin = plugin_of b;
            n = (case map_of counts slot of Some c \<Rightarrow> c | None \<Rightarrow> 0) + (if enabled b then 1 else 0) in
        ebind (raise_if ((slot, plugin) \<in> set seen) (SlotError ''duplicate slot/provider binding'')) (\<lambda>_.
        ebind (raise_if (max_providers (the (map_of SLOTS slot)) < n) (SlotError ''slot exceeds its provider limit'')) (\<lambda>_.
        ebind (load plugin) (\<lambda>m.
        ebind (raise_if (\<not> signed_for slot m) (SlotError ''plugin is not signed for slot'')) (\<lambda>_.
          Inr ((slot, plugin) # seen, dset slot n counts, validated @ [b])))))))"

text \<open>\<^verbatim>\<open>sorted(validated, key=(slot, priority, plugin))\<close>, as three stable sorts.\<close>

definition sort_bindings :: "pydict list \<Rightarrow> pydict list" where
  "sort_bindings bs = sort_key slot_of (sort_key (\<lambda>b. the_int (fld b ''priority'')) (sort_key plugin_of bs))"

definition load_bindings :: "(ustr \<Rightarrow> ustr) \<Rightarrow> nat \<Rightarrow> fview option \<Rightarrow> (ustr \<Rightarrow> manifest res) \<Rightarrow> pydict list res" where
  "load_bindings nfc euid file load =
     ebind (or_slot_error (ebind (secure_read euid 1048576 False file) (\<lambda>raw. plugin_json nfc 1048576 (BytesIn raw))) ''invalid slot binding document'') (\<lambda>document.
     let d = the_obj document; bindings = the_list (fld d ''bindings'') in
     ebind (raise_if (\<not> is_obj document \<or> \<not> keys_are [''version'', ''bindings''] d \<or> fld d ''version'' \<noteq> JInt 1)
             (SlotError ''slot document must contain exactly version=1 and bindings'')) (\<lambda>_.
     ebind (raise_if (\<not> is_list (fld d ''bindings'') \<or> MAX_BINDINGS < length bindings) (SlotError ''bindings must be a list'')) (\<lambda>_.
     ebind (efold (load_binding load) bindings ([], [], [])) (\<lambda>(_, _, validated).
       Inr (sort_bindings validated)))))"

section \<open>Calling the providers\<close>

text \<open>\<^verbatim>\<open>str(exc)\<close>, as far as the messages are modelled.\<close>

fun exn_text :: "exn \<Rightarrow> ustr" where
  "exn_text (PluginError s) = asc s"
| "exn_text (SlotError s) = asc s"
| "exn_text (ValueError s) = asc s"
| "exn_text (TypeError s) = asc s"
| "exn_text (OSError s) = asc s"
| "exn_text (FileNotFoundError s) = asc s"
| "exn_text _ = []"

text \<open>The body of the \<^verbatim>\<open>try\<close>: the result of one provider and the payload for the next one.\<close>

definition provide :: "(ustr \<Rightarrow> ustr) \<Rightarrow> child \<Rightarrow> ustr \<Rightarrow> slot_def \<Rightarrow> manifest \<Rightarrow> pyval \<Rightarrow> (pyval \<times> pyval) res" where
  "provide nfc child slot def m current =
     ebind (run_plugin nfc child m (jobj [(''protocol'', jstr ''shadow6.slot.v1''), (''slot'', JStr slot), (''level'', JInt (int (level def))), (''payload'', current)])) (\<lambda>result.
     ebind (plugin_canonical nfc result) (\<lambda>_.
     ebind (raise_if (mode def = ''pipeline'' \<and> \<not> is_obj (fld (the_obj result) ''payload'')) (SlotError ''pipeline provider omitted object payload'')) (\<lambda>_.
     ebind (raise_if (mode def = ''all-must-pass'' \<and> fld (the_obj result) ''allow'' \<noteq> JBool True) (SlotError ''provider did not explicitly allow'')) (\<lambda>_.
       Inr (result, if mode def = ''pipeline'' then fld (the_obj result) ''payload'' else current)))))"

definition good_entry :: "manifest \<Rightarrow> pyval \<Rightarrow> pydict" where
  "good_entry m result = the_obj (jobj [(''plugin'', JStr (plugin_id m)), (''ok'', JBool True), (''result'', result)])"

definition bad_entry :: "manifest \<Rightarrow> exn \<Rightarrow> pydict" where
  "bad_entry m e = the_obj (jobj [(''plugin'', JStr (plugin_id m)), (''ok'', JBool False), (''error'', JStr (exn_text e))])"

fun invoke_loop ::
  "(ustr \<Rightarrow> ustr) \<Rightarrow> child \<Rightarrow> (ustr \<Rightarrow> manifest res) \<Rightarrow> ustr \<Rightarrow> slot_def \<Rightarrow> pydict list \<Rightarrow> pyval \<Rightarrow> pydict list \<Rightarrow> (pyval \<times> pydict list) res" where
  "invoke_loop nfc child load slot def [] current results = Inr (current, results)"
| "invoke_loop nfc child load slot def (b # bs) current results =
     ebind (load (plugin_of b)) (\<lambda>m.
     ebind (raise_if (\<not> signed_for slot m) (SlotError ''provider lost its signed slot capability'')) (\<lambda>_.
     (case provide nfc child slot def m current of
        Inr (result, next) \<Rightarrow>
          (if mode def = ''first-success'' then Inr (next, results @ [good_entry m result])
           else invoke_loop nfc child load slot def bs next (results @ [good_entry m result]))
      | Inl e \<Rightarrow>
          (if the_bool (fld b ''required'') \<or> mode def \<in> {''pipeline'', ''all-must-pass''}
           then Inl (SlotError ''required slot provider failed'')
           else invoke_loop nfc child load slot def bs current (results @ [bad_entry m e])))))"

text \<open>\<open>load\<close> and \<open>load'\<close> are the loader of plugins when the bindings are read and when the providers are called.\<close>

definition invoke ::
  "(ustr \<Rightarrow> ustr) \<Rightarrow> child \<Rightarrow> nat \<Rightarrow> (ustr \<Rightarrow> manifest res) \<Rightarrow> (ustr \<Rightarrow> manifest res) \<Rightarrow> fview option \<Rightarrow> bool \<Rightarrow> ustr \<Rightarrow> pyval \<Rightarrow> pyval res" where
  "invoke nfc child euid load load' file allow_privileged slot payload =
     (case map_of SLOTS slot of
        None \<Rightarrow> Inl (SlotError ''unknown slot'')
      | Some def \<Rightarrow>
          ebind (raise_if (3 \<le> level def \<and> \<not> allow_privileged) (SlotError ''level 3/4 slot requires explicit privileged approval'')) (\<lambda>_.
          ebind (raise_if (\<not> is_obj payload) (SlotError ''slot payload must be an object'')) (\<lambda>_.
          ebind (or_slot_error (plugin_canonical nfc payload) ''invalid payload'') (\<lambda>encoded.
          ebind (raise_if (60000 < length encoded) (SlotError ''slot payload is too large'')) (\<lambda>_.
          ebind (load_bindings nfc euid file load) (\<lambda>all.
          let bindings = filter (\<lambda>b. slot_of b = slot \<and> enabled b) all in
          ebind (invoke_loop nfc child load' slot def bindings payload []) (\<lambda>(current, results).
          ebind (raise_if (bindings \<noteq> [] \<and> mode def = ''first-success'' \<and> \<not> list_ex (\<lambda>e. fld e ''ok'' = JBool True) results)
                  (SlotError ''no slot provider succeeded'')) (\<lambda>_.
            Inr (jobj [(''protocol'', jstr ''shadow6.slot.v1''), (''slot'', JStr slot), (''level'', JInt (int (level def))),
                   (''payload'', current), (''results'', JList (map JObj results))])))))))))"

section \<open>Bindings respect the limits\<close>

definition acc_ok :: "bindings_acc \<Rightarrow> bool" where
  "acc_ok acc \<longleftrightarrow>
     (case acc of (seen, counts, validated) \<Rightarrow>
        (\<forall>slot. (case map_of counts slot of Some c \<Rightarrow> c | None \<Rightarrow> 0) = length (filter (\<lambda>b. slot_of b = slot \<and> enabled b) validated))
        \<and> (\<forall>slot def. map_of SLOTS slot = Some def \<longrightarrow> length (filter (\<lambda>b. slot_of b = slot \<and> enabled b) validated) \<le> max_providers def))"

lemma load_binding_ok:
  assumes "load_binding load v acc = Inr acc'" and "acc_ok acc"
  shows "acc_ok acc'"
proof -
  obtain seen counts validated where acc: "acc = (seen, counts, validated)" by (cases acc)
  let ?b = "the_obj v" and ?c = "\<lambda>cs s. (case map_of cs s of Some c \<Rightarrow> c | None \<Rightarrow> 0)" 
  let ?n = "?c counts (slot_of ?b) + (if enabled ?b then 1 else 0)"
  have n: "\<not> max_providers (the (map_of SLOTS (slot_of ?b))) < ?n"
    and acc': "acc' = ((slot_of ?b, plugin_of ?b) # seen, dset (slot_of ?b) ?n counts, validated @ [?b])"
    using assms(1) unfolding load_binding_def acc prod.case Let_def ebind_Inr raise_if_Inr by auto
  have c: "?c counts s = length (filter (\<lambda>b. slot_of b = s \<and> enabled b) validated)"
    and l: "map_of SLOTS s = Some def \<Longrightarrow> length (filter (\<lambda>b. slot_of b = s \<and> enabled b) validated) \<le> max_providers def" for s def
    using assms(2) unfolding acc_ok_def acc prod.case by auto
  show ?thesis
    unfolding acc_ok_def acc' prod.case
  proof (intro conjI allI impI)
    fix s
    show "?c (dset (slot_of ?b) ?n counts) s = length (filter (\<lambda>b. slot_of b = s \<and> enabled b) (validated @ [?b]))"
      using c [of s] c [of "slot_of ?b"] by (simp add: map_of_dset)
  next
    fix s def
    assume "map_of SLOTS s = Some def"
    then show "length (filter (\<lambda>b. slot_of b = s \<and> enabled b) (validated @ [?b])) \<le> max_providers def"
      using l [of s def] c [of s] n by (cases "slot_of ?b = s") (auto split: if_splits)
  qed
qed

lemma filter_sort_key: "length (filter P (sort_key f xs)) = length (filter P xs)"
  by (metis mset_filter mset_sort size_mset)

lemma load_bindings_limit:
  assumes "load_bindings nfc euid file load = Inr bs" and "map_of SLOTS slot = Some def"
  shows "length (filter (\<lambda>b. slot_of b = slot \<and> enabled b) bs) \<le> max_providers def"
proof -
  obtain xs seen counts validated where f: "efold (load_binding load) xs ([], [], []) = Inr (seen, counts, validated)" "bs = sort_bindings validated"
    using assms(1) by (auto simp: load_bindings_def Let_def)
  have "acc_ok (seen, counts, validated)"
    by (rule efold_invariant [OF f(1)]) (simp add: acc_ok_def, erule (1) load_binding_ok [rotated])
  then show ?thesis using assms(2) by (auto simp: acc_ok_def f(2) sort_bindings_def filter_sort_key)
qed

section \<open>Providers\<close>

text \<open>The entry of one provider in the result of a slot.\<close>

definition entry_ok :: "(ustr \<Rightarrow> ustr) \<Rightarrow> child \<Rightarrow> (ustr \<Rightarrow> manifest res) \<Rightarrow> ustr \<Rightarrow> slot_def \<Rightarrow> pydict \<Rightarrow> bool" where
  "entry_ok nfc child load slot def e \<longleftrightarrow>
     (\<exists>pid m. load pid = Inr m \<and> signed_for slot m \<and> fld e ''plugin'' = JStr (plugin_id m)
        \<and> (if fld e ''ok'' = JBool True then ran nfc child m (fld e ''result'') \<and> is_obj (fld e ''result'')
           else mode def \<notin> {''pipeline'', ''all-must-pass''})
        \<and> (mode def = ''all-must-pass'' \<longrightarrow> fld e ''ok'' = JBool True \<and> fld (the_obj (fld e ''result'')) ''allow'' = JBool True)
        \<and> (mode def = ''pipeline'' \<longrightarrow> fld e ''ok'' = JBool True \<and> is_obj (fld (the_obj (fld e ''result'')) ''payload'')))"

lemma good_entry_fld: "fld (good_entry m r) ''plugin'' = JStr (plugin_id m)" "fld (good_entry m r) ''ok'' = JBool True" "fld (good_entry m r) ''result'' = r"
  by (simp_all add: good_entry_def fld_jobj)

lemma bad_entry_fld: "fld (bad_entry m e) ''plugin'' = JStr (plugin_id m)" "fld (bad_entry m e) ''ok'' = JBool False"
  by (simp_all add: bad_entry_def fld_jobj)

lemma plugin_json_obj: "plugin_json nfc n data = Inr v \<Longrightarrow> is_obj v"
  by (auto simp: plugin_json_def)

lemma ran_obj: "ran nfc child m r \<Longrightarrow> is_obj r"
  by (auto simp: ran_def dest: plugin_json_obj)

lemma provide_entry:
  assumes "provide nfc child slot def m current = Inr (r, next)" and "load pid = Inr m" and "signed_for slot m"
  shows "entry_ok nfc child load slot def (good_entry m r) \<and> next = (if mode def = ''pipeline'' then fld (the_obj r) ''payload'' else current)"
proof -
  have p: "ran nfc child m r" "mode def = ''pipeline'' \<longrightarrow> is_obj (fld (the_obj r) ''payload'')"
    "mode def = ''all-must-pass'' \<longrightarrow> fld (the_obj r) ''allow'' = JBool True" "next = (if mode def = ''pipeline'' then fld (the_obj r) ''payload'' else current)"
    using assms(1) unfolding provide_def by (auto dest: run_plugin_ran)
  show ?thesis
    unfolding entry_ok_def good_entry_fld using p assms(2,3) ran_obj by auto
qed

lemma bad_entry_ok:
  "load pid = Inr m \<Longrightarrow> signed_for slot m \<Longrightarrow> mode def \<notin> {''pipeline'', ''all-must-pass''} \<Longrightarrow> entry_ok nfc child load slot def (bad_entry m e)"
  unfolding entry_ok_def bad_entry_fld by auto

text \<open>The payload that the pipeline ends with.\<close>

definition thread :: "slot_def \<Rightarrow> pyval \<Rightarrow> pydict list \<Rightarrow> pyval" where
  "thread def payload results =
     foldl (\<lambda>p e. if mode def = ''pipeline'' then fld (the_obj (fld e ''result'')) ''payload'' else p) payload results"

lemma invoke_loop_ok:
  assumes "invoke_loop nfc child load slot def bs current results = Inr (ending, results')"
    and "\<And>pid m. load pid = Inr m \<Longrightarrow> plugin_id m = pid"
    and "list_all (entry_ok nfc child load slot def) results"
  shows "\<exists>more n. results' = results @ more \<and> list_all (entry_ok nfc child load slot def) results' \<and> ending = thread def current more
    \<and> map (\<lambda>e. fld e ''plugin'') more = map (\<lambda>b. JStr (plugin_of b)) (take n bs) \<and> n \<le> length bs
    \<and> (mode def \<noteq> ''first-success'' \<longrightarrow> n = length bs)"
  using assms(1,3)
proof (induction bs arbitrary: current results)
  case Nil
  then show ?case by (intro exI [of _ "[]"] exI [of _ 0]) (simp add: thread_def)
next
  case (Cons b bs)
  obtain m where m: "load (plugin_of b) = Inr m" "signed_for slot m" using Cons.prems(1) by auto
  have pid: "plugin_id m = plugin_of b" using assms(2) m(1) by blast
  show ?case
  proof (cases "provide nfc child slot def m current")
    case (Inr p)
    obtain r nxt where p: "p = (r, nxt)" by (cases p)
    let ?e = "good_entry m r"
    have e: "entry_ok nfc child load slot def ?e" "nxt = thread def current [?e]"
      using provide_entry [where load = load and pid = "plugin_of b", OF Inr [unfolded p] m] by (auto simp: thread_def good_entry_fld)
    show ?thesis
    proof (cases "mode def = ''first-success''")
      case True
      then have "ending = nxt" "results' = results @ [?e]" using Cons.prems(1) m Inr p by auto
      then show ?thesis
        using e Cons.prems(2) pid True by (intro exI [of _ "[?e]"] exI [of _ 1]) (simp add: good_entry_fld)
    next
      case False
      then have "invoke_loop nfc child load slot def bs nxt (results @ [?e]) = Inr (ending, results')" using Cons.prems(1) m Inr p by auto
      from Cons.IH [OF this] e Cons.prems(2) obtain more n where "results' = results @ [?e] @ more"
        "list_all (entry_ok nfc child load slot def) results'" "ending = thread def nxt more"
        "map (\<lambda>e. fld e ''plugin'') more = map (\<lambda>b. JStr (plugin_of b)) (take n bs)" "n \<le> length bs" "n = length bs"
        using False by auto
      then show ?thesis
        using pid e(2) by (intro exI [of _ "?e # more"] exI [of _ "Suc n"]) (simp add: good_entry_fld thread_def)
    qed
  next
    case (Inl e)
    let ?e = "bad_entry m e"
    have q: "mode def \<notin> {''pipeline'', ''all-must-pass''}"
      and loop: "invoke_loop nfc child load slot def bs current (results @ [?e]) = Inr (ending, results')"
      using Cons.prems(1) m Inl by (auto split: if_splits)
    have "list_all (entry_ok nfc child load slot def) (results @ [?e])"
      using Cons.prems(2) bad_entry_ok [where load = load and pid = "plugin_of b", OF m q] by simp
    from Cons.IH [OF loop this] obtain more n where "results' = results @ [?e] @ more"
      "list_all (entry_ok nfc child load slot def) results'" "ending = thread def current more"
      "map (\<lambda>e. fld e ''plugin'') more = map (\<lambda>b. JStr (plugin_of b)) (take n bs)" "n \<le> length bs"
      "mode def \<noteq> ''first-success'' \<longrightarrow> n = length bs"
      unfolding append_assoc by blast
    then show ?thesis
      using pid q by (intro exI [of _ "?e # more"] exI [of _ "Suc n"]) (auto simp: bad_entry_fld thread_def)
  qed
qed

section \<open>Properties\<close>


end
