(* ===== verification/S6_Sessions.thy ===== *)
theory S6_Sessions
  imports Complex_Main S6_Plain
begin

text \<open>
  Application sessions: the local sessions of \<^verbatim>\<open>src/Deployment/connection_plan.py\<close>
  (\<^verbatim>\<open>LocalSession\<close>, \<^verbatim>\<open>LocalMessageSession\<close>, \<^verbatim>\<open>open_local_session\<close>, \<^verbatim>\<open>application_adapter\<close>), the
  socket methods of \<^verbatim>\<open>src/libshadow6/credited_boundary.py\<close>, and the table of capability handles of
  \<^verbatim>\<open>src/Deployment/session_handles.py\<close>.

  The results of socket calls and the times are arguments. What the supervisor can observe of
  processes and sockets is a record of functions, and so is the validation of a profile binding.
  A datagram that is longer than the buffer of a receive is cut, as the operating system does.
\<close>

section \<open>Sessions\<close>

datatype skind = Local | Message | Credited

record session =
  skind :: skind
  deadline :: rat
  remaining :: int
  max_record :: nat
  read_bound :: nat
  s_mode :: ustr
  eof :: bool
  write_closed :: bool
  connected :: bool
  stopped :: bool

definition session_bytes :: int where
  "session_bytes = 16 * 1024 * 1024"

definition close_session :: "session \<Rightarrow> session" where
  "close_session s = s\<lparr>connected := False, stopped := True\<rparr>"

text \<open>A call on the socket of a session, which fails once the session is closed.\<close>

definition sock :: "session \<Rightarrow> 'a res \<Rightarrow> 'a res" where
  "sock s r = (if connected s then r else Inl (OSError ''Bad file descriptor''))"

definition local_budget :: "nat \<Rightarrow> rat \<Rightarrow> session \<Rightarrow> unit res \<times> session" where
  "local_budget sz now s =
     (if deadline s \<le> now \<or> remaining s < int sz
      then (Inl (ValueError ''local session lifetime/byte budget exhausted''), close_session s)
      else (Inr (), s\<lparr>remaining := remaining s - int sz\<rparr>))"

definition local_send :: "bytes \<Rightarrow> rat \<Rightarrow> nat res \<Rightarrow> session \<Rightarrow> unit res \<times> session" where
  "local_send data now r s =
     (case local_budget (length data) now s of
        (Inl e, s1) \<Rightarrow> (Inl e, s1)
      | (Inr _, s1) \<Rightarrow> (ebind (sock s1 r) (\<lambda>_. Inr ()), s1))"

text \<open>\<open>arrived\<close> is what the socket has for the receive, and \<open>now'\<close> the time after it.\<close>

definition local_receive :: "int \<Rightarrow> rat \<Rightarrow> rat \<Rightarrow> bytes res \<Rightarrow> session \<Rightarrow> bytes res \<times> session" where
  "local_receive sz now now' arrived s =
     (if \<not> (1 \<le> sz \<and> sz \<le> 65536) then (Inl (ValueError ''invalid receive bound''), s)
      else
        (case local_budget 0 now s of
           (Inl e, s1) \<Rightarrow> (Inl e, s1)
         | (Inr _, s1) \<Rightarrow>
             (case sock s1 arrived of
                Inl e \<Rightarrow> (Inl e, s1)
              | Inr full \<Rightarrow>
                  (let data = take (nat (min sz (if remaining s1 = 0 then 1 else remaining s1))) full in
                   case local_budget (length data) now' s1 of (Inl e, s2) \<Rightarrow> (Inl e, s2) | (Inr _, s2) \<Rightarrow> (Inr data, s2)))))"

definition message_budget :: "nat \<Rightarrow> rat \<Rightarrow> session \<Rightarrow> unit res \<times> session" where
  "message_budget count now s =
     (if deadline s \<le> now \<or> remaining s < int count
      then (Inl (ValueError ''ApplicationSessionBudgetExhausted''), close_session s)
      else (Inr (), s))"

definition finish :: "rat \<Rightarrow> nat res \<Rightarrow> session \<Rightarrow> unit res \<times> session" where
  "finish now r s =
     (if s_mode s \<noteq> asc ''seqpacket-fd'' then (Inl (ValueError ''UnsupportedApplicationEOF: best-effort datagram boundary''), s)
      else if write_closed s then (Inr (), s)
      else
        (case message_budget 0 now s of
           (Inl e, s1) \<Rightarrow> (Inl e, s1)
         | (Inr _, s1) \<Rightarrow> (case sock s1 r of Inl e \<Rightarrow> (Inl e, s1) | Inr _ \<Rightarrow> (Inr (), s1\<lparr>write_closed := True\<rparr>))))"

definition send_record :: "bytes \<Rightarrow> rat \<Rightarrow> nat res \<Rightarrow> session \<Rightarrow> unit res \<times> session" where
  "send_record data now r s =
     (if max_record s < length data then (Inl (ValueError ''OversizedApplicationRecord''), s)
      else if write_closed s then (Inl (ValueError ''ApplicationWriteClosed''), s)
      else
        (case message_budget (length data) now s of
           (Inl e, s1) \<Rightarrow> (Inl e, s1)
         | (Inr _, s1) \<Rightarrow>
             if s_mode s = asc ''seqpacket-fd'' \<and> data = [] then finish now r s1
             else
               (case sock s1 r of
                  Inl (BlockingIOError _) \<Rightarrow> (Inl (BlockingIOError ''ApplicationBackpressure''), s1)
                | Inl e \<Rightarrow> (Inl e, s1)
                | Inr count \<Rightarrow>
                    if count \<noteq> length data then (Inl (ValueError ''ApplicationRecordPartialSend''), s1)
                    else (Inr (), s1\<lparr>remaining := remaining s1 - int count\<rparr>))))"

definition receive_record :: "rat \<Rightarrow> rat \<Rightarrow> bytes res \<Rightarrow> session \<Rightarrow> bytes res \<times> session" where
  "receive_record now now' arrived s =
     (case message_budget 0 now s of
        (Inl e, s1) \<Rightarrow> (Inl e, s1)
      | (Inr _, s1) \<Rightarrow>
          (case sock s1 arrived of
             Inl e \<Rightarrow> (Inl e, s1)
           | Inr full \<Rightarrow>
               (let data = take (max_record s1 + 1) full; truncated = max_record s1 + 1 < length full in
                if truncated \<or> max_record s1 < length data then (Inl (ValueError ''OversizedApplicationRecord''), s1)
                else
                  (case message_budget (length data) now' s1 of
                     (Inl e, s2) \<Rightarrow> (Inl e, s2)
                   | (Inr _, s2) \<Rightarrow>
                       (Inr data, s2\<lparr>remaining := remaining s2 - int (length data),
                                     eof := (if s_mode s2 = asc ''seqpacket-fd'' \<and> data = [] then True else eof s2)\<rparr>)))))"

text \<open>What the credited boundary reads of the adapter of its session.\<close>

record adapter_view =
  av_max_message :: nat
  av_window_frames :: nat
  av_policy_window :: nat
  av_max_window :: nat
  av_payload :: nat

text \<open>\<^verbatim>\<open>CreditedBoundary.__init__\<close>; \<open>free\<close> tells whether one of the 64 workers is free and
  \<open>pair\<close> is the kind of local socket pair that \<^verbatim>\<open>record_pair\<close> finds.\<close>

definition credited_init :: "rat \<Rightarrow> bool \<Rightarrow> ustr \<Rightarrow> adapter_view \<Rightarrow> pyval \<Rightarrow> int \<Rightarrow> rat \<Rightarrow> session res" where
  "credited_init now free pair av kind maximum lifetime =
     ebind (raise_if (kind \<notin> {jstr ''stream'', jstr ''message''} \<or> \<not> (1 \<le> maximum \<and> maximum \<le> 65536)) (ValueError ''InvalidCreditedBoundary'')) (\<lambda>_.
     ebind (raise_if (\<not> (0 < lifetime \<and> lifetime \<le> 300)) (ValueError ''InvalidCreditedLifetime'')) (\<lambda>_.
     ebind (raise_if (\<not> free) (ValueError ''ApplicationSessionCapacityReached'')) (\<lambda>_.
     let window = min (if av_window_frames av = 0 then av_policy_window av else av_window_frames av) (av_max_window av);
         record_limit = min (min (nat maximum) (av_max_message av)) (av_payload av * window) in
       Inr \<lparr>skind = Credited, deadline = now + lifetime, remaining = session_bytes, max_record = record_limit,
            read_bound = (if kind = jstr ''stream'' then av_payload av else record_limit),
            s_mode = (if kind = jstr ''stream'' then asc ''stream'' else pair), eof = False, write_closed = False, connected = True, stopped = False\<rparr>)))"

text \<open>The credited boundary: its worker keeps the budget, so that the calls of the application
  only use the socket pair.\<close>

definition credited_send :: "bool \<Rightarrow> bytes \<Rightarrow> nat res \<Rightarrow> session \<Rightarrow> unit res \<times> session" where
  "credited_send record_wise data r s =
     (if record_wise \<and> max_record s < length data then (Inl (ValueError ''OversizedApplicationRecord''), s)
      else (ebind (sock s r) (\<lambda>_. Inr ()), s))"

definition credited_receive :: "bool \<Rightarrow> int \<Rightarrow> bytes res \<Rightarrow> session \<Rightarrow> bytes res \<times> session" where
  "credited_receive record_wise sz arrived s =
     (case sock s arrived of
        Inl e \<Rightarrow> (Inl e, s)
      | Inr full \<Rightarrow>
          if record_wise
          then (let data = take (max_record s + 1) full in
                if max_record s < length data then (Inl (ValueError ''OversizedApplicationRecord''), s) else (Inr data, s))
          else (Inr (take (nat sz) full), s))"

text \<open>The worker between the socket pair and the credited session. One turn of its loop sees the
  time, the status of the service where it is due, what arrived on the socket, and the results of
  the three calls it may make.\<close>

record worker =
  wk_session :: session
  outgoing :: "bytes option"
  pending_in :: "bytes option"

record turn_view =
  tv_status :: "pydict option"
  tv_arrived :: "bytes option"
  tv_sent :: "unit res"
  tv_received :: "bytes option res"
  tv_count :: "nat res"

datatype turn = Go | Break | Raise exn

definition status_ok :: "ustr \<Rightarrow> pydict option \<Rightarrow> bool" where
  "status_ok lock_digest st =
     (case st of
        None \<Rightarrow> True
      | Some d \<Rightarrow> fld d ''state'' \<in> {jstr ''running'', jstr ''degraded''} \<and> fld (the_obj (fld d ''deploymentLock'')) ''digest'' = JStr lock_digest)"

definition worker_read :: "bytes option \<Rightarrow> worker \<Rightarrow> turn \<times> worker" where
  "worker_read arrived w =
     (let s = wk_session w in
      case (outgoing w, arrived) of
        (None, Some full) \<Rightarrow>
          (let bound = (if s_mode s = asc ''stream'' then read_bound s else max_record s + 1); data = take bound full in
           if s_mode s \<noteq> asc ''stream'' \<and> bound < length full then (Raise (ValueError ''OversizedApplicationRecord''), w)
           else if data = [] \<and> s_mode s \<noteq> asc ''datagram'' then (Break, w\<lparr>outgoing := Some data\<rparr>)
           else if max_record s < length data then (Raise (ValueError ''OversizedApplicationRecord''), w\<lparr>outgoing := Some data\<rparr>)
           else (Go, w\<lparr>outgoing := Some data\<rparr>))
      | _ \<Rightarrow> (Go, w))"

definition spend :: "nat \<Rightarrow> worker \<Rightarrow> worker" where
  "spend n w = w\<lparr>wk_session := (wk_session w)\<lparr>remaining := remaining (wk_session w) - int n\<rparr>\<rparr>"

definition worker_send :: "unit res \<Rightarrow> worker \<Rightarrow> turn \<times> worker" where
  "worker_send sent w =
     (case outgoing w of
        None \<Rightarrow> (Go, w)
      | Some data \<Rightarrow>
          (case sent of
             Inr _ \<Rightarrow> (Go, (spend (length data) w)\<lparr>outgoing := None\<rparr>)
           | Inl e \<Rightarrow> if e = AdapterBackpressure ''S6NA_BACKPRESSURE'' then (Go, w) else (Raise e, w)))"

definition worker_take :: "bytes option res \<Rightarrow> worker \<Rightarrow> turn \<times> worker" where
  "worker_take received w =
     (if pending_in w \<noteq> None then (Go, w)
      else
        (case received of
           Inl e \<Rightarrow> (Raise e, w)
         | Inr None \<Rightarrow> (Go, w)
         | Inr (Some data) \<Rightarrow>
             if max_record (wk_session w) < length data then (Raise (ValueError ''OversizedApplicationRecord''), w\<lparr>pending_in := Some data\<rparr>)
             else (Go, w\<lparr>pending_in := Some data\<rparr>)))"

definition worker_deliver :: "nat res \<Rightarrow> worker \<Rightarrow> turn \<times> worker" where
  "worker_deliver count w =
     (case pending_in w of
        None \<Rightarrow> (Go, w)
      | Some data \<Rightarrow>
          (case count of
             Inl (BlockingIOError _) \<Rightarrow> (Go, w)
           | Inl e \<Rightarrow> (Raise e, w)
           | Inr n \<Rightarrow>
               if s_mode (wk_session w) \<noteq> asc ''stream'' \<and> n \<noteq> length data then (Raise (ValueError ''ApplicationRecordPartialSend''), spend n w)
               else (Go, (spend n w)\<lparr>pending_in := (if n < length data then Some (drop n data) else None)\<rparr>)))"

definition then_turn :: "turn \<times> worker \<Rightarrow> (worker \<Rightarrow> turn \<times> worker) \<Rightarrow> turn \<times> worker" where
  "then_turn r f = (case r of (Go, w) \<Rightarrow> f w | (x, w) \<Rightarrow> (x, w))"

definition worker_turn :: "ustr \<Rightarrow> rat \<Rightarrow> turn_view \<Rightarrow> worker \<Rightarrow> turn \<times> worker" where
  "worker_turn lock_digest now v w =
     (if stopped (wk_session w) \<or> deadline (wk_session w) \<le> now \<or> remaining (wk_session w) \<le> 0 then (Break, w)
      else if \<not> status_ok lock_digest (tv_status v) then (Raise (ValueError ''CreditedServiceBindingChanged''), w)
      else
        then_turn (then_turn (then_turn (worker_read (tv_arrived v) w) (worker_send (tv_sent v))) (worker_take (tv_received v)))
          (worker_deliver (tv_count v)))"

text \<open>One turn with the \<^verbatim>\<open>finally\<close> of the loop: whatever ends it stops the session.\<close>

definition worker_step :: "ustr \<Rightarrow> rat \<Rightarrow> turn_view \<Rightarrow> worker \<Rightarrow> worker" where
  "worker_step lock_digest now v w =
     (case worker_turn lock_digest now v w of
        (Go, w') \<Rightarrow> w'
      | (_, w') \<Rightarrow> w'\<lparr>wk_session := (wk_session w')\<lparr>stopped := True\<rparr>\<rparr>)"

section \<open>Opening a local session\<close>

text \<open>What can be observed of the host while a session is outcome.\<close>

datatype answer = Answer bytes bool | NoAnswer | Failed exn

record host_view =
  hv_alive :: "pyval \<Rightarrow> bool"
  hv_alive_after :: "pyval \<Rightarrow> bool"
  hv_sockets :: "pyval \<Rightarrow> pydict list"
  hv_private :: "pyval \<Rightarrow> bool"
  hv_seqpacket :: "pyval \<Rightarrow> pyval \<Rightarrow> pyval \<Rightarrow> bool"
  hv_connect :: "unit res"
  hv_peer :: "int \<times> int"
  hv_euid :: int
  hv_answer :: answer
  hv_profile :: "pyval \<Rightarrow> pyval \<Rightarrow> pydict res"

definition application_adapter :: "pyval \<Rightarrow> pyval \<Rightarrow> pydict res" where
  "application_adapter profile provider =
     (let p = the_obj profile; contract = fld p ''applicationBoundary''; kind = fld (the_obj contract) ''kind'' in
      ebind (raise_if (\<not> is_obj profile \<or> \<not> is_str (fld p ''id'') \<or> provider \<notin> {jstr ''native'', jstr ''s6na''}) (ValueError ''InvalidApplicationAdapterBinding'')) (\<lambda>_.
      ebind (raise_if (\<not> is_obj contract \<or> kind \<notin> {jstr ''stream'', jstr ''message''}) (ValueError ''UnsupportedApplicationBoundary'')) (\<lambda>_.
      let result = the_obj (jobj [(''provider'', provider), (''profile'', fld p ''id''), (''boundary'', kind), (''mode'', jstr ''profile-native'')]) in
        Inr (if provider = jstr ''s6na''
             then dset (asc ''recordPreserving'') (JBool (kind = jstr ''message'')) (dset (asc ''mode'') (jstr ''transparent-profile'') result)
             else result))))"

definition open_socket :: "pyval \<Rightarrow> string \<Rightarrow> string list \<Rightarrow> pydict list \<Rightarrow> bool" where
  "open_socket owner_target transport names_of ss \<longleftrightarrow>
     list_ex (\<lambda>s. fld s ''transport'' = jstr transport \<and> list_all (\<lambda>f. py_eq (fld s f) (fld (the_obj owner_target) f)) names_of) ss"

definition open_stream :: "host_view \<Rightarrow> rat \<Rightarrow> pydict \<Rightarrow> session res" where
  "open_stream hv now plan =
     (let tgt = fld plan ''endpoint''; t = the_obj tgt; owner = getd t ''owner'' (JObj []) in
      ebind (raise_if (fld plan ''readiness'' \<noteq> jstr ''application-ready'' \<or> \<not> is_obj tgt \<or> fld t ''observation'' \<noteq> jstr ''structured-ready-event''
                       \<or> fld t ''boundary'' \<noteq> jstr ''stream'' \<or> fld t ''mode'' \<noteq> jstr ''localhost-tcp-proxy'' \<or> \<not> hv_private hv tgt)
              (ValueError ''capability unavailable: safe local application stream session'')) (\<lambda>_.
      ebind (raise_if (\<not> hv_alive hv (getd plan ''runtimeIdentity'' (JObj [])) \<or> \<not> hv_alive hv owner
                       \<or> \<not> open_socket tgt ''tcp'' [''host'', ''port''] (hv_sockets hv (fld (the_obj owner) ''pid'')))
              (ValueError ''application endpoint owner is unavailable'')) (\<lambda>_.
      ebind (hv_connect hv) (\<lambda>_.
      ebind (raise_if (\<not> hv_alive_after hv owner) (ValueError ''application endpoint owner changed'')) (\<lambda>_.
        Inr \<lparr>skind = Local, deadline = now + 300, remaining = session_bytes, max_record = 0, read_bound = 0, s_mode = [], eof = False,
             write_closed = False, connected = True, stopped = False\<rparr>)))))"

definition HANDSHAKE_SCHEMA :: string where
  "HANDSHAKE_SCHEMA = ''shadow6.local-record-attachment.v1''"

text \<open>The answer to the handshake of a record attachment.\<close>

definition check_answer :: "(ustr \<Rightarrow> ustr) \<Rightarrow> ustr \<Rightarrow> int \<Rightarrow> answer \<Rightarrow> unit res" where
  "check_answer nfc nonce maximum a =
     (case a of
        NoAnswer \<Rightarrow> Inl (ValueError ''UnsupportedApplicationBoundary:AttachmentUnavailable'')
      | Failed e \<Rightarrow> Inl e
      | Answer full truncated \<Rightarrow>
          ebind (portable_json nfc 262144 (BytesIn (take 4096 full))) (\<lambda>response.
          let d = the_obj response in
          ebind (raise_if (truncated \<or> \<not> is_obj response) (ValueError ''InvalidAttachmentAcknowledgement'')) (\<lambda>_.
          ebind (raise_if (keys_are [''schema'', ''error''] d \<and> fld d ''schema'' = jstr HANDSHAKE_SCHEMA) (ValueError ''UnsupportedApplicationBoundary'')) (\<lambda>_.
          raise_if (\<not> py_eq response (jobj [(''schema'', jstr HANDSHAKE_SCHEMA), (''nonce'', JStr nonce), (''state'', jstr ''accepted''), (''maxRecord'', JInt maximum)]))
            (ValueError ''InvalidAttachmentAcknowledgement'')))))"

definition attach_datagram :: "host_view \<Rightarrow> pyval \<Rightarrow> unit res" where
  "attach_datagram hv tgt =
     (let t = the_obj tgt; owner = getd t ''owner'' (JObj []) in
      ebind (raise_if (fld t ''observation'' \<noteq> jstr ''structured-ready-event''
                       \<or> \<not> open_socket tgt ''udp'' [''host'', ''port''] (hv_sockets hv (fld (the_obj owner) ''pid'')))
              (ValueError ''ApplicationEndpointOwnerUnavailable'')) (\<lambda>_.
        hv_connect hv))"

definition attach_seqpacket :: "(ustr \<Rightarrow> ustr) \<Rightarrow> host_view \<Rightarrow> ustr \<Rightarrow> int \<Rightarrow> pyval \<Rightarrow> unit res" where
  "attach_seqpacket nfc hv nonce maximum tgt =
     (let t = the_obj tgt; owner = getd t ''owner'' (JObj []); native = getd t ''nativeOwner'' (JObj []); opid = fld (the_obj owner) ''pid'' in
      ebind (raise_if (fld t ''attachmentState'' \<noteq> jstr ''available'') (ValueError ''UnsupportedApplicationBoundary:AttachmentConsumed'')) (\<lambda>_.
      ebind (raise_if (fld t ''observation'' \<noteq> jstr ''supervisor-owned-record-adapter'' \<or> \<not> hv_alive hv native
                       \<or> \<not> hv_seqpacket hv (fld (the_obj native) ''pid'') (fld t ''nativeFd'') (fld t ''nativeInode''))
              (ValueError ''NativeApplicationFDOwnerUnavailable'')) (\<lambda>_.
      ebind (raise_if (\<not> open_socket tgt ''unix-seqpacket'' [''path''] (hv_sockets hv opid)) (ValueError ''ApplicationEndpointOwnerUnavailable'')) (\<lambda>_.
      ebind (hv_connect hv) (\<lambda>_.
      ebind (raise_if (\<not> py_eq (JInt (fst (hv_peer hv))) opid \<or> snd (hv_peer hv) \<noteq> hv_euid hv \<or> \<not> hv_alive hv owner) (ValueError ''AttachmentPeerIdentityMismatch'')) (\<lambda>_.
        check_answer nfc nonce maximum (hv_answer hv)))))))"

definition open_message :: "(ustr \<Rightarrow> ustr) \<Rightarrow> host_view \<Rightarrow> rat \<Rightarrow> ustr \<Rightarrow> pydict \<Rightarrow> session res" where
  "open_message nfc hv now nonce plan =
     ebind (hv_profile hv (fld plan ''profileBinding'') (fld plan ''core'')) (\<lambda>profile.
     let tgt = fld plan ''endpoint''; t = the_obj tgt; owner = getd t ''owner'' (JObj []); mode = fld t ''mode'';
         limits = getd plan ''effectiveLimits'' (JObj []); maximum = fld (the_obj (fld profile ''limits'')) ''max_record'' in
     ebind (raise_if (fld plan ''readiness'' \<noteq> jstr ''application-ready'' \<or> fld (the_obj (fld profile ''applicationBoundary'')) ''kind'' \<noteq> jstr ''message''
                      \<or> \<not> is_obj tgt \<or> fld t ''boundary'' \<noteq> jstr ''message'' \<or> \<not> py_eq mode (fld (the_obj (fld profile ''attachment'')) ''mode'') \<or> \<not> hv_private hv tgt)
             (ValueError ''UnsupportedApplicationBoundary: observed local message attachment required'')) (\<lambda>_.
     ebind (raise_if (\<not> hv_alive hv (getd plan ''runtimeIdentity'' (JObj [])) \<or> \<not> hv_alive hv owner) (ValueError ''ApplicationEndpointOwnerUnavailable'')) (\<lambda>_.
     ebind (raise_if (\<not> is_obj limits) (TypeError ''object has no attribute get'')) (\<lambda>_.
     let effective = getd (the_obj limits) ''max_record'' maximum in
     ebind (raise_if (\<not> int_in 1 (the_int maximum) effective) (ValueError ''InvalidApplicationRecordLimit'')) (\<lambda>_.
     ebind (if mode = jstr ''localhost-udp-datagram-proxy'' then attach_datagram hv tgt
            else if mode = jstr ''seqpacket-fd'' then attach_seqpacket nfc hv nonce (the_int effective) tgt
            else Inl (ValueError ''UnsupportedApplicationBoundary: message attachment mode'')) (\<lambda>_.
     ebind (raise_if (\<not> hv_alive_after hv owner) (ValueError ''ApplicationEndpointOwnerChanged'')) (\<lambda>_.
       Inr \<lparr>skind = Message, deadline = now + 300, remaining = session_bytes, max_record = nat (the_int effective), read_bound = 0, s_mode = the_str mode, eof = False,
            write_closed = False, connected = True, stopped = False\<rparr>)))))))"

text \<open>The boundary that the plan, the endpoint, the profile and the adapter agree on; \<open>JNull\<close> stands for none.\<close>

definition agree :: "string \<Rightarrow> pyval \<Rightarrow> pyval \<Rightarrow> pyval res" where
  "agree msg boundary other = ebind (raise_if (boundary \<noteq> JNull \<and> \<not> py_eq boundary other) (ValueError msg)) (\<lambda>_. Inr other)"

definition session_boundary :: "host_view \<Rightarrow> pydict \<Rightarrow> pyval res" where
  "session_boundary hv plan =
     (let adapter = fld plan ''applicationAdapter''; ep = fld plan ''endpoint'' in
      ebind (raise_if (is_obj adapter \<and> fld (the_obj adapter) ''provider'' = jstr ''s6na'') (ValueError ''UnsupportedApplicationBoundary: credited provider required'')) (\<lambda>_.
      ebind (if fld plan ''profileBinding'' = JNull then Inr None
             else ebind (hv_profile hv (fld plan ''profileBinding'') (fld plan ''core'')) (\<lambda>p. Inr (Some p))) (\<lambda>profile.
      ebind (if fld plan ''readiness'' = jstr ''application-ready'' \<and> is_obj ep \<and> fld (the_obj ep) ''boundary'' \<noteq> JNull
             then agree ''ProfileCapabilityMismatch: observed application boundary differs'' (fld plan ''applicationBoundary'') (fld (the_obj ep) ''boundary'')
             else Inr (fld plan ''applicationBoundary'')) (\<lambda>b1.
      ebind (case profile of
               Some p \<Rightarrow> agree ''ProfileCapabilityMismatch: application boundary differs from ProfileBinding'' b1 (fld (the_obj (fld p ''applicationBoundary'')) ''kind'')
             | None \<Rightarrow> Inr b1) (\<lambda>b2.
      if is_obj adapter \<and> fld (the_obj adapter) ''provider'' = jstr ''native''
      then ebind (agree ''ProfileCapabilityMismatch: native adapter boundary differs'' b2 (fld (the_obj adapter) ''boundary'')) (\<lambda>declared.
             Inr (if b2 = JNull then declared else b2))
      else Inr b2)))))"

definition open_local_session :: "(ustr \<Rightarrow> ustr) \<Rightarrow> host_view \<Rightarrow> rat \<Rightarrow> ustr \<Rightarrow> pyval \<Rightarrow> session res" where
  "open_local_session nfc hv now nonce v =
     ebind (raise_if (\<not> is_obj v) (ValueError ''UnsupportedApplicationBoundary: connection plan required'')) (\<lambda>_.
     let plan = the_obj v in
     ebind (session_boundary hv plan) (\<lambda>boundary.
     if boundary = jstr ''message'' then open_message nfc hv now nonce plan
     else if boundary = jstr ''stream'' then open_stream hv now plan
     else if boundary = jstr ''credited'' then Inl (ValueError ''UnsupportedApplicationBoundary: credited provider required'')
     else if fld plan ''readiness'' \<noteq> jstr ''application-ready'' then Inl (ValueError ''capability unavailable: application endpoint is not ready'')
     else Inl (ValueError ''UnsupportedApplicationBoundary: no locked local application boundary'')))"

section \<open>The table of handles\<close>

definition MAX_SESSIONS :: nat where
  "MAX_SESSIONS = 64"

definition MAX_READ_BYTES :: nat where
  "MAX_READ_BYTES = 65536"

definition MAX_WRITE_BYTES :: nat where
  "MAX_WRITE_BYTES = 32768"

definition MAX_TIMEOUT_MS :: nat where
  "MAX_TIMEOUT_MS = 5000"

record entry =
  e_service :: ustr
  e_lock :: ustr
  e_plan :: ustr
  record_wise :: bool
  e_session :: session

record manager =
  limit :: nat
  entries :: "(ustr \<times> entry) list"
  transfers :: "(ustr \<times> entry) list"

definition manager_init :: "int \<Rightarrow> manager res" where
  "manager_init n =
     ebind (raise_if (\<not> (1 \<le> n \<and> n \<le> int MAX_SESSIONS)) (ValueError ''InvalidApplicationSessionLimit'')) (\<lambda>_.
       Inr \<lparr>limit = nat n, entries = [], transfers = []\<rparr>)"

definition remaining_ms :: "rat \<Rightarrow> session \<Rightarrow> int" where
  "remaining_ms now s = max 0 \<lfloor>(deadline s - now) * 1000\<rfloor>"

definition metadata :: "rat \<Rightarrow> ustr \<Rightarrow> entry \<Rightarrow> pydict" where
  "metadata now handle e =
     (let s = e_session e in
      the_obj (jobj ([(''schema'', jstr ''shadow6.application-session.v1''), (''handle'', JStr handle),
         (''boundary'', if record_wise e then jstr ''message'' else jstr ''stream''), (''recordPreserving'', JBool (record_wise e)),
         (''lifetimeRemainingMs'', JInt (remaining_ms now s)), (''bytesRemaining'', JInt (max 0 (remaining s))),
         (''maxReadBytes'', JInt (int MAX_READ_BYTES)), (''maxWriteBytes'', JInt (int MAX_WRITE_BYTES))]
         @ (if record_wise e then [(''maxRecord'', JInt (int (max_record s)))] else []))))"

definition reap :: "rat \<Rightarrow> manager \<Rightarrow> manager" where
  "reap now m = m\<lparr>entries := filter (\<lambda>(_, e). now < deadline (e_session e)) (entries m),
                  transfers := filter (\<lambda>(_, e). \<not> stopped (e_session e)) (transfers m)\<rparr>"

text \<open>The loop that draws a handle until it is new; \<open>draw i\<close> is the token of the \<open>i\<close>-th call.\<close>

partial_function (option) fresh_handle :: "(nat \<Rightarrow> ustr) \<Rightarrow> (ustr \<times> entry) list \<Rightarrow> nat \<Rightarrow> ustr option" where
  "fresh_handle draw es i = (if map_of es (draw i) = None then Some (draw i) else fresh_handle draw es (Suc i))"

text \<open>A capability the provider of credited sessions has outcome, with the local resources of its worker.\<close>

record credited_view =
  cv_adapter :: "adapter_view res"
  cv_free :: bool
  cv_pair :: ustr

definition default_int :: "int \<Rightarrow> pyval \<Rightarrow> int" where
  "default_int n v = (case v of JInt i \<Rightarrow> i | _ \<Rightarrow> n)"

definition open_credited :: "credited_view \<Rightarrow> rat \<Rightarrow> pydict \<Rightarrow> session res" where
  "open_credited cv now plan =
     ebind (cv_adapter cv) (\<lambda>av.
     let kind = fld (the_obj (fld plan ''applicationAdapter'')) ''boundary'';
         maximum = min (min (int (av_max_message av)) (default_int 65536 (fld plan ''creditedBoundaryMaximum'')))
                     (default_int 65536 (fld (the_obj (fld plan ''effectiveLimits'')) ''max_record'')) in
       credited_init now (cv_free cv) (cv_pair cv) av kind maximum 300)"

text \<open>\<^verbatim>\<open>open\<close>; \<open>None\<close> means that the call does not return. A session that finds no room is closed at once.\<close>

definition manager_open ::
  "(ustr \<Rightarrow> ustr) \<Rightarrow> host_view \<Rightarrow> credited_view \<Rightarrow> rat \<Rightarrow> ustr \<Rightarrow> (nat \<Rightarrow> ustr) \<Rightarrow> ustr \<Rightarrow> ustr \<Rightarrow> ustr \<Rightarrow> pydict \<Rightarrow> manager \<Rightarrow> (pydict res \<times> manager) option" where
  "manager_open nfc hv cv now nonce draw service lock_digest plan_digest plan m =
     (let adapter = fld plan ''applicationAdapter''; is_credited = (fld (the_obj adapter) ''provider'' = jstr ''s6na'');
          outcome = (if \<not> is_obj adapter \<and> adapter \<notin> {JNull, JBool False, JInt 0, JStr [], JList []} then Inl (TypeError ''object has no attribute get'')
                    else if is_credited then open_credited cv now plan else open_local_session nfc hv now nonce (JObj plan)) in
      case outcome of
        Inl e \<Rightarrow> Some (Inl e, m)
      | Inr s \<Rightarrow>
          (let m1 = reap now m;
               e = \<lparr>e_service = service, e_lock = lock_digest, e_plan = plan_digest,
                    record_wise = (if is_credited then fld (the_obj adapter) ''boundary'' = jstr ''message'' else skind s = Message), e_session = s\<rparr> in
           if limit m1 \<le> length (entries m1) + length (transfers m1) then Some (Inl (ValueError ''ApplicationSessionCapacityReached''), m1)
           else
             (case fresh_handle draw (entries m1) 0 of
                None \<Rightarrow> None
              | Some handle \<Rightarrow> Some (Inr (metadata now handle e), m1\<lparr>entries := dset handle e (entries m1)\<rparr>))))"

definition handle_ok :: "ustr \<Rightarrow> bool" where
  "handle_ok h \<longleftrightarrow> 32 \<le> length h \<and> length h \<le> 128"

definition find_entry :: "rat \<Rightarrow> ustr \<Rightarrow> manager \<Rightarrow> entry res \<times> manager" where
  "find_entry now handle m =
     (if \<not> handle_ok handle then (Inl (ValueError ''InvalidApplicationSessionHandle''), m)
      else
        (let m1 = reap now m in
         (case map_of (entries m1) handle of
            None \<Rightarrow> (Inl (ValueError ''ApplicationSessionExpiredOrUnknown''), m1)
          | Some e \<Rightarrow> (Inr e, m1))))"

definition check_timeout :: "int \<Rightarrow> rat \<Rightarrow> session \<Rightarrow> unit res" where
  "check_timeout timeout_ms now s =
     ebind (raise_if (\<not> (1 \<le> timeout_ms \<and> timeout_ms \<le> int MAX_TIMEOUT_MS)) (ValueError ''InvalidApplicationSessionTimeout'')) (\<lambda>_.
     raise_if (deadline s - now \<le> 0) (ValueError ''ApplicationSessionExpiredOrUnknown''))"

definition put_session :: "ustr \<Rightarrow> entry \<Rightarrow> session \<Rightarrow> manager \<Rightarrow> manager" where
  "put_session handle e s m = m\<lparr>entries := dset handle (e\<lparr>e_session := s\<rparr>) (entries m)\<rparr>"

text \<open>\<^verbatim>\<open>close\<close>; the session itself is closed and forgotten with its entry.\<close>

definition manager_close :: "ustr \<Rightarrow> manager \<Rightarrow> bool res \<times> manager" where
  "manager_close handle m =
     (if \<not> handle_ok handle then (Inl (ValueError ''InvalidApplicationSessionHandle''), m)
      else if map_of (entries m) handle \<noteq> None then (Inr True, m\<lparr>entries := ddel handle (entries m)\<rparr>)
      else if map_of (transfers m) handle \<noteq> None then (Inr True, m\<lparr>transfers := ddel handle (transfers m)\<rparr>)
      else (Inr False, m))"

fun is_timeout :: "exn \<Rightarrow> bool" where
  "is_timeout (TimeoutError _) = True"
| "is_timeout _ = False"

fun is_blocking :: "exn \<Rightarrow> bool" where
  "is_blocking (BlockingIOError _) = True"
| "is_blocking _ = False"

definition session_receive :: "bool \<Rightarrow> int \<Rightarrow> rat \<Rightarrow> rat \<Rightarrow> bytes res \<Rightarrow> session \<Rightarrow> bytes res \<times> session" where
  "session_receive rw max_bytes now now' arrived s =
     (case skind s of
        Local \<Rightarrow> local_receive max_bytes now now' arrived s
      | Message \<Rightarrow> receive_record now now' arrived s
      | Credited \<Rightarrow> credited_receive rw max_bytes arrived s)"

definition session_send :: "bool \<Rightarrow> bytes \<Rightarrow> rat \<Rightarrow> nat res \<Rightarrow> session \<Rightarrow> unit res \<times> session" where
  "session_send rw data now r s =
     (case skind s of
        Local \<Rightarrow> local_send data now r s
      | Message \<Rightarrow> send_record data now r s
      | Credited \<Rightarrow> credited_send rw data r s)"

record read_result =
  rr_metadata :: pydict
  rr_data :: bytes
  rr_eof :: bool
  rr_closed :: bool

definition manager_read :: "ustr \<Rightarrow> int \<Rightarrow> int \<Rightarrow> rat \<Rightarrow> rat \<Rightarrow> bytes res \<Rightarrow> manager \<Rightarrow> read_result res \<times> manager" where
  "manager_read handle max_bytes timeout_ms now now' arrived m =
     (if \<not> (1 \<le> max_bytes \<and> max_bytes \<le> int MAX_READ_BYTES) then (Inl (ValueError ''InvalidApplicationSessionReadBound''), m)
      else
        (case find_entry now handle m of
           (Inl e, m1) \<Rightarrow> (Inl e, m1)
         | (Inr e, m1) \<Rightarrow>
             if record_wise e \<and> max_bytes < int (max_record (e_session e)) then (Inl (ValueError ''MessageReadBoundTooSmall''), m1)
             else
               (case check_timeout timeout_ms now (e_session e) of
                  Inl x \<Rightarrow> (Inl x, m1)
                | Inr _ \<Rightarrow>
                    (case session_receive (record_wise e) max_bytes now now' arrived (e_session e) of
                       (Inl x, s) \<Rightarrow>
                         (let m2 = put_session handle e s m1 in
                          if is_timeout x then (Inl (TimeoutError ''ApplicationSessionTimeout''), m2)
                          else (Inl x, snd (manager_close handle m2)))
                     | (Inr data, s) \<Rightarrow>
                         (let m2 = put_session handle e s m1; at_end = (if record_wise e then eof s else data = []);
                              r = \<lparr>rr_metadata = metadata now' handle (e\<lparr>e_session := s\<rparr>), rr_data = data, rr_eof = at_end, rr_closed = at_end\<rparr> in
                          if at_end
                          then (Inr (r\<lparr>rr_metadata := dset (asc ''lifetimeRemainingMs'') (JInt 0) (rr_metadata r)\<rparr>), snd (manager_close handle m2))
                          else (Inr r, m2))))))"

record write_result =
  wr_metadata :: pydict
  written :: nat
  wr_closed :: bool

definition manager_write :: "ustr \<Rightarrow> bytes \<Rightarrow> int \<Rightarrow> rat \<Rightarrow> rat \<Rightarrow> nat res \<Rightarrow> manager \<Rightarrow> write_result res \<times> manager" where
  "manager_write handle data timeout_ms now now' r m =
     (if MAX_WRITE_BYTES < length data then (Inl (ValueError ''InvalidApplicationSessionWriteBound''), m)
      else
        (case find_entry now handle m of
           (Inl e, m1) \<Rightarrow> (Inl e, m1)
         | (Inr e, m1) \<Rightarrow>
             (case check_timeout timeout_ms now (e_session e) of
                Inl x \<Rightarrow> (Inl x, m1)
              | Inr _ \<Rightarrow>
                  (case session_send (record_wise e) data now r (e_session e) of
                     (Inl x, s) \<Rightarrow>
                       (let m2 = put_session handle e s m1 in
                        if is_timeout x then (Inl (TimeoutError ''ApplicationSessionTimeout''), m2)
                        else if is_blocking x then (Inl x, m2)
                        else (Inl x, snd (manager_close handle m2)))
                   | (Inr _, s) \<Rightarrow>
                       (Inr \<lparr>wr_metadata = metadata now' handle (e\<lparr>e_session := s\<rparr>), written = length data, wr_closed = write_closed s\<rparr>,
                        put_session handle e s m1)))))"

text \<open>\<^verbatim>\<open>transfer_fd\<close>: the handle is revoked before the descriptor leaves; only a credited session,
  which has a \<^verbatim>\<open>detach\<close> of its own, is remembered. \<open>fd\<close> is the result of the detaching.\<close>

definition transfer_fd :: "ustr \<Rightarrow> rat \<Rightarrow> int res \<Rightarrow> manager \<Rightarrow> int res \<times> manager" where
  "transfer_fd handle now fd m =
     (case find_entry now handle m of
        (Inl e, m1) \<Rightarrow> (Inl e, m1)
      | (Inr e, m1) \<Rightarrow>
          (let m2 = m1\<lparr>entries := ddel handle (entries m1)\<rparr> in
           case sock (e_session e) fd of
             Inl x \<Rightarrow> (Inl x, m2)
           | Inr n \<Rightarrow> (Inr n, if skind (e_session e) = Credited then m2\<lparr>transfers := dset handle e (transfers m2)\<rparr> else m2)))"

definition close_one :: "ustr \<Rightarrow> nat \<times> manager \<Rightarrow> nat \<times> manager" where
  "close_one h nm = (case manager_close h (snd nm) of (r, m') \<Rightarrow> (if r = Inr True then fst nm + 1 else fst nm, m'))"

definition close_list :: "ustr list \<Rightarrow> manager \<Rightarrow> nat \<times> manager" where
  "close_list hs m = fold close_one hs (0, m)"

definition close_service :: "ustr \<Rightarrow> manager \<Rightarrow> nat \<times> manager" where
  "close_service service m =
     close_list (map fst (filter (\<lambda>(_, e). e_service e = service) (entries m)) @ map fst (filter (\<lambda>(_, e). e_service e = service) (transfers m))) m"

definition close_all :: "manager \<Rightarrow> manager" where
  "close_all m = snd (close_list (map fst (entries m) @ map fst (transfers m)) m)"

text \<open>The table as several threads use it: any call, and a turn of the worker of a credited session.\<close>

inductive manager_step :: "manager \<Rightarrow> manager \<Rightarrow> bool" where
  open_call: "manager_open nfc hv cv now nonce draw service lock_digest plan_digest plan m = Some (r, m') \<Longrightarrow> manager_step m m'"
| read_call: "manager_read h n t now now' arrived m = (rr, m') \<Longrightarrow> manager_step m m'"
| write_call: "manager_write h data t now now' sent m = (rw, m') \<Longrightarrow> manager_step m m'"
| close_call: "manager_close h m = (rc, m') \<Longrightarrow> manager_step m m'"
| transfer_call: "transfer_fd h now fd m = (rt, m') \<Longrightarrow> manager_step m m'"
| service_call: "close_service service m = (k, m') \<Longrightarrow> manager_step m m'"
| shutdown: "manager_step m (close_all m)"
| work: "map_of (entries m) h = Some e \<Longrightarrow> skind (e_session e) = Credited \<Longrightarrow>
           manager_step m (put_session h e (wk_session (worker_step (e_lock e) now v \<lparr>wk_session = e_session e, outgoing = out, pending_in = inc\<rparr>)) m)"
| work_lent: "map_of (transfers m) h = Some e \<Longrightarrow> skind (e_session e) = Credited \<Longrightarrow>
           s = wk_session (worker_step (e_lock e) now v \<lparr>wk_session = e_session e, outgoing = out, pending_in = inc\<rparr>) \<Longrightarrow>
           manager_step m (m\<lparr>transfers := dset h (e\<lparr>e_session := s\<rparr>) (transfers m)\<rparr>)"

section \<open>What a session may still spend\<close>

definition session_ok :: "session \<Rightarrow> bool" where
  "session_ok s \<longleftrightarrow> remaining s \<le> session_bytes \<and> (skind s \<noteq> Credited \<longrightarrow> 0 \<le> remaining s)"

text \<open>The budget of a session after an operation: no larger, and still not overdrawn.\<close>

definition spent :: "session \<Rightarrow> session \<Rightarrow> bool" where
  "spent s s' \<longleftrightarrow> skind s' = skind s \<and> remaining s' \<le> remaining s \<and> (skind s \<noteq> Credited \<longrightarrow> 0 \<le> remaining s \<longrightarrow> 0 \<le> remaining s')"

lemma spent_refl [simp]: "spent s s"
  by (simp add: spent_def)

lemma spent_trans: "spent s t \<Longrightarrow> spent t u \<Longrightarrow> spent s u"
  by (auto simp: spent_def)

lemma spent_close [simp]: "spent s (close_session s)"
  by (simp add: spent_def close_session_def)

lemma spent_ok: "spent s s' \<Longrightarrow> session_ok s \<Longrightarrow> session_ok s'"
  by (auto simp: spent_def session_ok_def)

lemma local_budget_spent: "local_budget n now s = (r, s') \<Longrightarrow> spent s s'"
  by (auto simp: local_budget_def spent_def close_session_def split: if_splits)

lemma message_budget_cases:
  "message_budget n now s = (r, s') \<Longrightarrow> (s' = s \<and> int n \<le> remaining s \<and> r = Inr ()) \<or> (s' = close_session s \<and> (\<exists>e. r = Inl e))"
  by (auto simp: message_budget_def split: if_splits)

lemma message_budget_spent: "message_budget n now s = (r, s') \<Longrightarrow> spent s s'"
  using message_budget_cases by (metis spent_close spent_refl)

lemma local_send_spent: "local_send data now x s = (r, s') \<Longrightarrow> spent s s'"
  by (auto simp: local_send_def split: prod.splits sum.splits dest: local_budget_spent)

lemma local_receive_spent: "local_receive n now now' x s = (r, s') \<Longrightarrow> spent s s'"
  by (auto simp: local_receive_def Let_def split: if_splits prod.splits sum.splits dest!: local_budget_spent intro: spent_trans)

lemma finish_spent: "finish now x s = (r, s') \<Longrightarrow> spent s s'"
  by (auto simp: finish_def split: if_splits prod.splits sum.splits dest!: message_budget_spent) (auto simp: spent_def)

lemma send_record_spent:
  assumes "send_record data now x s = (r, s')"
  shows "spent s s'"
proof -
  obtain r1 s1 where b: "message_budget (length data) now s = (r1, s1)" by (cases "message_budget (length data) now s")
  consider (early) "s' = s" | (over) "s' = s1" | (fin) y where "finish now y s1 = (r, s')"
    | (paid) "r1 = Inr ()" "s' = s1\<lparr>remaining := remaining s1 - int (length data)\<rparr>"
    using assms unfolding send_record_def b by (auto split: if_splits sum.splits exn.splits)
  then show ?thesis
  proof cases
    case paid
    then have "s1 = s" "int (length data) \<le> remaining s" using message_budget_cases [OF b] by auto
    then show ?thesis using paid by (simp add: spent_def)
  next
    case (fin y)
    then show ?thesis using finish_spent message_budget_spent [OF b] spent_trans by blast
  qed (use message_budget_spent [OF b] in simp_all)
qed

lemma receive_record_spent:
  assumes "receive_record now now' x s = (r, s')"
  shows "spent s s'"
proof -
  obtain r1 s1 where b: "message_budget 0 now s = (r1, s1)" by (cases "message_budget 0 now s")
  have "spent s1 s'"
  proof (cases "\<exists>full. r1 = Inr () \<and> sock s1 x = Inr full \<and> length full \<le> max_record s1")
    case False
    then have "s' = s1"
      using assms unfolding receive_record_def b Let_def by (auto simp: min_def split: if_splits sum.splits)
    then show ?thesis by simp
  next
    case True
    then obtain full where f: "r1 = Inr ()" "sock s1 x = Inr full" "length full \<le> max_record s1" by blast
    obtain r2 s2 where c: "message_budget (length full) now' s1 = (r2, s2)" by (cases "message_budget (length full) now' s1")
    show ?thesis
    proof (cases r2)
      case (Inl e)
      then have "s' = s2" using assms f c unfolding receive_record_def b by (simp add: Let_def)
      then show ?thesis using message_budget_spent [OF c] by simp
    next
      case (Inr u)
      then have "s2 = s1" "int (length full) \<le> remaining s1" using message_budget_cases [OF c] by auto
      moreover have "remaining s' = remaining s2 - int (length full)" "skind s' = skind s2"
        using assms f c Inr unfolding receive_record_def b by (auto simp: Let_def)
      ultimately show ?thesis by (simp add: spent_def)
    qed
  qed
  then show ?thesis using message_budget_spent [OF b] spent_trans by blast
qed

lemma session_receive_spent: "session_receive rw n now now' x s = (r, s') \<Longrightarrow> spent s s'"
  by (cases "skind s")
     (auto simp: session_receive_def credited_receive_def Let_def split: sum.splits if_splits dest: local_receive_spent receive_record_spent)

lemma session_send_spent: "session_send rw data now x s = (r, s') \<Longrightarrow> spent s s'"
  by (cases "skind s")
     (auto simp: session_send_def credited_send_def split: if_splits dest: local_send_spent send_record_spent)

text \<open>The worker: every part of a turn only takes from the budget.\<close>

definition wspent :: "worker \<Rightarrow> worker \<Rightarrow> bool" where
  "wspent w w' \<longleftrightarrow> skind (wk_session w') = skind (wk_session w) \<and> remaining (wk_session w') \<le> remaining (wk_session w)"

lemma wspent_refl [simp]: "wspent w w"
  by (simp add: wspent_def)

lemma wspent_trans: "wspent u v \<Longrightarrow> wspent v w \<Longrightarrow> wspent u w"
  by (auto simp: wspent_def)

lemma worker_parts_spent:
  "wspent w (snd (worker_read a w))" "wspent w (snd (worker_send x w))" "wspent w (snd (worker_take y w))" "wspent w (snd (worker_deliver z w))"
  by (auto simp: worker_read_def worker_send_def worker_take_def worker_deliver_def Let_def wspent_def spend_def
      split: option.splits sum.splits exn.splits)

lemma then_turn_spent: "wspent w (snd r) \<Longrightarrow> (\<And>w. wspent w (snd (f w))) \<Longrightarrow> wspent w (snd (then_turn r f))"
  by (cases r) (auto simp: then_turn_def intro: wspent_trans split: turn.splits)

lemma worker_step_spent: "wspent w (worker_step d now v w)"
proof -
  have "wspent w (snd (worker_turn d now v w))"
    unfolding worker_turn_def by (auto intro!: then_turn_spent worker_parts_spent)
  then show ?thesis
    by (auto simp: worker_step_def wspent_def split: prod.splits turn.splits)
qed

lemma worker_spent:
  "skind s = Credited \<Longrightarrow> spent s (wk_session (worker_step d now v \<lparr>wk_session = s, outgoing = out, pending_in = inc\<rparr>))"
  using worker_step_spent [of "\<lparr>wk_session = s, outgoing = out, pending_in = inc\<rparr>" d now v] by (simp add: wspent_def spent_def)

lemma open_stream_Inr: "open_stream hv now plan = Inr s \<Longrightarrow> remaining s = session_bytes"
  unfolding open_stream_def Let_def ebind_Inr sum.inject by (elim exE conjE) (drule sym, simp)

lemma open_message_Inr: "open_message nfc hv now nonce plan = Inr s \<Longrightarrow> remaining s = session_bytes"
  unfolding open_message_def Let_def ebind_Inr sum.inject by (elim exE conjE) (drule sym, simp)

lemma opened_bytes: "open_local_session nfc hv now nonce v = Inr s \<Longrightarrow> remaining s = session_bytes"
  unfolding open_local_session_def Let_def ebind_Inr
  by (elim exE conjE) (auto split: if_splits dest: open_stream_Inr open_message_Inr)

lemma credited_init_Inr: "credited_init now free pair av kind maximum lifetime = Inr s \<Longrightarrow> skind s = Credited \<and> remaining s = session_bytes"
  unfolding credited_init_def Let_def ebind_Inr sum.inject by (elim exE conjE) (drule sym, simp)

lemma credited_bytes: "open_credited cv now plan = Inr s \<Longrightarrow> remaining s = session_bytes"
  unfolding open_credited_def Let_def ebind_Inr by (elim exE conjE) (auto dest: credited_init_Inr)

section \<open>The abstract table of capabilities\<close>

text \<open>What a client may rely on: which handles are live, for which service and with which budget,
  and which are lent out as descriptors.\<close>

record cap_table =
  live :: "ustr \<rightharpoonup> ustr \<times> int"
  lent :: "ustr set"

definition held :: "cap_table \<Rightarrow> nat" where
  "held t = card (dom (live t)) + card (lent t)"

inductive cap_step :: "nat \<Rightarrow> cap_table \<Rightarrow> cap_table \<Rightarrow> bool" where
  grant: "live t h = None \<Longrightarrow> held t < n \<Longrightarrow> cap_step n t (t\<lparr>live := (live t)(h \<mapsto> (service, session_bytes))\<rparr>)"
| spend: "live t h = Some (service, b) \<Longrightarrow> 0 \<le> b' \<Longrightarrow> b' \<le> b \<Longrightarrow> cap_step n t (t\<lparr>live := (live t)(h \<mapsto> (service, b'))\<rparr>)"
| revoke: "cap_step n t (t\<lparr>live := (live t)(h := None)\<rparr>)"
| recall: "cap_step n t (t\<lparr>lent := lent t - {h}\<rparr>)"
| lend: "live t h \<noteq> None \<Longrightarrow> cap_step n t \<lparr>live = (live t)(h := None), lent = insert h (lent t)\<rparr>"

definition abs_manager :: "manager \<Rightarrow> cap_table" where
  "abs_manager m =
     \<lparr>live = (\<lambda>h. map_option (\<lambda>e. (e_service e, max 0 (remaining (e_session e)))) (map_of (entries m) h)), lent = fst ` set (transfers m)\<rparr>"

definition manager_ok :: "manager \<Rightarrow> bool" where
  "manager_ok m \<longleftrightarrow>
     dict_ok (entries m) \<and> dict_ok (transfers m) \<and> (\<forall>h e. map_of (entries m) h = Some e \<longrightarrow> session_ok (e_session e))
     \<and> length (entries m) + length (transfers m) \<le> limit m"

definition refines :: "manager \<Rightarrow> manager \<Rightarrow> bool" where
  "refines m m' \<longleftrightarrow> manager_ok m' \<and> limit m' = limit m \<and> (cap_step (limit m))\<^sup>*\<^sup>* (abs_manager m) (abs_manager m')"

lemma refines_step: "manager_ok m' \<Longrightarrow> limit m' = limit m \<Longrightarrow> cap_step (limit m) (abs_manager m) (abs_manager m') \<Longrightarrow> refines m m'"
  by (simp add: refines_def)

lemma refines_ok: "refines m m' \<Longrightarrow> manager_ok m'"
  by (simp add: refines_def)

lemma refines_refl: "manager_ok m \<Longrightarrow> refines m m"
  by (simp add: refines_def)

lemma refines_trans: "refines m1 m2 \<Longrightarrow> refines m2 m3 \<Longrightarrow> refines m1 m3"
  by (auto simp: refines_def intro: rtranclp_trans)

lemma held_abs: "manager_ok m \<Longrightarrow> held (abs_manager m) = length (entries m) + length (transfers m)"
proof -
  assume ok: "manager_ok m"
  have "dom (live (abs_manager m)) = fst ` set (entries m)" by (auto simp: abs_manager_def dom_def map_of_eq_None_iff split: option.splits)
  moreover have "card (fst ` set (entries m)) = length (entries m)" "card (fst ` set (transfers m)) = length (transfers m)"
    using ok distinct_card [of "map fst (entries m)"] distinct_card [of "map fst (transfers m)"] by (simp_all add: manager_ok_def dict_ok_def)
  ultimately show ?thesis by (simp add: held_def abs_manager_def)
qed

lemma del_entry:
  assumes "manager_ok m"
  shows "refines m (m\<lparr>entries := ddel h (entries m)\<rparr>)"
proof -
  have a: "abs_manager (m\<lparr>entries := ddel h (entries m)\<rparr>) = (abs_manager m)\<lparr>live := (live (abs_manager m))(h := None)\<rparr>"
    by (auto simp: abs_manager_def map_of_ddel fun_eq_iff)
  have "manager_ok (m\<lparr>entries := ddel h (entries m)\<rparr>)"
    using assms length_ddel_le [of h "entries m"] by (auto simp: manager_ok_def map_of_ddel split: if_splits)
  then show ?thesis by (rule refines_step) (simp_all add: a cap_step.revoke)
qed

lemma keys_ddel: "fst ` set (ddel h d) = fst ` set d - {h}"
proof -
  have "fst ` set (ddel h d) = set (map fst (ddel h d))" by simp
  also have "\<dots> = fst ` set d - {h}" unfolding delete_keys by auto
  finally show ?thesis .
qed

lemma revoke_all: "finite D \<Longrightarrow> (cap_step n)\<^sup>*\<^sup>* t (t\<lparr>live := live t |` (- D)\<rparr>)"
proof (induction D rule: finite_induct)
  case (insert h D)
  have "(live t |` (- D))(h := None) = live t |` (- insert h D)" by (auto simp: restrict_map_def fun_eq_iff)
  then show ?case
    using insert.IH cap_step.revoke [of n "t\<lparr>live := live t |` (- D)\<rparr>" h] by (simp add: rtranclp.rtrancl_into_rtrancl)
qed simp

lemma recall_all: "finite D \<Longrightarrow> (cap_step n)\<^sup>*\<^sup>* t (t\<lparr>lent := lent t - D\<rparr>)"
proof (induction D rule: finite_induct)
  case (insert h D)
  have "lent t - D - {h} = lent t - insert h D" by auto
  then show ?case
    using insert.IH cap_step.recall [of n "t\<lparr>lent := lent t - D\<rparr>" h] by (simp add: rtranclp.rtrancl_into_rtrancl)
qed simp

lemma reap_refines:
  assumes "manager_ok m"
  shows "refines m (reap now m)"
proof -
  let ?E = "filter (\<lambda>(_, e). now < deadline (e_session e)) (entries m)" and ?T = "filter (\<lambda>(_, e). \<not> stopped (e_session e)) (transfers m)"
  have d: "dict_ok (entries m)" "dict_ok (transfers m)" using assms by (simp_all add: manager_ok_def)
  have E: "map_of ?E h = (case map_of (entries m) h of Some e \<Rightarrow> if now < deadline (e_session e) then Some e else None | None \<Rightarrow> None)" for h
    using map_of_filter_value [OF d(1)] by simp
  define D where "D = {h \<in> fst ` set (entries m). map_of ?E h = None}"
  define L where "L = fst ` set (transfers m) - fst ` set ?T"
  have "live (abs_manager (reap now m)) = live (abs_manager m) |` (- D)"
    by (auto simp: abs_manager_def reap_def E D_def restrict_map_def fun_eq_iff map_of_eq_None_iff [symmetric] split: option.splits)
  moreover have "fst ` set ?T = fst ` set (transfers m) - L" by (auto simp: L_def)
  ultimately have a: "abs_manager (reap now m) = (abs_manager m)\<lparr>live := live (abs_manager m) |` (- D), lent := lent (abs_manager m) - L\<rparr>"
    by (simp add: abs_manager_def reap_def)
  have "finite D" "finite L" by (simp_all add: D_def L_def)
  then have "(cap_step (limit m))\<^sup>*\<^sup>* (abs_manager m) (abs_manager (reap now m))"
    unfolding a using revoke_all [of D "limit m" "abs_manager m"] recall_all [of L "limit m" "(abs_manager m)\<lparr>live := live (abs_manager m) |` (- D)\<rparr>"]
    by (simp add: rtranclp_trans)
  moreover have len: "length ?E + length ?T \<le> limit m"
    by (rule order_trans [OF add_mono [OF length_filter_le length_filter_le]]) (use assms in \<open>simp add: manager_ok_def\<close>)
  have "manager_ok (reap now m)"
    using assms d len by (auto simp: manager_ok_def reap_def E dict_ok_filter split: option.splits if_splits)
  ultimately show ?thesis using \<open>manager_ok (reap now m)\<close> by (simp add: refines_def reap_def)
qed

lemma put_refines:
  assumes "manager_ok m" and "map_of (entries m) h = Some e" and "spent (e_session e) s"
  shows "refines m (put_session h e s m)"
proof -
  let ?b = "max 0 (remaining (e_session e))" and ?b' = "max 0 (remaining s)"
  have l: "live (abs_manager m) h = Some (e_service e, ?b)" using assms(2) by (simp add: abs_manager_def)
  have a: "abs_manager (put_session h e s m) = (abs_manager m)\<lparr>live := (live (abs_manager m))(h \<mapsto> (e_service e, ?b'))\<rparr>"
    by (auto simp: abs_manager_def put_session_def map_of_dset fun_eq_iff)
  have "cap_step (limit m) (abs_manager m) (abs_manager (put_session h e s m))"
    unfolding a by (rule cap_step.spend [OF l]) (use assms(3) in \<open>auto simp: spent_def\<close>)
  moreover have "session_ok s" using assms spent_ok by (auto simp: manager_ok_def)
  then have "manager_ok (put_session h e s m)"
    using assms(1,2) by (auto simp: manager_ok_def put_session_def map_of_dset split: if_splits)
  ultimately show ?thesis by (intro refines_step) (simp_all add: put_session_def)
qed

lemma close_refines:
  assumes "manager_ok m" and "manager_close h m = (r, m')"
  shows "refines m m'"
proof -
  have a: "abs_manager (m\<lparr>transfers := ddel h (transfers m)\<rparr>) = (abs_manager m)\<lparr>lent := lent (abs_manager m) - {h}\<rparr>"
    by (simp add: abs_manager_def keys_ddel)
  have "refines m (m\<lparr>transfers := ddel h (transfers m)\<rparr>)"
    by (rule refines_step) (use assms(1) length_ddel_le [of h "transfers m"] in \<open>auto simp: a cap_step.recall manager_ok_def\<close>)
  then show ?thesis
    using assms del_entry [OF assms(1), of h] refines_refl [OF assms(1)] by (auto simp: manager_close_def split: if_splits)
qed

lemma close_list_refines:
  assumes "manager_ok m"
  shows "refines m (snd (close_list hs m))"
proof -
  have "refines (snd nm) (snd (fold close_one hs nm))" if "manager_ok (snd nm)" for nm
    using that
  proof (induction hs arbitrary: nm)
    case (Cons h hs)
    obtain r m1 where c: "manager_close h (snd nm) = (r, m1)" by (cases "manager_close h (snd nm)")
    have r: "refines (snd nm) (snd (close_one h nm))" using close_refines [OF Cons.prems c] by (simp add: close_one_def c)
    show ?case using refines_trans [OF r Cons.IH [OF refines_ok [OF r]]] by simp
  qed (simp add: refines_refl)
  from this [of "(0, m)"] show ?thesis using assms by (simp add: close_list_def)
qed

lemma find_entry_cases:
  assumes "manager_ok m" and "find_entry now h m = (r, m1)"
  shows "refines m m1" and "r = Inr e \<Longrightarrow> map_of (entries m1) h = Some e"
  using assms reap_refines [OF assms(1), of now] refines_refl [OF assms(1)] by (auto simp: find_entry_def Let_def split: if_splits option.splits)

lemma put_close_refines:
  assumes "manager_ok m" and "map_of (entries m) h = Some e" and "spent (e_session e) s"
  shows "refines m (snd (manager_close h (put_session h e s m)))"
proof -
  note p = put_refines [OF assms]
  show ?thesis by (rule refines_trans [OF p close_refines [OF refines_ok [OF p] surjective_pairing]])
qed

lemma read_refines:
  assumes "manager_ok m" and "manager_read h n t now now' x m = (r, m')"
  shows "refines m m'"
proof -
  obtain re m1 where f: "find_entry now h m = (re, m1)" by (cases "find_entry now h m")
  note m1 = find_entry_cases [OF assms(1) f]
  show ?thesis
  proof (cases "m' = m \<or> m' = m1")
    case True
    then show ?thesis using m1(1) refines_refl [OF assms(1)] by auto
  next
    case False
    then obtain e where e: "re = Inr e"
      using assms(2) f by (cases re) (auto simp: manager_read_def split: if_splits)
    obtain y s where s: "session_receive (record_wise e) n now now' x (e_session e) = (y, s)" by (cases "session_receive (record_wise e) n now now' x (e_session e)")
    have "m' = put_session h e s m1 \<or> m' = snd (manager_close h (put_session h e s m1))"
      using assms(2) False f e s unfolding manager_read_def by (auto simp: Let_def split: if_splits sum.splits)
    then show ?thesis
      using put_refines [OF refines_ok [OF m1(1)] m1(2) [OF e] session_receive_spent [OF s]]
        put_close_refines [OF refines_ok [OF m1(1)] m1(2) [OF e] session_receive_spent [OF s]] m1(1) refines_trans by blast
  qed
qed

lemma write_refines:
  assumes "manager_ok m" and "manager_write h data t now now' x m = (r, m')"
  shows "refines m m'"
proof -
  obtain re m1 where f: "find_entry now h m = (re, m1)" by (cases "find_entry now h m")
  note m1 = find_entry_cases [OF assms(1) f]
  show ?thesis
  proof (cases "m' = m \<or> m' = m1")
    case True
    then show ?thesis using m1(1) refines_refl [OF assms(1)] by auto
  next
    case False
    then obtain e where e: "re = Inr e"
      using assms(2) f by (cases re) (auto simp: manager_write_def split: if_splits)
    obtain y s where s: "session_send (record_wise e) data now x (e_session e) = (y, s)" by (cases "session_send (record_wise e) data now x (e_session e)")
    have "m' = put_session h e s m1 \<or> m' = snd (manager_close h (put_session h e s m1))"
      using assms(2) False f e s unfolding manager_write_def by (auto simp: Let_def split: if_splits sum.splits)
    then show ?thesis
      using put_refines [OF refines_ok [OF m1(1)] m1(2) [OF e] session_send_spent [OF s]]
        put_close_refines [OF refines_ok [OF m1(1)] m1(2) [OF e] session_send_spent [OF s]] m1(1) refines_trans by blast
  qed
qed

lemma transfer_refines:
  assumes "manager_ok m" and "transfer_fd h now fd m = (r, m')"
  shows "refines m m'"
proof -
  obtain re m1 where f: "find_entry now h m = (re, m1)" by (cases "find_entry now h m")
  note m1 = find_entry_cases [OF assms(1) f]
  have ok: "manager_ok m1" by (rule refines_ok [OF m1(1)])
  show ?thesis
  proof (cases re)
    case (Inl x)
    then have "m' = m1" using assms(2) f by (simp add: transfer_fd_def)
    then show ?thesis using m1(1) by simp
  next
    case (Inr e)
    let ?m2 = "m1\<lparr>entries := ddel h (entries m1)\<rparr>"
    let ?m3 = "?m2\<lparr>transfers := dset h e (transfers m1)\<rparr>"
    have e: "map_of (entries m1) h = Some e" by (rule m1(2) [OF Inr])
    have "m' = ?m2 \<or> m' = ?m3" using assms(2) f Inr by (auto simp: transfer_fd_def Let_def split: sum.splits)
    moreover have "refines m1 ?m3"
    proof (rule refines_step)
      have "length (dset h e (transfers m1)) \<le> Suc (length (transfers m1))"
        by (cases "map_of (transfers m1) h") simp_all
      moreover have "Suc (length (ddel h (entries m1))) = length (entries m1)"
        by (rule length_ddel_old [OF _ e]) (use ok in \<open>simp add: manager_ok_def\<close>)
      ultimately show "manager_ok ?m3" using ok by (auto simp: manager_ok_def map_of_ddel split: if_splits)
      have "abs_manager ?m3 = \<lparr>live = (live (abs_manager m1))(h := None), lent = insert h (lent (abs_manager m1))\<rparr>"
        by (auto simp: abs_manager_def map_of_ddel fun_eq_iff dom_update [symmetric] dom_map_of_conv_image_fst [symmetric] map_of_dset)
      then show "cap_step (limit m1) (abs_manager m1) (abs_manager ?m3)"
        using cap_step.lend [of "abs_manager m1" h "limit m1"] e by (simp add: abs_manager_def)
    qed simp
    ultimately show ?thesis using refines_trans [OF m1(1)] del_entry [OF ok, of h] by auto
  qed
qed

section \<open>Drawing a handle\<close>

lemma fresh_handle_new: "fresh_handle draw es i = Some h \<Longrightarrow> map_of es h = None"
  by (induct rule: fresh_handle.raw_induct [rotated 1, consumes 1]) (auto split: if_splits)

lemma fresh_handle_found:
  assumes "map_of es (draw j) = None" and "i \<le> j"
  shows "\<exists>h. fresh_handle draw es i = Some h"
  using assms(2)
proof (induction "j - i" arbitrary: i)
  case 0
  then have "i = j" by simp
  then show ?case using assms(1) by (subst fresh_handle.simps) simp
next
  case (Suc d)
  show ?case
  proof (cases "map_of es (draw i) = None")
    case False
    have "\<exists>h. fresh_handle draw es (Suc i) = Some h" by (rule Suc.hyps(1)) (use Suc.hyps(2) in simp_all)
    then show ?thesis using False by (subst fresh_handle.simps) simp
  qed (subst fresh_handle.simps, simp)
qed

text \<open>Among one more draw than there are entries, one is new.\<close>

lemma fresh_handle_returns:
  assumes "inj_on draw {..length es}"
  shows "\<exists>h. fresh_handle draw es 0 = Some h"
proof -
  have "\<not> draw ` {..length es} \<subseteq> fst ` set es"
  proof
    assume "draw ` {..length es} \<subseteq> fst ` set es"
    then have "card (draw ` {..length es}) \<le> card (fst ` set es)" by (intro card_mono) simp_all
    moreover have "card (fst ` set es) \<le> length es" using card_image_le [of "set es" fst] card_length [of es] by simp
    ultimately show False using card_image [OF assms] by simp
  qed
  then obtain j where "map_of es (draw j) = None" by (auto simp: map_of_eq_None_iff)
  then show ?thesis by (rule fresh_handle_found) simp
qed

lemma open_refines:
  assumes "manager_ok m" and "manager_open nfc hv cv now nonce draw service lock_digest plan_digest plan m = Some (r, m')"
  shows "refines m m'"
proof (cases "m' = m \<or> m' = reap now m")
  case True
  then show ?thesis using refines_refl [OF assms(1)] reap_refines [OF assms(1)] by auto
next
  case False
  let ?m1 = "reap now m"
  obtain h e where o: "length (entries ?m1) + length (transfers ?m1) < limit ?m1" "fresh_handle draw (entries ?m1) 0 = Some h"
    "m' = ?m1\<lparr>entries := dset h e (entries ?m1)\<rparr>" "e_service e = service" "remaining (e_session e) = session_bytes"
    using assms(2) False unfolding manager_open_def Let_def
    by (auto dest: opened_bytes credited_bytes split: sum.splits if_splits option.splits)
  note re = reap_refines [OF assms(1), of now]
  have ok: "manager_ok ?m1" by (rule refines_ok [OF re])
  have n: "map_of (entries ?m1) h = None" by (rule fresh_handle_new [OF o(2)])
  have "session_ok (e_session e)" using o(5) by (simp add: session_ok_def session_bytes_def)
  then have ok': "manager_ok m'" using ok o(1) n unfolding o(3) by (auto simp: manager_ok_def map_of_dset split: if_splits)
  have "abs_manager m' = (abs_manager ?m1)\<lparr>live := (live (abs_manager ?m1))(h \<mapsto> (service, session_bytes))\<rparr>"
    using o(4,5) unfolding o(3) by (auto simp: abs_manager_def map_of_dset fun_eq_iff session_bytes_def)
  then have "cap_step (limit ?m1) (abs_manager ?m1) (abs_manager m')"
    using cap_step.grant [of "abs_manager ?m1" h "limit ?m1" service] o(1) held_abs [OF ok] n by (simp add: abs_manager_def)
  then have "refines ?m1 m'" by (intro refines_step [OF ok']) (simp_all add: o(3))
  then show ?thesis by (rule refines_trans [OF re])
qed

lemma manager_step_refines: "manager_step m m' \<Longrightarrow> manager_ok m \<Longrightarrow> refines m m'"
proof (induction rule: manager_step.induct)
  case (open_call nfc hv cv now nonce draw service lock_digest plan_digest plan m r m')
  then show ?case by (blast intro: open_refines)
next
  case (read_call h n t now now' arrived m rr m')
  then show ?case by (blast intro: read_refines)
next
  case (write_call h data t now now' sent m rw m')
  then show ?case by (blast intro: write_refines)
next
  case (close_call h m rc m')
  then show ?case by (blast intro: close_refines)
next
  case (transfer_call h now fd m rt m')
  then show ?case by (blast intro: transfer_refines)
next
  case (service_call service m k m')
  then show ?case using close_list_refines by (metis close_service_def snd_conv)
next
  case (shutdown m)
  then show ?case using close_list_refines by (simp add: close_all_def)
next
  case (work m h e now v out inc)
  then show ?case by (intro put_refines worker_spent) simp_all
next
  case (work_lent m h e s now v out inc)
  let ?m = "m\<lparr>transfers := dset h (e\<lparr>e_session := s\<rparr>) (transfers m)\<rparr>"
  have "manager_ok ?m" using work_lent by (simp add: manager_ok_def)
  moreover have "abs_manager ?m = abs_manager m"
    using work_lent(1) by (auto simp: abs_manager_def dom_map_of_conv_image_fst [symmetric] map_of_dset split: if_splits)
  ultimately show ?case by (simp add: refines_def)
qed

lemma manager_steps_refine: "manager_step\<^sup>*\<^sup>* m m' \<Longrightarrow> manager_ok m \<Longrightarrow> refines m m'"
  by (induction rule: rtranclp_induct) (auto intro: refines_refl refines_trans manager_step_refines refines_ok)

lemma manager_init_ok: "manager_init n = Inr m \<Longrightarrow> manager_ok m \<and> limit m = nat n \<and> limit m \<le> MAX_SESSIONS \<and> entries m = [] \<and> transfers m = []"
  by (auto simp: manager_init_def manager_ok_def)

section \<open>Properties\<close>


text \<open>C39. Opening a session returns: the loop that draws a new handle ends within 65 draws, as long as
  these differ, in every state the table can reach.\<close>

theorem open_returns:
  assumes "manager_init n = Inr m0" and "manager_step\<^sup>*\<^sup>* m0 m" and "inj_on draw {..MAX_SESSIONS}"
  shows "\<exists>r m'. manager_open nfc hv cv now nonce draw service lock_digest plan_digest plan m = Some (r, m')"
proof -
  note i = manager_init_ok [OF assms(1)]
  have r: "refines m0 m" by (rule manager_steps_refine [OF assms(2)]) (use i in simp)
  have r': "refines m0 (reap now m)" by (rule refines_trans [OF r reap_refines [OF refines_ok [OF r]]])
  then have "length (entries (reap now m)) \<le> MAX_SESSIONS" using i by (auto simp: refines_def manager_ok_def)
  then have "inj_on draw {..length (entries (reap now m))}" using assms(3) by (rule_tac inj_on_subset) auto
  from fresh_handle_returns [OF this] obtain h where "fresh_handle draw (entries (reap now m)) 0 = Some h" by blast
  then show ?thesis by (auto simp: manager_open_def Let_def split: sum.split)
qed

definition sample_target :: pyval where
  "sample_target = jobj [(''observation'', jstr ''structured-ready-event''), (''boundary'', jstr ''stream''), (''mode'', jstr ''localhost-tcp-proxy''),
     (''host'', jstr ''127.0.0.1''), (''port'', JInt 4433)]"

definition sample_plan :: pydict where
  "sample_plan = the_obj (jobj [(''readiness'', jstr ''application-ready''), (''endpoint'', sample_target)])"

definition sample_host_view :: host_view where
  "sample_host_view = \<lparr>hv_alive = (\<lambda>_. True), hv_alive_after = (\<lambda>_. True),
     hv_sockets = (\<lambda>_. [the_obj (jobj [(''transport'', jstr ''tcp''), (''host'', jstr ''127.0.0.1''), (''port'', JInt 4433)])]),
     hv_private = (\<lambda>_. True), hv_seqpacket = (\<lambda>_ _ _. False), hv_connect = Inr (), hv_peer = (1, 0), hv_euid = 0, hv_answer = NoAnswer,
     hv_profile = (\<lambda>_ _. Inl (ValueError ''UnknownProfile''))\<rparr>"

definition sample_credited :: credited_view where
  "sample_credited = \<lparr>cv_adapter = Inl (RuntimeError ''closed''), cv_free = True, cv_pair = asc ''seqpacket''\<rparr>"

definition sample_session :: session where
  "sample_session = \<lparr>skind = Local, deadline = 300, remaining = session_bytes, max_record = 0, read_bound = 0, s_mode = [], eof = False,
     write_closed = False, connected = True, stopped = False\<rparr>"

lemma sample_opens: "open_local_session (\<lambda>s. s) sample_host_view 0 [] (JObj sample_plan) = Inr sample_session"
  by (simp add: open_local_session_def session_boundary_def open_stream_def sample_plan_def sample_target_def sample_host_view_def fld_jobj
      open_socket_def sample_session_def agree_def Let_def num_of_def is_obj_def [of JNull])

abbreviation sample_draw :: "nat \<Rightarrow> ustr" where
  "sample_draw \<equiv> (\<lambda>i. replicate (43 + i) 65)"

definition sample_manager :: manager where
  "sample_manager = \<lparr>limit = 2, entries = [], transfers = []\<rparr>"

lemma sample_manager_init: "manager_init 2 = Inr sample_manager"
  by (simp add: manager_init_def MAX_SESSIONS_def sample_manager_def)

lemma sample_draw_inj: "inj_on sample_draw {..MAX_SESSIONS}"
  by (auto simp: inj_on_def dest: arg_cong [where f = length])

theorem open_returns_witness:
  "\<exists>r m'. manager_open (\<lambda>s. s) sample_host_view sample_credited 0 [] sample_draw (asc ''echo'') [] [] sample_plan sample_manager = Some (r, m')
     \<and> (\<exists>d. r = Inr d) \<and> length (entries m') = 1"
proof -
  obtain r m' where o: "manager_open (\<lambda>s. s) sample_host_view sample_credited 0 [] sample_draw (asc ''echo'') [] [] sample_plan sample_manager = Some (r, m')"
    using open_returns [OF sample_manager_init rtranclp.rtrancl_refl sample_draw_inj] by blast
  have p: "fld sample_plan ''applicationAdapter'' = JNull" by (simp add: sample_plan_def fld_jobj)
  have "(\<exists>d. r = Inr d) \<and> length (entries m') = 1"
    using o unfolding manager_open_def Let_def p
    by (auto simp: fld_def getd_def the_obj_def sample_opens sample_manager_def reap_def split: option.splits)
  then show ?thesis using o by blast
qed


end
