(* ===== verification/S6_Capsule.thy ===== *)
theory S6_Capsule
  imports Complex_Main S6_Plain S6_Files
begin

text \<open>
  Capability capsules, \<^verbatim>\<open>src/Control-Center/capability_capsule.py\<close>: the registry of Cores, the
  application boundaries a Core declares, the readiness events, and the life of a capsule from its
  start over pause and resume to its end.

  Files are the views of guarded reads, and the outcomes of subprocesses are arguments. The
  operating system is a table of process states: a process is identified by its \<^verbatim>\<open>Popen\<close> object.
\<close>

section \<open>The registry\<close>

definition MAX_REGISTRY :: nat where
  "MAX_REGISTRY = 65536"

definition MAX_FEATURE_REPORT :: nat where
  "MAX_FEATURE_REPORT = 65536"

definition MAX_RECORD :: int where
  "MAX_RECORD = 1172"

definition capsule_name :: "ustr \<Rightarrow> bool" where
  "capsule_name s \<longleftrightarrow> text_of (\<lambda>c. is_lower c \<or> is_digit c \<or> c = 45) 1 64 s \<and> hd s \<noteq> 45"

definition capsule_json :: "(ustr \<Rightarrow> ustr) \<Rightarrow> jinput \<Rightarrow> pyval res" where
  "capsule_json nfc data = portable_json nfc (int MAX_FEATURE_REPORT) data"

text \<open>Permission bits for the group and others; the line ends that a text file translates.\<close>

definition shared_mode :: "fstat \<Rightarrow> bool" where
  "shared_mode s \<longleftrightarrow> st_mode s mod 64 \<noteq> 0"

fun newlines_from :: "bool \<Rightarrow> ustr \<Rightarrow> ustr" where
  "newlines_from after_cr [] = []"
| "newlines_from after_cr (c # s) =
     (if c = 13 then 10 # newlines_from True s
      else if c = 10 \<and> after_cr then newlines_from False s
      else c # newlines_from False s)"

abbreviation universal_newlines :: "ustr \<Rightarrow> ustr" where
  "universal_newlines s \<equiv> newlines_from False s"

definition registry_entry :: "ustr \<times> pyval \<Rightarrow> (ustr \<times> ustr \<times> int) list \<Rightarrow> (ustr \<times> ustr \<times> int) list res" where
  "registry_entry e result =
     (case e of (name, spec) \<Rightarrow>
        (let d = the_obj spec; maximum = getd d ''max_record'' (JInt MAX_RECORD) in
         ebind (raise_if (\<not> capsule_name name \<or> \<not> is_obj spec \<or> \<not> keys_in [''binary'', ''max_record''] d
                          \<or> \<not> is_str (fld d ''binary'') \<or> the_str (fld d ''binary'') = []) (ValueError ''invalid capsule entry'')) (\<lambda>_.
         ebind (raise_if (\<not> int_in 1 MAX_RECORD maximum) (ValueError ''invalid capsule limits'')) (\<lambda>_.
           Inr (dset name (the_str (fld d ''binary''), the_int maximum) result)))))"

text \<open>A character of the text has at most four bytes.\<close>

definition capsule_registry :: "(ustr \<Rightarrow> ustr) \<Rightarrow> nat \<Rightarrow> fview option \<Rightarrow> (ustr \<times> ustr \<times> int) list res" where
  "capsule_registry nfc euid file =
     (case file of
        None \<Rightarrow> Inr []
      | Some v \<Rightarrow>
          ebind (raise_if (\<not> s_isreg (before v) \<or> s_islnk (before v) \<or> st_uid (before v) \<noteq> euid \<or> shared_mode (before v) \<or> MAX_REGISTRY < st_size (before v))
                  (PermissionError ''unsafe capsule registry'')) (\<lambda>_.
          ebind (raise_if (\<not> s_isreg (opened v) \<or> st_ino (opened v) \<noteq> st_ino (before v) \<or> st_dev (opened v) \<noteq> st_dev (before v)
                           \<or> st_uid (opened v) \<noteq> euid \<or> shared_mode (opened v) \<or> MAX_REGISTRY < st_size (opened v))
                  (PermissionError ''capsule registry changed while opening'')) (\<lambda>_.
          ebind (utf8_decode (os_read v 0 (4 * (MAX_REGISTRY + 1)))) (\<lambda>t.
          let raw = take (MAX_REGISTRY + 1) (universal_newlines t) in
          ebind (utf8_encode raw) (\<lambda>b.
          ebind (raise_if (MAX_REGISTRY < length b) (ValueError ''capsule registry is oversized'')) (\<lambda>_.
          ebind (capsule_json nfc (TextIn raw)) (\<lambda>data.
          ebind (raise_if (\<not> is_obj data \<or> 32 < length (the_obj data)) (ValueError ''invalid capsule registry'')) (\<lambda>_.
            efold registry_entry (the_obj data) []))))))))"

definition safe_config :: "nat \<Rightarrow> fview \<Rightarrow> unit res" where
  "safe_config euid v =
     ebind (raise_if (\<not> s_isreg (before v) \<or> s_islnk (before v) \<or> st_nlink (before v) \<noteq> 1 \<or> st_uid (before v) \<noteq> euid
                      \<or> shared_mode (before v) \<or> 1048576 < st_size (before v)) (PermissionError ''client config must be a bounded owner-only regular file'')) (\<lambda>_.
     raise_if (\<not> s_isreg (opened v) \<or> st_nlink (opened v) \<noteq> 1 \<or> st_ino (opened v) \<noteq> st_ino (before v) \<or> st_dev (opened v) \<noteq> st_dev (before v)
               \<or> st_uid (opened v) \<noteq> euid \<or> shared_mode (opened v) \<or> 1048576 < st_size (opened v)) (PermissionError ''client config changed while opening''))"

section \<open>Boundaries of a Core\<close>

text \<open>The result of \<^verbatim>\<open>--feature-report\<close>: \<open>None\<close> where the program cannot be run or takes too long.\<close>

type_synonym report = "(int \<times> bytes) option"

definition or_invalid :: "'a res \<Rightarrow> string \<Rightarrow> 'a res" where
  "or_invalid m msg = (case m of Inl (UnicodeError _) \<Rightarrow> Inl (ValueError msg) | Inl JSONDecodeError \<Rightarrow> Inl (ValueError msg) | _ \<Rightarrow> m)"

definition owned_listener :: "pydict \<Rightarrow> bool" where
  "owned_listener b \<longleftrightarrow> fld b ''listener_ownership'' = jstr ''core'' \<and> fld b ''endpoint_discovery'' = jstr ''stdout-ready-jsonl-v1''"

definition supported :: "pyval \<Rightarrow> pyval \<Rightarrow> bool" where
  "supported core v \<longleftrightarrow>
     (let b = the_obj v; roles = fld b ''roles''; mode = fld b ''mode'' in
      is_obj v \<and> is_list roles \<and> jstr ''client'' \<in> set (the_list roles)
      \<and> (if mode = jstr ''seqpacket-fd'' then int_in 1 MAX_RECORD (fld b ''max_record'')
         else if mode = jstr ''localhost-tcp-proxy'' \<and> fld b ''listener_ownership'' = jstr ''core''
         then fld b ''endpoint_discovery'' = jstr ''stdout-ready-jsonl-v1''
         else mode = jstr ''localhost-udp-datagram-proxy'' \<and> core = jstr ''shadow6-gleam'' \<and> fld b ''kind'' = jstr ''message''
              \<and> roles = JList [jstr ''client''] \<and> fld b ''message_preserving'' = JBool True \<and> fld b ''ordered'' = JBool False
              \<and> fld b ''reliable'' = JBool False \<and> fld b ''delivery'' = jstr ''best-effort'' \<and> py_eq (fld b ''max_record'') (JInt 65465)
              \<and> owned_listener b \<and> fld b ''listener_ready'' = jstr ''bound-and-listening''))"

definition client_application_boundaries :: "(ustr \<Rightarrow> ustr) \<Rightarrow> report \<Rightarrow> pydict list res" where
  "client_application_boundaries nfc result =
     (case result of
        None \<Rightarrow> Inl (ValueError ''Core feature report unavailable'')
      | Some (returncode, stdout) \<Rightarrow>
          ebind (raise_if (returncode \<noteq> 0 \<or> MAX_FEATURE_REPORT < length stdout) (ValueError ''Core feature report unavailable or oversized'')) (\<lambda>_.
          ebind (or_invalid (capsule_json nfc (BytesIn stdout)) ''Core feature report is invalid'') (\<lambda>rep.
          let d = the_obj rep; raw = fld d ''application_boundaries''; core = fld d ''core'' in
          ebind (raise_if (\<not> is_obj rep \<or> \<not> is_list raw \<or> 8 < length (the_list raw) \<or> \<not> is_str core) (ValueError ''Core does not declare application boundaries'')) (\<lambda>_.
          let choices = filter (supported core) (the_list raw) in
          ebind (raise_if (choices = []) (ValueError ''Core declares no supported client application boundary'')) (\<lambda>_.
            Inr (map (\<lambda>c. dset (asc ''core'') core (the_obj c)) choices))))))"

definition client_application_boundary :: "(ustr \<Rightarrow> ustr) \<Rightarrow> report \<Rightarrow> ustr option \<Rightarrow> pydict res" where
  "client_application_boundary nfc result mode =
     ebind (client_application_boundaries nfc result) (\<lambda>choices.
     (case mode of
        Some m \<Rightarrow>
          (case find (\<lambda>b. fld b ''mode'' = JStr m) choices of
             None \<Rightarrow> Inl (ValueError ''requested application boundary is not declared by Core'')
           | Some b \<Rightarrow> Inr b)
      | None \<Rightarrow> Inr (case find (\<lambda>b. fld b ''mode'' = jstr ''localhost-tcp-proxy'') choices of None \<Rightarrow> hd choices | Some b \<Rightarrow> b)))"

fun is_os_error :: "exn \<Rightarrow> bool" where
  "is_os_error (OSError _) = True"
| "is_os_error (FileNotFoundError _) = True"
| "is_os_error (PermissionError _) = True"
| "is_os_error (TimeoutError _) = True"
| "is_os_error (FileExistsError _) = True"
| "is_os_error (BlockingIOError _) = True"
| "is_os_error _ = False"

text \<open>\<open>exe\<close> is \<^verbatim>\<open>_resolved_executable\<close> and \<open>report_of\<close> the report of a program.\<close>

definition add_candidates ::
  "(ustr \<Rightarrow> ustr) \<Rightarrow> (ustr \<Rightarrow> ustr res) \<Rightarrow> (ustr \<Rightarrow> report) \<Rightarrow> ustr \<times> ustr \<times> int \<Rightarrow> (ustr \<times> pydict) list \<Rightarrow> (ustr \<times> pydict) list res" where
  "add_candidates nfc exe report_of e available =
     (case e of (name, binary, _) \<Rightarrow>
        (case ebind (exe binary) (\<lambda>path. client_application_boundaries nfc (report_of path)) of
           Inl x \<Rightarrow> if is_os_error x \<or> is_value_error x then Inr available else Inl x
         | Inr bs \<Rightarrow>
             (let all = available @ map (\<lambda>b. (name, b)) bs in
              ebind (raise_if (64 < length all) (ValueError ''capsule candidate catalog exceeds its bound'')) (\<lambda>_. Inr all))))"

definition candidates :: "(ustr \<Rightarrow> ustr) \<Rightarrow> nat \<Rightarrow> fview option \<Rightarrow> (ustr \<Rightarrow> ustr res) \<Rightarrow> (ustr \<Rightarrow> report) \<Rightarrow> (ustr \<times> pydict) list res" where
  "candidates nfc euid file exe report_of =
     ebind (capsule_registry nfc euid file) (\<lambda>registered. efold (add_candidates nfc exe report_of) registered [])"

section \<open>Readiness\<close>

text \<open>The first line a Core writes: \<open>None\<close> when none came in time, \<open>Some None\<close> at the end of the
  stream. \<open>running\<close> tells whether the process still runs afterwards.\<close>

definition boundary_ready :: "(ustr \<Rightarrow> ustr) \<Rightarrow> pyval \<Rightarrow> ustr \<Rightarrow> bytes option option \<Rightarrow> bool \<Rightarrow> (ustr \<times> int) res" where
  "boundary_ready nfc expected_core mode first running =
     (case first of
        None \<Rightarrow> Inl (TimeoutError ''Core readiness event timed out'')
      | Some None \<Rightarrow> Inl (ValueError ''Core readiness event is missing or oversized'')
      | Some (Some line) \<Rightarrow>
          ebind (raise_if (MAX_FEATURE_REPORT < length line \<or> line = [] \<or> last line \<noteq> 10) (ValueError ''Core readiness event is missing or oversized'')) (\<lambda>_.
          ebind (or_invalid (capsule_json nfc (BytesIn line)) ''Core readiness event is invalid'') (\<lambda>event.
          let d = the_obj event; boundary = fld d ''application_boundary''; b = the_obj boundary; ep = fld b ''endpoint''; e = the_obj ep;
              kind = (if mode = asc ''localhost-tcp-proxy'' then ''stream'' else ''message'') in
          ebind (raise_if (\<not> is_obj event \<or> fld d ''event'' \<noteq> jstr ''shadow6.ready'' \<or> fld d ''schema'' \<noteq> JInt 1
                           \<or> fld d ''core'' \<noteq> expected_core \<or> fld d ''role'' \<noteq> jstr ''client'') (ValueError ''Core readiness event does not match its feature report'')) (\<lambda>_.
          ebind (raise_if (\<not> is_obj boundary \<or> fld b ''kind'' \<noteq> jstr kind \<or> fld b ''mode'' \<noteq> JStr mode \<or> \<not> is_obj ep
                           \<or> fld e ''host'' \<notin> {jstr ''127.0.0.1'', jstr ''::1''} \<or> \<not> int_in 1 65535 (fld e ''port'')) (ValueError ''Core readiness endpoint is invalid'')) (\<lambda>_.
          ebind (raise_if (\<not> running) (ValueError ''Core exited after announcing readiness'')) (\<lambda>_.
            Inr (the_str (fld e ''host''), the_int (fld e ''port''))))))))"

definition proxy_ready :: "(ustr \<Rightarrow> ustr) \<Rightarrow> ustr \<Rightarrow> ustr \<Rightarrow> int \<Rightarrow> bytes option \<Rightarrow> bool \<Rightarrow> unit res" where
  "proxy_ready nfc protocol host port arrived running =
     (case arrived of
        None \<Rightarrow> Inl (TimeoutError ''application-flow proxy readiness timed out'')
      | Some full \<Rightarrow>
          (let line = take 4097 full in
           or_invalid
             (ebind (raise_if (4096 < length line \<or> line = [] \<or> last line \<noteq> 10) (ValueError ''application-flow proxy readiness event is invalid'')) (\<lambda>_.
              ebind (capsule_json nfc (BytesIn line)) (\<lambda>event.
              let d = the_obj event in
              ebind (raise_if (\<not> is_obj event \<or> fld d ''event'' \<noteq> jstr ''shadow6.app-flow-proxy.ready'' \<or> fld d ''schema'' \<noteq> JInt 1
                               \<or> fld d ''protocol'' \<noteq> JStr protocol \<or> fld d ''host'' \<noteq> JStr host \<or> \<not> py_eq (fld d ''port'') (JInt port))
                      (ValueError ''application-flow proxy readiness event does not match request'')) (\<lambda>_.
              raise_if (\<not> running) (ValueError ''application-flow proxy exited after readiness'')))))
             ''application-flow proxy readiness JSON is invalid''))"

section \<open>Processes and capsules\<close>

datatype pstate = Running | Paused | Exited

type_synonym proc = nat

text \<open>How processes answer to signals: \<open>obeys\<close> ends on \<^verbatim>\<open>SIGTERM\<close>, \<open>stuck\<close> does not even end on
  \<^verbatim>\<open>SIGKILL\<close> within a second, and \<open>stop_error\<close> and \<open>cont_error\<close> are the error of \<^verbatim>\<open>killpg\<close>, if any, for a
  stop or a continue. The signals that end a process are never refused: the processes are children of
  the program. A capsule is closed when it leaves the table, and the calls follow each other, so the flag
  \<^verbatim>\<open>closed\<close>, which is for calls that overlap, is left out.\<close>

record signals =
  obeys :: "proc \<Rightarrow> bool"
  stuck :: "proc \<Rightarrow> bool"
  stop_error :: "proc \<Rightarrow> exn option"
  cont_error :: "proc \<Rightarrow> exn option"

record capsule =
  c_core :: ustr
  processes :: "proc list"
  created :: rat
  ttl :: int
  c_mode :: ustr
  c_endpoint :: "(ustr \<times> int) option"
  paused :: bool

type_synonym ptable = "proc \<Rightarrow> pstate"

text \<open>The two loops of \<^verbatim>\<open>Capsule.close\<close>: terminate and continue, then wait and kill.\<close>

definition terminate :: "signals \<Rightarrow> proc \<Rightarrow> ptable \<Rightarrow> ptable" where
  "terminate sg p ps = (if ps p = Exited then ps else ps(p := (if obeys sg p then Exited else Running)))"

definition reap_process :: "signals \<Rightarrow> proc \<Rightarrow> ptable \<Rightarrow> ptable" where
  "reap_process sg p ps = (if ps p = Exited \<or> stuck sg p then ps else ps(p := Exited))"

definition close_processes :: "signals \<Rightarrow> proc list \<Rightarrow> ptable \<Rightarrow> ptable" where
  "close_processes sg xs ps = fold (reap_process sg) xs (fold (terminate sg) xs ps)"

definition expired :: "rat \<Rightarrow> capsule \<Rightarrow> bool" where
  "expired now c \<longleftrightarrow> created c + of_int (ttl c) \<le> now"

record world =
  capsules :: "(ustr \<times> capsule) list"
  procs :: ptable

definition close_capsule :: "signals \<Rightarrow> capsule \<Rightarrow> world \<Rightarrow> world" where
  "close_capsule sg c w = w\<lparr>procs := close_processes sg (processes c) (procs w)\<rparr>"

definition reap_expired :: "signals \<Rightarrow> rat \<Rightarrow> world \<Rightarrow> nat \<times> world" where
  "reap_expired sg now w =
     (let dead = filter (\<lambda>(_, c). expired now c) (capsules w);
          w1 = w\<lparr>capsules := filter (\<lambda>(_, c). \<not> expired now c) (capsules w)\<rparr> in
      (length dead, fold (\<lambda>(_, c). close_capsule sg c) dead w1))"

text \<open>How long the reaper sleeps; \<open>None\<close> is until it is woken.\<close>

definition reaper_delay :: "rat \<Rightarrow> world \<Rightarrow> rat option" where
  "reaper_delay now w =
     (if capsules w = [] then None
      else Some (max 0 (Min (set (map (\<lambda>(_, c). created c + of_int (ttl c)) (capsules w))) - now)))"

definition get :: "signals \<Rightarrow> rat \<Rightarrow> ustr \<Rightarrow> world \<Rightarrow> capsule res \<times> world" where
  "get sg now token w =
     (case map_of (capsules w) token of
        None \<Rightarrow> (Inl (ValueError ''capsule unavailable''), w)
      | Some c \<Rightarrow>
          if \<not> expired now c \<and> list_all (\<lambda>p. procs w p \<noteq> Exited) (processes c) then (Inr c, w)
          else (Inl (ValueError ''capsule unavailable''), close_capsule sg c (w\<lparr>capsules := ddel token (capsules w)\<rparr>)))"

definition expires_in :: "rat \<Rightarrow> capsule \<Rightarrow> int" where
  "expires_in now c = max 0 (let r = created c + of_int (ttl c) - now in if 0 \<le> r then \<lfloor>r\<rfloor> else \<lceil>r\<rceil>)"

record capsule_status =
  cs_core :: ustr
  cs_mode :: ustr
  cs_state :: string
  cs_pids :: "proc list"
  cs_expires_in :: int
  cs_endpoint :: "(ustr \<times> int) option"

definition status_of :: "rat \<Rightarrow> capsule \<Rightarrow> capsule_status" where
  "status_of now c = \<lparr>cs_core = c_core c, cs_mode = c_mode c, cs_state = (if paused c then ''paused'' else ''running''),
     cs_pids = processes c, cs_expires_in = expires_in now c, cs_endpoint = c_endpoint c\<rparr>"

definition status :: "signals \<Rightarrow> rat \<Rightarrow> ustr \<Rightarrow> world \<Rightarrow> capsule_status res \<times> world" where
  "status sg now token w = (case get sg now token w of (Inl e, w1) \<Rightarrow> (Inl e, w1) | (Inr c, w1) \<Rightarrow> (Inr (status_of now c), w1))"

definition list_capsules :: "signals \<Rightarrow> rat \<Rightarrow> world \<Rightarrow> capsule_status list \<times> world" where
  "list_capsules sg now w = (let w1 = snd (reap_expired sg now w) in (map (\<lambda>(_, c). status_of now c) (capsules w1), w1))"

text \<open>One pass of \<^verbatim>\<open>killpg\<close> over the processes that have not exited, which stops at the first error and
  returns what it has signalled, and the undoing of such a pass, which ignores processes that are gone.\<close>

fun signal_all :: "(proc \<Rightarrow> exn option) \<Rightarrow> pstate \<Rightarrow> proc list \<Rightarrow> ptable \<Rightarrow> exn option \<times> proc list \<times> ptable" where
  "signal_all err st [] ps = (None, [], ps)"
| "signal_all err st (p # xs) ps =
     (if ps p = Exited then signal_all err st xs ps
      else
        (case err p of
           Some e \<Rightarrow> (Some e, [], ps)
         | None \<Rightarrow> (case signal_all err st xs (ps(p := st)) of (r, done_list, ps') \<Rightarrow> (r, p # done_list, ps'))))"

fun undo_all :: "(proc \<Rightarrow> exn option) \<Rightarrow> pstate \<Rightarrow> proc list \<Rightarrow> ptable \<Rightarrow> exn option \<times> ptable" where
  "undo_all err st [] ps = (None, ps)"
| "undo_all err st (p # xs) ps =
     (case err p of
        None \<Rightarrow> undo_all err st xs (ps(p := st))
      | Some e \<Rightarrow> if e = OSError ''No such process'' then undo_all err st xs ps else (Some e, ps))"

definition switch_processes :: "(proc \<Rightarrow> exn option) \<Rightarrow> (proc \<Rightarrow> exn option) \<Rightarrow> pstate \<Rightarrow> pstate \<Rightarrow> proc list \<Rightarrow> ptable \<Rightarrow> unit res \<times> ptable" where
  "switch_processes err undo_err st back xs ps =
     (case signal_all err st xs ps of
        (None, _, ps1) \<Rightarrow> (Inr (), ps1)
      | (Some e, sent, ps1) \<Rightarrow>
          (case undo_all undo_err back sent ps1 of (None, ps2) \<Rightarrow> (Inl e, ps2) | (Some e2, ps2) \<Rightarrow> (Inl e2, ps2)))"

definition pause :: "signals \<Rightarrow> rat \<Rightarrow> rat \<Rightarrow> ustr \<Rightarrow> world \<Rightarrow> capsule_status res \<times> world" where
  "pause sg now now' token w =
     (case get sg now token w of
        (Inl e, w1) \<Rightarrow> (Inl e, w1)
      | (Inr c, w1) \<Rightarrow>
          if paused c then status sg now' token w1
          else
            (case switch_processes (stop_error sg) (cont_error sg) Paused Running (processes c) (procs w1) of
               (Inl e, ps) \<Rightarrow> (Inl e, w1\<lparr>procs := ps\<rparr>)
             | (Inr _, ps) \<Rightarrow> status sg now' token (w1\<lparr>procs := ps, capsules := dset token (c\<lparr>paused := True\<rparr>) (capsules w1)\<rparr>)))"

definition resume :: "signals \<Rightarrow> rat \<Rightarrow> rat \<Rightarrow> ustr \<Rightarrow> world \<Rightarrow> capsule_status res \<times> world" where
  "resume sg now now' token w =
     (case get sg now token w of
        (Inl e, w1) \<Rightarrow> (Inl e, w1)
      | (Inr c, w1) \<Rightarrow>
          if \<not> paused c then status sg now' token w1
          else
            (case switch_processes (cont_error sg) (stop_error sg) Running Paused (processes c) (procs w1) of
               (Inl e, ps) \<Rightarrow> (Inl e, w1\<lparr>procs := ps\<rparr>)
             | (Inr _, ps) \<Rightarrow> status sg now' token (w1\<lparr>procs := ps, capsules := dset token (c\<lparr>paused := False\<rparr>) (capsules w1)\<rparr>)))"

definition stop :: "signals \<Rightarrow> rat \<Rightarrow> ustr \<Rightarrow> world \<Rightarrow> unit res \<times> world" where
  "stop sg now token w =
     (case get sg now token w of
        (Inl e, w1) \<Rightarrow> (Inl e, w1)
      | (Inr c, w1) \<Rightarrow> (Inr (), close_capsule sg c (w1\<lparr>capsules := ddel token (capsules w1)\<rparr>)))"

section \<open>Starting a capsule\<close>

text \<open>What the start of a capsule meets: the registry, the programs and files, and the two
  processes with their readiness events.\<close>

record start_view =
  sv_registry :: "fview option"
  sv_exe :: "ustr \<Rightarrow> ustr res"
  sv_report :: "ustr \<Rightarrow> report"
  sv_proxy :: "unit res"
  sv_config :: fview
  sv_python :: bool
  sv_seqpacket :: bool
  sv_core :: "proc res"
  sv_proxy_process :: "proc res"
  sv_core_line :: "bytes option option"
  sv_proxy_line :: "bytes option"
  sv_core_running :: bool
  sv_proxy_running :: bool
  sv_token :: ustr
  sv_created :: rat

record start_args =
  sa_core :: ustr
  sa_protocol :: "ustr option"
  sa_host :: "ustr option"
  sa_port :: "int option"
  sa_max_record :: "int option"
  sa_ttl :: int
  sa_mode :: "ustr option"

definition or_text :: "ustr option \<Rightarrow> string \<Rightarrow> ustr" where
  "or_text x s = (case x of Some t \<Rightarrow> if t = [] then asc s else t | None \<Rightarrow> asc s)"

text \<open>Everything that is checked before a process is started: the boundary, the protocol and the host.\<close>

definition check_start :: "(ustr \<Rightarrow> ustr) \<Rightarrow> nat \<Rightarrow> start_view \<Rightarrow> start_args \<Rightarrow> (pydict \<times> ustr \<times> ustr) res" where
  "check_start nfc euid v a =
     ebind (capsule_registry nfc euid (sv_registry v)) (\<lambda>registry.
     (case map_of registry (sa_core a) of
        None \<Rightarrow> Inl (ValueError ''Core is not registered for capsule use'')
      | Some (binary, spec_max) \<Rightarrow>
          ebind (raise_if (\<not> (30 \<le> sa_ttl a \<and> sa_ttl a \<le> 300)) (ValueError ''capsule bounds exceeded'')) (\<lambda>_.
          ebind (sv_exe v binary) (\<lambda>path.
          ebind (client_application_boundary nfc (sv_report v path) (sa_mode a)) (\<lambda>boundary.
          let seqpacket = (fld boundary ''mode'' = jstr ''seqpacket-fd''); protocol = or_text (sa_protocol a) ''tcp''; host = or_text (sa_host a) ''127.0.0.1'' in
          ebind (if seqpacket then
                   ebind (raise_if (protocol \<notin> {asc ''tcp'', asc ''udp''} \<or> host \<notin> {asc ''127.0.0.1'', asc ''::1''}
                                    \<or> (case sa_port a of Some p \<Rightarrow> \<not> (1 \<le> p \<and> p \<le> 65535) | None \<Rightarrow> True))
                           (ValueError ''seqpacket capsule requires a loopback protocol and port'')) (\<lambda>_. sv_proxy v)
                 else Inr ()) (\<lambda>_.
          ebind (safe_config euid (sv_config v)) (\<lambda>_.
          ebind (if seqpacket then
                   ebind (raise_if (\<not> sv_python v) (FileNotFoundError ''Python executable unavailable'')) (\<lambda>_.
                   let bound = min spec_max (the_int (fld boundary ''max_record'')); requested = (case sa_max_record a of Some n \<Rightarrow> n | None \<Rightarrow> bound) in
                   raise_if (\<not> (1 \<le> requested \<and> requested \<le> bound)) (ValueError ''max-record exceeds the Core application boundary''))
                 else raise_if (sa_protocol a \<noteq> None \<or> sa_host a \<noteq> None \<or> sa_port a \<noteq> None \<or> sa_max_record a \<noteq> None)
                        (ValueError ''Core-owned application boundaries do not accept proxy parameters'')) (\<lambda>_.
          ebind (raise_if (seqpacket \<and> \<not> sv_seqpacket v) (ValueError ''SOCK_SEQPACKET is unavailable on this platform'')) (\<lambda>_.
            Inr (boundary, protocol, host))))))))))"

text \<open>Starting a process, and the start of the processes of a capsule: whatever fails closes those that run.\<close>

definition spawn :: "proc \<Rightarrow> world \<Rightarrow> world" where
  "spawn p w = w\<lparr>procs := (procs w)(p := Running)\<rparr>"

definition abort :: "signals \<Rightarrow> proc list \<Rightarrow> world \<Rightarrow> world" where
  "abort sg xs w = w\<lparr>procs := fold (\<lambda>p. close_processes sg [p]) xs (procs w)\<rparr>"

definition start_processes ::
  "(ustr \<Rightarrow> ustr) \<Rightarrow> signals \<Rightarrow> start_view \<Rightarrow> start_args \<Rightarrow> pydict \<Rightarrow> ustr \<Rightarrow> ustr \<Rightarrow> world \<Rightarrow> (proc list \<times> (ustr \<times> int) option) res \<times> world" where
  "start_processes nfc sg v a boundary protocol host w =
     (case sv_core v of
        Inl e \<Rightarrow> (Inl e, w)
      | Inr p \<Rightarrow>
          (let w1 = spawn p w in
           if fld boundary ''mode'' = jstr ''seqpacket-fd'' then
             (case sv_proxy_process v of
                Inl e \<Rightarrow> (Inl e, abort sg [p] w1)
              | Inr q \<Rightarrow>
                  (let w2 = spawn q w1 in
                   case proxy_ready nfc protocol host (the (sa_port a)) (sv_proxy_line v) (sv_proxy_running v) of
                     Inl e \<Rightarrow> (Inl e, abort sg [q, p] w2)
                   | Inr _ \<Rightarrow> (Inr ([p, q], None), w2)))
           else
             (case boundary_ready nfc (fld boundary ''core'') (the_str (fld boundary ''mode'')) (sv_core_line v) (sv_core_running v) of
                Inl e \<Rightarrow> (Inl e, abort sg [p] w1)
              | Inr ep \<Rightarrow> (Inr ([p], Some ep), w1))))"

definition start :: "(ustr \<Rightarrow> ustr) \<Rightarrow> signals \<Rightarrow> nat \<Rightarrow> start_view \<Rightarrow> start_args \<Rightarrow> world \<Rightarrow> (ustr \<times> capsule) res \<times> world" where
  "start nfc sg euid v a w =
     (case check_start nfc euid v a of
        Inl e \<Rightarrow> (Inl e, w)
      | Inr (boundary, protocol, host) \<Rightarrow>
          (case start_processes nfc sg v a boundary protocol host w of
             (Inl e, w1) \<Rightarrow> (Inl e, w1)
           | (Inr (xs, ep), w1) \<Rightarrow>
               (let c = \<lparr>c_core = sa_core a, processes = xs, created = sv_created v, ttl = sa_ttl a,
                         c_mode = the_str (fld boundary ''mode''), c_endpoint = ep, paused = False\<rparr> in
                (Inr (sv_token v, c), w1\<lparr>capsules := dset (sv_token v) c (capsules w1)\<rparr>))))"

text \<open>The calls one after the other, with the processes that were ever started; a process may also
  end by itself. A new process is a new object, and the random token of a capsule is one that no
  capsule has.\<close>

record history =
  h_world :: world
  started :: "proc set"

definition new_processes :: "start_view \<Rightarrow> proc set \<Rightarrow> bool" where
  "new_processes v S \<longleftrightarrow>
     (\<forall>p. sv_core v = Inr p \<longrightarrow> p \<notin> S) \<and> (\<forall>q. sv_proxy_process v = Inr q \<longrightarrow> q \<notin> S) \<and> (\<forall>p. \<not> (sv_core v = Inr p \<and> sv_proxy_process v = Inr p))"

definition spawned :: "start_view \<Rightarrow> proc set" where
  "spawned v = {p. sv_core v = Inr p \<or> sv_proxy_process v = Inr p}"

inductive capsule_step :: "(ustr \<Rightarrow> ustr) \<Rightarrow> signals \<Rightarrow> nat \<Rightarrow> history \<Rightarrow> history \<Rightarrow> bool" for nfc sg euid where
  start_call: "start nfc sg euid v a (h_world h) = (r, w) \<Longrightarrow> new_processes v (started h) \<Longrightarrow> map_of (capsules (h_world h)) (sv_token v) = None \<Longrightarrow>
      capsule_step nfc sg euid h \<lparr>h_world = w, started = started h \<union> spawned v\<rparr>"
| status_call: "status sg now token (h_world h) = (rs, w) \<Longrightarrow> capsule_step nfc sg euid h (h\<lparr>h_world := w\<rparr>)"
| list_call: "list_capsules sg now (h_world h) = (rl, w) \<Longrightarrow> capsule_step nfc sg euid h (h\<lparr>h_world := w\<rparr>)"
| pause_call: "pause sg now now' token (h_world h) = (rs, w) \<Longrightarrow> capsule_step nfc sg euid h (h\<lparr>h_world := w\<rparr>)"
| resume_call: "resume sg now now' token (h_world h) = (rs, w) \<Longrightarrow> capsule_step nfc sg euid h (h\<lparr>h_world := w\<rparr>)"
| stop_call: "stop sg now token (h_world h) = (ru, w) \<Longrightarrow> capsule_step nfc sg euid h (h\<lparr>h_world := w\<rparr>)"
| reaper: "reap_expired sg now (h_world h) = (n, w) \<Longrightarrow> capsule_step nfc sg euid h (h\<lparr>h_world := w\<rparr>)"
| ends: "capsule_step nfc sg euid h (h\<lparr>h_world := (h_world h)\<lparr>procs := (procs (h_world h))(p := Exited)\<rparr>\<rparr>)"

section \<open>Ending processes\<close>

text \<open>After an attempt to end processes: those named have ended unless they are stuck, and no
  other process is touched.\<close>

definition ended :: "signals \<Rightarrow> proc set \<Rightarrow> ptable \<Rightarrow> ptable \<Rightarrow> bool" where
  "ended sg X ps ps' \<longleftrightarrow> (\<forall>p \<in> X. ps' p = Exited \<or> stuck sg p) \<and> (\<forall>p. p \<notin> X \<longrightarrow> ps' p = ps p) \<and> (\<forall>p. ps p = Exited \<longrightarrow> ps' p = Exited)"

lemma ended_trans: "ended sg X ps ps1 \<Longrightarrow> ended sg Y ps1 ps2 \<Longrightarrow> ended sg (X \<union> Y) ps ps2"
proof -
  assume a: "ended sg X ps ps1" "ended sg Y ps1 ps2"
  have "ps2 p = Exited \<or> stuck sg p" if "p \<in> X \<union> Y" for p
    using a that by (cases "p \<in> Y") (auto simp: ended_def)
  then show ?thesis using a by (auto simp: ended_def)
qed

lemma terminate_one: "ps p = Exited \<Longrightarrow> terminate sg x ps p = Exited" "p \<noteq> x \<Longrightarrow> terminate sg x ps p = ps p"
  by (auto simp: terminate_def)

lemma reap_one:
  "ps p = Exited \<Longrightarrow> reap_process sg x ps p = Exited" "p \<noteq> x \<Longrightarrow> reap_process sg x ps p = ps p" "reap_process sg p ps p = Exited \<or> stuck sg p"
  by (auto simp: reap_process_def)

lemma terminate_all:
  "(p \<notin> set xs \<longrightarrow> fold (terminate sg) xs ps p = ps p) \<and> (ps p = Exited \<longrightarrow> fold (terminate sg) xs ps p = Exited)"
  by (induction xs arbitrary: ps) (simp_all add: terminate_one)

lemma reap_all:
  "(p \<in> set xs \<longrightarrow> fold (reap_process sg) xs ps p = Exited \<or> stuck sg p) \<and> (p \<notin> set xs \<longrightarrow> fold (reap_process sg) xs ps p = ps p)
   \<and> (ps p = Exited \<longrightarrow> fold (reap_process sg) xs ps p = Exited)"
proof (induction xs arbitrary: ps)
  case (Cons x xs)
  then show ?case using Cons.IH [of "reap_process sg x ps"] reap_one [where sg = sg and p = p and ps = ps] by auto
qed simp

lemma close_processes_ended: "ended sg (set xs) ps (close_processes sg xs ps)"
  using terminate_all [of _ xs sg ps] reap_all [of _ xs sg "fold (terminate sg) xs ps"] by (auto simp: ended_def close_processes_def)

lemma fold_close_ended: "ended sg (\<Union>x \<in> set xs. set (f x)) ps (fold (\<lambda>x. close_processes sg (f x)) xs ps)"
proof (induction xs arbitrary: ps)
  case (Cons x xs)
  show ?case using ended_trans [OF close_processes_ended [of sg "f x" ps] Cons.IH] by simp
qed (simp add: ended_def)

lemma fold_close_capsules:
  "fold (\<lambda>(_, c). close_capsule sg c) xs w = w\<lparr>procs := fold (\<lambda>x. close_processes sg (processes (snd x))) xs (procs w)\<rparr>"
  by (induction xs arbitrary: w) (auto simp: close_capsule_def case_prod_unfold)

section \<open>Pausing all or nothing\<close>

lemma signal_all_None:
  "signal_all err st xs ps = (None, sent, ps') \<Longrightarrow> ps' p = (if p \<in> set xs \<and> ps p \<noteq> Exited then st else ps p)"
  if "st \<noteq> Exited"
proof (induction xs arbitrary: ps sent)
  case (Cons x xs)
  then show ?case using that
    by (auto split: if_splits option.splits prod.splits)
qed simp

lemma signal_all_Some:
  "signal_all err st xs ps = (Some e, sent, ps') \<Longrightarrow>
     set sent \<subseteq> {p \<in> set xs. ps p \<noteq> Exited \<and> err p = None} \<and> (\<forall>p. ps' p = (if p \<in> set sent then st else ps p))"
  if "st \<noteq> Exited"
proof (induction xs arbitrary: ps sent)
  case (Cons x xs)
  show ?case
  proof (cases "ps x = Exited \<or> err x \<noteq> None")
    case True
    then show ?thesis using Cons by (fastforce split: if_splits option.splits)
  next
    case False
    then obtain s1 where s: "signal_all err st xs (ps(x := st)) = (Some e, s1, ps')" "sent = x # s1"
      using Cons.prems by (auto split: prod.splits)
    show ?thesis using Cons.IH [OF s(1)] s(2) False that by (auto split: if_splits)
  qed
qed simp

lemma undo_all_ok: "\<forall>p \<in> set xs. err p = None \<Longrightarrow> undo_all err st xs ps = (None, \<lambda>p. if p \<in> set xs then st else ps p)"
  by (induction xs arbitrary: ps) (auto simp: fun_eq_iff)

text \<open>Whether a process may be signalled does not depend on the signal.\<close>

definition signals_ok :: "signals \<Rightarrow> bool" where
  "signals_ok sg \<longleftrightarrow> (\<forall>p. (stop_error sg p = None) = (cont_error sg p = None))"

text \<open>The processes of a list are in one state, as far as they have not exited.\<close>

definition uniform :: "pstate \<Rightarrow> proc list \<Rightarrow> ptable \<Rightarrow> bool" where
  "uniform st xs ps \<longleftrightarrow> (\<forall>p \<in> set xs. ps p \<in> {Exited, st})"

lemma switch_processes_uniform:
  assumes "switch_processes err undo_err st back xs ps = (r, ps')" and "\<forall>p. (err p = None) = (undo_err p = None)"
    and "st \<noteq> Exited" and "uniform back xs ps"
  shows "uniform (if r = Inr () then st else back) xs ps' \<and> (\<forall>p. p \<notin> set xs \<longrightarrow> ps' p = ps p) \<and> (\<forall>p. ps' p = Exited \<longleftrightarrow> ps p = Exited)"
proof -
  obtain x sent ps1 where s: "signal_all err st xs ps = (x, sent, ps1)" by (cases "signal_all err st xs ps")
  show ?thesis
  proof (cases x)
    case None
    then have "r = Inr ()" "ps' = ps1" using assms(1) s by (simp_all add: switch_processes_def)
    then show ?thesis using signal_all_None [OF assms(3) s [unfolded None]] assms(3) by (auto simp: uniform_def)
  next
    case (Some e)
    note so = signal_all_Some [OF assms(3) s [unfolded Some]]
    have "undo_all undo_err back sent ps1 = (None, \<lambda>p. if p \<in> set sent then back else ps1 p)"
      by (rule undo_all_ok) (use so assms(2) in blast)
    then have r: "r = Inl e" "ps' = (\<lambda>p. if p \<in> set sent then back else ps1 p)" using assms(1) s Some by (simp_all add: switch_processes_def)
    have "ps' p = ps p" for p
      using so assms(4) r(2) unfolding uniform_def by (cases "p \<in> set sent") auto
    then show ?thesis using r(1) assms(4) by (simp add: uniform_def)
  qed
qed

section \<open>No process without a capsule\<close>

definition world_ok :: "signals \<Rightarrow> proc set \<Rightarrow> world \<Rightarrow> bool" where
  "world_ok sg S w \<longleftrightarrow>
     dict_ok (capsules w) \<and> (\<forall>p. p \<notin> S \<longrightarrow> procs w p = Exited)
     \<and> (\<forall>p \<in> S. procs w p = Exited \<or> stuck sg p \<or> (\<exists>t c. map_of (capsules w) t = Some c \<and> p \<in> set (processes c)))
     \<and> (\<forall>t c. map_of (capsules w) t = Some c \<longrightarrow>
          set (processes c) \<subseteq> S \<and> uniform (if paused c then Paused else Running) (processes c) (procs w) \<and> 30 \<le> ttl c \<and> ttl c \<le> 300)
     \<and> (\<forall>t c t' c'. map_of (capsules w) t = Some c \<longrightarrow> map_of (capsules w) t' = Some c' \<longrightarrow> t \<noteq> t' \<longrightarrow> set (processes c) \<inter> set (processes c') = {})"

lemma world_okI:
  assumes "capsules w = caps" and "procs w = ps" and "dict_ok caps" and "\<And>p. p \<notin> S \<Longrightarrow> ps p = Exited"
    and "\<And>p. p \<in> S \<Longrightarrow> ps p = Exited \<or> stuck sg p \<or> (\<exists>t c. map_of caps t = Some c \<and> p \<in> set (processes c))"
    and "\<And>t c. map_of caps t = Some c \<Longrightarrow>
          set (processes c) \<subseteq> S \<and> uniform (if paused c then Paused else Running) (processes c) ps \<and> 30 \<le> ttl c \<and> ttl c \<le> 300"
    and "\<And>t c t' c'. map_of caps t = Some c \<Longrightarrow> map_of caps t' = Some c' \<Longrightarrow> t \<noteq> t' \<Longrightarrow> set (processes c) \<inter> set (processes c') = {}"
  shows "world_ok sg S w"
  unfolding world_ok_def assms(1,2) using assms(3-) by blast

lemma world_uniform: "world_ok sg S w \<Longrightarrow> map_of (capsules w) t = Some c \<Longrightarrow> uniform (if paused c then Paused else Running) (processes c) (procs w)"
  unfolding world_ok_def by blast

lemma world_capsule: "world_ok sg S w \<Longrightarrow> map_of (capsules w) t = Some c \<Longrightarrow> set (processes c) \<subseteq> S \<and> 30 \<le> ttl c \<and> ttl c \<le> 300"
  unfolding world_ok_def by blast

lemma world_started:
  "world_ok sg S w \<Longrightarrow> p \<in> S \<Longrightarrow> procs w p = Exited \<or> stuck sg p \<or> (\<exists>t c. map_of (capsules w) t = Some c \<and> p \<in> set (processes c))"
  unfolding world_ok_def by blast

lemma world_disjoint:
  "world_ok sg S w \<Longrightarrow> map_of (capsules w) t = Some c \<Longrightarrow> map_of (capsules w) t' = Some c' \<Longrightarrow> t \<noteq> t' \<Longrightarrow> set (processes c) \<inter> set (processes c') = {}"
  unfolding world_ok_def by blast

lemma drop_capsules:
  assumes "world_ok sg S w" and "dict_ok caps" and "\<And>t. map_of caps t = (if t \<in> D then None else map_of (capsules w) t)"
    and "ended sg X (procs w) ps" and "X = \<Union> {set (processes c) | t c. t \<in> D \<and> map_of (capsules w) t = Some c}"
  shows "world_ok sg S (w\<lparr>capsules := caps, procs := ps\<rparr>)"
proof -
  have sub: "map_of (capsules w) t = Some c" "t \<notin> D" if "map_of caps t = Some c" for t c
    using assms(3) [of t] that by (simp_all split: if_splits)
  have other: "p \<notin> X" if "map_of caps t = Some c" "p \<in> set (processes c)" for t c p
  proof
    assume "p \<in> X"
    then obtain t' c' where "t' \<in> D" "map_of (capsules w) t' = Some c'" "p \<in> set (processes c')" unfolding assms(5) by blast
    then show False using world_disjoint [OF assms(1) sub(1) [OF that(1)], of t' c'] sub(2) [OF that(1)] that(2) by blast
  qed
  have same: "ps p = procs w p" if "p \<notin> X" for p using assms(4) that by (simp add: ended_def)
  show ?thesis
  proof (rule world_okI [where caps = caps and ps = ps])
    show "ps p = Exited \<or> stuck sg p \<or> (\<exists>t c. map_of caps t = Some c \<and> p \<in> set (processes c))" if "p \<in> S" for p
    proof (cases "p \<in> X")
      case True
      then show ?thesis using assms(4) unfolding ended_def by blast
    next
      case False
      consider "procs w p = Exited" | "stuck sg p" | t c where "map_of (capsules w) t = Some c" "p \<in> set (processes c)"
        using world_started [OF assms(1) \<open>p \<in> S\<close>] by blast
      then show ?thesis
      proof cases
        case (3 t c)
        then have "t \<notin> D" using False unfolding assms(5) by blast
        then have "map_of caps t = Some c" using assms(3) [of t] 3(1) by simp
        then show ?thesis using 3(2) by blast
      qed (simp_all add: same [OF False])
    qed
    show "set (processes c) \<subseteq> S \<and> uniform (if paused c then Paused else Running) (processes c) ps \<and> 30 \<le> ttl c \<and> ttl c \<le> 300"
      if "map_of caps t = Some c" for t c
    proof -
      have "uniform (if paused c then Paused else Running) (processes c) ps"
        using world_uniform [OF assms(1) sub(1) [OF that]] same other [OF that] by (simp add: uniform_def)
      then show ?thesis using world_capsule [OF assms(1) sub(1) [OF that]] by blast
    qed
    show "ps p = Exited" if "p \<notin> S" for p using assms(1,4) that by (simp add: ended_def world_ok_def)
    show "set (processes c) \<inter> set (processes c') = {}" if "map_of caps t = Some c" "map_of caps t' = Some c'" "t \<noteq> t'" for t c t' c'
      by (rule world_disjoint [OF assms(1) sub(1) [OF that(1)] sub(1) [OF that(2)] that(3)])
  qed (use assms(2) in simp_all)
qed

lemma drop_one:
  assumes "world_ok sg S w" and "map_of (capsules w) t = Some c"
  shows "world_ok sg S (close_capsule sg c (w\<lparr>capsules := ddel t (capsules w)\<rparr>))"
proof -
  have "world_ok sg S (w\<lparr>capsules := ddel t (capsules w), procs := close_processes sg (processes c) (procs w)\<rparr>)"
    by (rule drop_capsules [OF assms(1) _ _ close_processes_ended, where D = "{t}"])
       (use assms in \<open>auto simp: world_ok_def map_of_ddel\<close>)
  then show ?thesis by (simp add: close_capsule_def)
qed

lemma reap_expired_ok:
  assumes "world_ok sg S w"
  shows "world_ok sg S (snd (reap_expired sg now w))"
proof -
  let ?dead = "filter (\<lambda>(_, c). expired now c) (capsules w)" and ?rest = "filter (\<lambda>(_, c). \<not> expired now c) (capsules w)"
  let ?D = "{t. \<exists>c. map_of (capsules w) t = Some c \<and> expired now c}"
  have d: "dict_ok (capsules w)" using assms by (simp add: world_ok_def)
  have "world_ok sg S (w\<lparr>capsules := ?rest, procs := fold (\<lambda>x. close_processes sg (processes (snd x))) ?dead (procs w)\<rparr>)"
  proof (rule drop_capsules [OF assms dict_ok_filter [OF d] _ fold_close_ended, where D = ?D])
    show "map_of ?rest t = (if t \<in> ?D then None else map_of (capsules w) t)" for t
      using map_of_filter_value [OF d, of "\<lambda>c. \<not> expired now c" t] by (auto split: option.splits)
    have "map_of (capsules w) t = Some c \<longleftrightarrow> (t, c) \<in> set (capsules w)" for t c
      using d by (simp add: dict_ok_def)
    then show "(\<Union>x \<in> set ?dead. set (processes (snd x))) = \<Union> {set (processes c) | t c. t \<in> ?D \<and> map_of (capsules w) t = Some c}"
      by fastforce
  qed
  then show ?thesis by (simp add: reap_expired_def Let_def fold_close_capsules)
qed

lemma get_ok:
  assumes "world_ok sg S w" and "get sg now token w = (r, w')"
  shows "world_ok sg S w'" and "r = Inr c \<Longrightarrow> w' = w \<and> map_of (capsules w) token = Some c"
  using assms drop_one [OF assms(1)] by (auto simp: get_def split: option.splits if_splits)

lemma status_ok: "world_ok sg S w \<Longrightarrow> status sg now token w = (r, w') \<Longrightarrow> world_ok sg S w'"
  by (auto simp: status_def split: prod.splits sum.splits dest: get_ok(1))

lemma switch_ok:
  assumes "world_ok sg S w" and "map_of (capsules w) token = Some c" and "signals_ok sg"
    and "switch_processes err undo_err st back (processes c) (procs w) = (r, ps)"
    and "(err, undo_err, st, back) = (if b then (stop_error sg, cont_error sg, Paused, Running) else (cont_error sg, stop_error sg, Running, Paused))"
    and "paused c = (\<not> b)"
  shows "r = Inl e \<Longrightarrow> world_ok sg S (w\<lparr>procs := ps\<rparr>)"
    and "r = Inr () \<Longrightarrow> world_ok sg S (w\<lparr>procs := ps, capsules := dset token (c\<lparr>paused := b\<rparr>) (capsules w)\<rparr>)"
proof -
  have errs: "\<forall>p. (err p = None) = (undo_err p = None)" "st \<noteq> Exited" "st = (if b then Paused else Running)" "back = (if b then Running else Paused)"
    using assms(3,5) by (auto simp: signals_ok_def split: if_splits)
  have u: "uniform back (processes c) (procs w)" using world_uniform [OF assms(1,2)] assms(6) errs(4) by (simp split: if_splits)
  note s = switch_processes_uniform [OF assms(4) errs(1,2) u]
  have keep: "uniform (if paused c' then Paused else Running) (processes c') ps" if "map_of (capsules w) t = Some c'" "t \<noteq> token" for t c'
  proof -
    have "ps p = procs w p" if "p \<in> set (processes c')" for p
      using s world_disjoint [OF assms(1) \<open>map_of (capsules w) t = Some c'\<close> assms(2) \<open>t \<noteq> token\<close>] that by blast
    then show ?thesis using world_uniform [OF assms(1) that(1)] by (simp add: uniform_def)
  qed
  have unused: "ps p = Exited" if "p \<notin> S" for p using assms(1) s that by (simp add: world_ok_def)
  have kept: "ps p = Exited \<or> stuck sg p \<or> (\<exists>t c'. map_of (capsules w) t = Some c' \<and> p \<in> set (processes c'))" if "p \<in> S" for p
    using world_started [OF assms(1) that] s by blast
  show "world_ok sg S (w\<lparr>procs := ps\<rparr>)" if "r = Inl e"
  proof (rule world_okI [where caps = "capsules w" and ps = ps])
    show "set (processes c') \<subseteq> S \<and> uniform (if paused c' then Paused else Running) (processes c') ps \<and> 30 \<le> ttl c' \<and> ttl c' \<le> 300"
      if m: "map_of (capsules w) t = Some c'" for t c'
    proof -
      have "uniform (if paused c then Paused else Running) (processes c) ps" using s \<open>r = Inl e\<close> assms(6) errs(4) by auto
      then have "uniform (if paused c' then Paused else Running) (processes c') ps"
        using keep [OF m] m assms(2) by (cases "t = token") simp_all
      then show ?thesis using world_capsule [OF assms(1) m] by blast
    qed
  qed (use assms(1) unused kept world_disjoint [OF assms(1)] in \<open>simp_all add: world_ok_def\<close>)
  let ?c = "c\<lparr>paused := b\<rparr>"
  let ?caps = "dset token ?c (capsules w)"
  have prev: "\<exists>d. map_of (capsules w) t = Some d \<and> processes d = processes c' \<and> ttl d = ttl c'" if "map_of ?caps t = Some c'" for t c'
    using that assms(2) by (auto simp: map_of_dset split: if_splits)
  have forth: "\<exists>c'. map_of ?caps t = Some c' \<and> processes c' = processes d" if "map_of (capsules w) t = Some d" for t d
    using that assms(2) by (auto simp: map_of_dset)
  show "world_ok sg S (w\<lparr>procs := ps, capsules := ?caps\<rparr>)" if "r = Inr ()"
  proof (rule world_okI [where caps = ?caps and ps = ps])
    show "dict_ok ?caps" using assms(1) by (simp add: world_ok_def)
    show "ps p = Exited \<or> stuck sg p \<or> (\<exists>t c'. map_of ?caps t = Some c' \<and> p \<in> set (processes c'))" if "p \<in> S" for p
      using kept [OF that] forth by metis
    show "set (processes c') \<subseteq> S \<and> uniform (if paused c' then Paused else Running) (processes c') ps \<and> 30 \<le> ttl c' \<and> ttl c' \<le> 300"
      if m: "map_of ?caps t = Some c'" for t c'
    proof -
      have "uniform (if b then Paused else Running) (processes c) ps" using s \<open>r = Inr ()\<close> errs(3) by simp
      then have "uniform (if paused c' then Paused else Running) (processes c') ps"
        using keep [of t c'] m by (cases "t = token") (auto simp: map_of_dset)
      moreover obtain d where "map_of (capsules w) t = Some d" "processes d = processes c'" "ttl d = ttl c'" using prev [OF m] by blast
      ultimately show ?thesis using world_capsule [OF assms(1), of t d] by simp
    qed
    show "set (processes x) \<inter> set (processes y) = {}" if "map_of ?caps t = Some x" "map_of ?caps t' = Some y" "t \<noteq> t'" for t x t' y
      using prev [OF that(1)] prev [OF that(2)] world_disjoint [OF assms(1) _ _ that(3)] by metis
  qed (use unused in simp_all)
qed

lemma pause_ok:
  assumes "world_ok sg S w" and "signals_ok sg" and "pause sg now now' token w = (r, w')"
  shows "world_ok sg S w'"
proof -
  obtain rg w1 where g: "get sg now token w = (rg, w1)" by (cases "get sg now token w")
  show ?thesis
  proof (cases rg)
    case (Inl e)
    then show ?thesis using assms(3) g get_ok(1) [OF assms(1) g] by (simp add: pause_def)
  next
    case (Inr c)
    have c: "w1 = w" "map_of (capsules w) token = Some c" using get_ok(2) [OF assms(1) g Inr] by auto
    obtain rp ps where sw: "switch_processes (stop_error sg) (cont_error sg) Paused Running (processes c) (procs w) = (rp, ps)"
      by (cases "switch_processes (stop_error sg) (cont_error sg) Paused Running (processes c) (procs w)")
    show ?thesis
    proof (cases "paused c")
      case True
      then show ?thesis using assms(1,3) g Inr c by (auto simp: pause_def dest: status_ok)
    next
      case False
      note k = switch_ok [where b = True, OF assms(1) c(2) assms(2) sw]
      show ?thesis using assms(3) g Inr c sw False k by (cases rp) (auto simp: pause_def dest: status_ok)
    qed
  qed
qed

lemma resume_ok:
  assumes "world_ok sg S w" and "signals_ok sg" and "resume sg now now' token w = (r, w')"
  shows "world_ok sg S w'"
proof -
  obtain rg w1 where g: "get sg now token w = (rg, w1)" by (cases "get sg now token w")
  show ?thesis
  proof (cases rg)
    case (Inl e)
    then show ?thesis using assms(3) g get_ok(1) [OF assms(1) g] by (simp add: resume_def)
  next
    case (Inr c)
    have c: "w1 = w" "map_of (capsules w) token = Some c" using get_ok(2) [OF assms(1) g Inr] by auto
    obtain rp ps where sw: "switch_processes (cont_error sg) (stop_error sg) Running Paused (processes c) (procs w) = (rp, ps)"
      by (cases "switch_processes (cont_error sg) (stop_error sg) Running Paused (processes c) (procs w)")
    show ?thesis
    proof (cases "paused c")
      case False
      then show ?thesis using assms(1,3) g Inr c by (auto simp: resume_def dest: status_ok)
    next
      case True
      note k = switch_ok [where b = False, OF assms(1) c(2) assms(2) sw]
      show ?thesis using assms(3) g Inr c sw True k by (cases rp) (auto simp: resume_def dest: status_ok)
    qed
  qed
qed

lemma stop_ok:
  assumes "world_ok sg S w" and "stop sg now token w = (r, w')"
  shows "world_ok sg S w'"
proof -
  obtain rg w1 where g: "get sg now token w = (rg, w1)" by (cases "get sg now token w")
  show ?thesis
    using assms(2) g get_ok [OF assms(1) g] drop_one [OF assms(1)] by (cases rg) (auto simp: stop_def)
qed

lemma abort_ended: "ended sg (set xs) (procs w) (procs (abort sg xs w))" and abort_capsules: "capsules (abort sg xs w) = capsules w"
  using fold_close_ended [of sg "\<lambda>p. [p]" xs "procs w"] by (simp_all add: abort_def)

lemma start_processes_effect:
  assumes "start_processes nfc sg v a boundary protocol host w = (r, w')" and "new_processes v S" and "\<forall>p. p \<notin> S \<longrightarrow> procs w p = Exited"
  shows "capsules w' = capsules w"
    and "r = Inl e \<Longrightarrow> (\<forall>p \<in> spawned v. procs w' p = Exited \<or> stuck sg p) \<and> (\<forall>p. p \<notin> spawned v \<longrightarrow> procs w' p = procs w p)"
    and "r = Inr (xs, ep) \<Longrightarrow> set xs \<subseteq> spawned v \<and> procs w' = (\<lambda>p. if p \<in> set xs then Running else procs w p)"
proof -
  have n: "p \<in> spawned v \<Longrightarrow> procs w p = Exited" for p using assms(2,3) by (auto simp: spawned_def new_processes_def)
  have ab: "(\<forall>p \<in> spawned v. procs (abort sg xs u) p = Exited \<or> stuck sg p) \<and> (\<forall>p. p \<notin> spawned v \<longrightarrow> procs (abort sg xs u) p = procs w p)"
    if "set xs \<subseteq> spawned v" "\<And>p. p \<notin> set xs \<Longrightarrow> procs u p = procs w p" for xs u
    using abort_ended [of sg xs u] that n by (auto simp: ended_def)
  show "capsules w' = capsules w"
    using assms(1) by (auto simp: start_processes_def Let_def spawn_def abort_capsules split: sum.splits if_splits)
  show "(\<forall>p \<in> spawned v. procs w' p = Exited \<or> stuck sg p) \<and> (\<forall>p. p \<notin> spawned v \<longrightarrow> procs w' p = procs w p)" if il: "r = Inl e"
  proof -
    consider "w' = w" | p where "sv_core v = Inr p" "w' = abort sg [p] (spawn p w)"
      | p q where "sv_core v = Inr p" "sv_proxy_process v = Inr q" "w' = abort sg [q, p] (spawn q (spawn p w))"
      using assms(1) il unfolding start_processes_def Let_def by (auto split: sum.splits if_splits)
    then show ?thesis
    proof cases
      case 1
      then show ?thesis using n by auto
    next
      case (2 p)
      then show ?thesis using ab [of "[p]" "spawn p w"] by (auto simp: spawned_def spawn_def)
    next
      case (3 p q)
      then show ?thesis using ab [of "[q, p]" "spawn q (spawn p w)"] by (auto simp: spawned_def spawn_def)
    qed
  qed
  show "set xs \<subseteq> spawned v \<and> procs w' = (\<lambda>p. if p \<in> set xs then Running else procs w p)" if "r = Inr (xs, ep)"
    using assms(1) that by (auto simp: start_processes_def Let_def spawn_def spawned_def fun_eq_iff split: sum.splits if_splits)
qed

lemma check_start_ttl: "check_start nfc euid v a = Inr x \<Longrightarrow> 30 \<le> sa_ttl a \<and> sa_ttl a \<le> 300"
  unfolding check_start_def Let_def by (auto split: option.splits)

lemma start_ok:
  assumes "world_ok sg S w" and "start nfc sg euid v a w = (r, w')" and "new_processes v S" and "map_of (capsules w) (sv_token v) = None"
  shows "world_ok sg (S \<union> spawned v) w'"
proof -
  have unused: "\<forall>p. p \<notin> S \<longrightarrow> procs w p = Exited" using assms(1) by (simp add: world_ok_def)
  have sp: "p \<in> spawned v \<Longrightarrow> p \<notin> S" for p using assms(3) by (auto simp: spawned_def new_processes_def)
  have mine: "set (processes c) \<inter> spawned v = {}" if "map_of (capsules w) t = Some c" for t c
    using assms(1) that sp unfolding world_ok_def by blast
  have old: "uniform (if paused c then Paused else Running) (processes c) ps"
    if "map_of (capsules w) t = Some c" "\<And>p. p \<notin> spawned v \<Longrightarrow> ps p = procs w p" for t c ps
  proof -
    have "ps p = procs w p" if "p \<in> set (processes c)" for p using mine [OF \<open>map_of (capsules w) t = Some c\<close>] that \<open>\<And>p. p \<notin> spawned v \<Longrightarrow> ps p = procs w p\<close> by blast
    then show ?thesis using world_uniform [OF assms(1) that(1)] by (simp add: uniform_def)
  qed
  show ?thesis
  proof (cases "check_start nfc euid v a")
    case (Inl e)
    then have "w' = w" using assms(2) by (simp add: start_def)
    then show ?thesis using assms(1) unused sp unfolding world_ok_def by blast
  next
    case (Inr x)
    obtain boundary protocol host where x: "x = (boundary, protocol, host)" by (cases x)
    obtain rp w1 where s: "start_processes nfc sg v a boundary protocol host w = (rp, w1)" by (cases "start_processes nfc sg v a boundary protocol host w")
    note e = start_processes_effect [OF s assms(3) unused]
    show ?thesis
    proof (cases rp)
      case il: (Inl ex)
      have "w' = w1" using assms(2) Inr x s il by (simp add: start_def)
      moreover have "world_ok sg (S \<union> spawned v) w1"
      proof (rule world_okI [OF refl refl])
        show "procs w1 p = Exited" if "p \<notin> S \<union> spawned v" for p using that unused e(2) [OF il] by auto
        show "procs w1 p = Exited \<or> stuck sg p \<or> (\<exists>t c. map_of (capsules w1) t = Some c \<and> p \<in> set (processes c))" if "p \<in> S \<union> spawned v" for p
          using that e(1) e(2) [OF il] world_started [OF assms(1), of p] by (cases "p \<in> spawned v") auto
        show "set (processes c) \<subseteq> S \<union> spawned v \<and> uniform (if paused c then Paused else Running) (processes c) (procs w1) \<and> 30 \<le> ttl c \<and> ttl c \<le> 300"
          if "map_of (capsules w1) t = Some c" for t c
        proof -
          have m: "map_of (capsules w) t = Some c" using that e(1) by simp
          have "uniform (if paused c then Paused else Running) (processes c) (procs w1)" by (rule old [OF m]) (use e(2) [OF il] in blast)
          then show ?thesis using world_capsule [OF assms(1) m] by blast
        qed
        show "dict_ok (capsules w1)" using assms(1) e(1) by (simp add: world_ok_def)
        show "set (processes c) \<inter> set (processes c') = {}" if "map_of (capsules w1) t = Some c" "map_of (capsules w1) t' = Some c'" "t \<noteq> t'" for t c t' c'
          using world_disjoint [OF assms(1)] that e(1) by simp
      qed
      ultimately show ?thesis by simp
    next
      case ir: (Inr y)
      obtain xs ep where y: "y = (xs, ep)" by (cases y)
      note f = e(3) [OF ir [unfolded y]]
      let ?c = "\<lparr>c_core = sa_core a, processes = xs, created = sv_created v, ttl = sa_ttl a, c_mode = the_str (fld boundary ''mode''), c_endpoint = ep, paused = False\<rparr>"
      have w': "w' = w1\<lparr>capsules := dset (sv_token v) ?c (capsules w1)\<rparr>" using assms(2) Inr x s ir y by (simp add: start_def Let_def)
      have "uniform Running xs (procs w1)" using f by (simp add: uniform_def)
      moreover have "procs w1 p = procs w p" if "p \<notin> spawned v" for p using f that by auto
      ultimately have u: "uniform (if paused c then Paused else Running) (processes c) (procs w1)"
        if "map_of (dset (sv_token v) ?c (capsules w)) t = Some c" for t c
        using old [of t c "procs w1"] that by (auto simp: map_of_dset split: if_splits)
      have dis: "set xs \<inter> set (processes c) = {}" if "map_of (capsules w) t = Some c" for t c using mine [OF that] f by auto
      have old_in: "\<exists>t c. map_of (dset (sv_token v) ?c (capsules w)) t = Some c \<and> p \<in> set (processes c)"
        if "map_of (capsules w) t = Some c" "p \<in> set (processes c)" for p t c
        using that assms(4) by (intro exI [of _ t] exI [of _ c]) (auto simp: map_of_dset)
      have new_in: "\<exists>t c. map_of (dset (sv_token v) ?c (capsules w)) t = Some c \<and> p \<in> set (processes c)" if "p \<in> set xs" for p
        using that by (intro exI [of _ "sv_token v"] exI [of _ ?c]) (auto simp: map_of_dset)
      show ?thesis
        unfolding w' e(1)
      proof (rule world_okI [where caps = "dset (sv_token v) ?c (capsules w)" and ps = "procs w1"])
        show "dict_ok (dset (sv_token v) ?c (capsules w))" using assms(1) by (simp add: world_ok_def)
        show "procs w1 p = Exited" if "p \<notin> S \<union> spawned v" for p using that unused f by auto
        show "procs w1 p = Exited \<or> stuck sg p \<or> (\<exists>t c. map_of (dset (sv_token v) ?c (capsules w)) t = Some c \<and> p \<in> set (processes c))"
          if "p \<in> S \<union> spawned v" for p
        proof (cases "p \<in> set xs")
          case False
          then have "procs w1 p = procs w p" using f by simp
          then show ?thesis using world_started [OF assms(1), of p] old_in [of _ _ p] unused by (cases "p \<in> S") (simp_all, blast)
        qed (use new_in in blast)
        show "set (processes c) \<subseteq> S \<union> spawned v \<and> uniform (if paused c then Paused else Running) (processes c) (procs w1) \<and> 30 \<le> ttl c \<and> ttl c \<le> 300"
          if "map_of (dset (sv_token v) ?c (capsules w)) t = Some c" for t c
        proof -
          have "set (processes c) \<subseteq> S \<union> spawned v \<and> 30 \<le> ttl c \<and> ttl c \<le> 300"
            using that f check_start_ttl [OF Inr] world_capsule [OF assms(1), of t c] by (auto simp: map_of_dset split: if_splits)
          then show ?thesis using u [OF that] by blast
        qed
        show "set (processes c) \<inter> set (processes c') = {}"
          if "map_of (dset (sv_token v) ?c (capsules w)) t = Some c" "map_of (dset (sv_token v) ?c (capsules w)) t' = Some c'" "t \<noteq> t'" for t c t' c'
          using that dis [of t c] dis [of t' c'] world_disjoint [OF assms(1), of t c t' c'] by (auto simp: map_of_dset split: if_splits)
      qed simp_all
    qed
  qed
qed

lemma ends_ok:
  assumes "world_ok sg S w"
  shows "world_ok sg S (w\<lparr>procs := (procs w)(p := Exited)\<rparr>)"
proof (rule world_okI [where caps = "capsules w" and ps = "(procs w)(p := Exited)"])
  show "set (processes c) \<subseteq> S \<and> uniform (if paused c then Paused else Running) (processes c) ((procs w)(p := Exited)) \<and> 30 \<le> ttl c \<and> ttl c \<le> 300"
    if "map_of (capsules w) t = Some c" for t c
    using world_capsule [OF assms that] world_uniform [OF assms that] by (cases "paused c") (simp_all add: uniform_def)
  show "((procs w)(p := Exited)) q = Exited \<or> stuck sg q \<or> (\<exists>t c. map_of (capsules w) t = Some c \<and> q \<in> set (processes c))" if "q \<in> S" for q
    using world_started [OF assms that] by simp
qed (use assms world_disjoint [OF assms] in \<open>simp_all add: world_ok_def\<close>)

lemma list_ok: "world_ok sg S w \<Longrightarrow> list_capsules sg now w = (r, w') \<Longrightarrow> world_ok sg S w'"
  using reap_expired_ok [of sg S w now] by (simp add: list_capsules_def Let_def)

lemma capsule_step_ok:
  assumes "capsule_step nfc sg euid h h'" and "signals_ok sg" and "world_ok sg (started h) (h_world h)"
  shows "world_ok sg (started h') (h_world h')"
  using assms(1)
proof (cases rule: capsule_step.cases)
  case (start_call v a r w)
  then show ?thesis using start_ok [OF assms(3) start_call(2,3,4)] by simp
next
  case (status_call now token rs w)
  then show ?thesis using status_ok [OF assms(3) status_call(2)] by simp
next
  case (list_call now rl w)
  then show ?thesis using list_ok [OF assms(3) list_call(2)] by simp
next
  case (pause_call now now' token rs w)
  then show ?thesis using pause_ok [OF assms(3,2) pause_call(2)] by simp
next
  case (resume_call now now' token rs w)
  then show ?thesis using resume_ok [OF assms(3,2) resume_call(2)] by simp
next
  case (stop_call now token ru w)
  then show ?thesis using stop_ok [OF assms(3) stop_call(2)] by simp
next
  case (reaper now n w)
  then show ?thesis using reap_expired_ok [OF assms(3), of now] by simp
next
  case (ends p)
  then show ?thesis using ends_ok [OF assms(3), of p] by simp
qed

text \<open>Without a capsule and without a process the table is in order.\<close>

lemma no_capsules_ok: "world_ok sg {} \<lparr>capsules = [], procs = \<lambda>_. Exited\<rparr>"
  by (simp add: world_ok_def)


text \<open>A capsule with two processes of which the second cannot be signalled, the attempt to pause it, and its stop.\<close>

definition example_signals :: signals where
  "example_signals = \<lparr>obeys = \<lambda>p. p \<noteq> 2, stuck = \<lambda>_. False,
     stop_error = \<lambda>p. if p = 2 then Some (OSError ''denied'') else None, cont_error = \<lambda>p. if p = 2 then Some (OSError ''denied'') else None\<rparr>"

definition example_capsule :: capsule where
  "example_capsule = \<lparr>c_core = asc ''core'', processes = [1, 2], created = 0, ttl = 60, c_mode = asc ''tcp'', c_endpoint = None, paused = False\<rparr>"

definition example_history :: "(ustr \<times> capsule) list \<Rightarrow> proc set \<Rightarrow> history" where
  "example_history caps live = \<lparr>h_world = \<lparr>capsules = caps, procs = \<lambda>p. if p \<in> live then Running else Exited\<rparr>, started = {1, 2}\<rparr>"

lemmas example_simps = example_signals_def example_capsule_def example_history_def


end
