(* ===== verification/Spec2Isabelle.thy ===== *)
theory Spec2Isabelle
  imports S6_Network S6_Limits S6_Protocols S6_Invite S6_Slots S6_Sessions S6_Capsule
begin

text \<open>
  A verification library for the Python part of Shadow6.

  \<^bold>\<open>The program.\<close> Shadow6 runs network Cores, programs in twelve languages, and surrounds them with
  Python services: a reliable datagram adapter, private storage of state, the limits of resources,
  signed application protocols, a public broker with its peers and invitations, signed plugins with
  their slots, application sessions and capability capsules. The parts meet at documents: one side
  writes canonical JSON, signs or seals it, the other reads it with a strict reader and checks it.
  The theories follow these parts; paths are relative to \<^verbatim>\<open>src/\<close>.

  \<^bold>\<open>The conventions.\<close> A Python exception is a value of \<^typ>\<open>exn\<close>, and code that may raise gives
  \<^typ>\<open>'a res\<close>. Code with state takes the state and gives its result with the state it leaves, also
  when it raises. Text is a list of code points, bytes are \<^typ>\<open>8 word list\<close>, a \<^verbatim>\<open>dict\<close> is an
  association list in the order of insertion, integers are unbounded as in Python, and times are
  rationals. What is not in the sources is a parameter: the ciphers and signatures of
  \<^verbatim>\<open>cryptography\<close>, Unicode normalisation, \<^verbatim>\<open>float\<close>, address parsing, child processes, and the answers
  of the operating system, which a call receives as a record or a list. The theorems name what they need of a
  parameter, and their witnesses instantiate it with a concrete function. Operations under a lock
  are single steps; their interleavings are sequences of steps.

  \<^bold>\<open>Foundations.\<close>
  \<^item> \<^verbatim>\<open>S6_Prelude\<close>: exceptions, bytes, UTF-8, big-endian fields, numerals, dictionaries.
  \<^item> \<^verbatim>\<open>S6_Json\<close>: \<^verbatim>\<open>json.dumps\<close> and \<^verbatim>\<open>json.loads\<close>. The parser has fuel, the length of the text; the
    fuel is shown to be enough, and canonical text reads back as its value.
  \<^item> \<^verbatim>\<open>S6_Digest\<close>, \<^verbatim>\<open>S6_Crypto\<close>: SHA-256 and HMAC as programs, signatures as a parameter.
  \<^item> \<^verbatim>\<open>S6_Python\<close>: access to decoded documents, base64, default JSON hooks.
  \<^item> \<^verbatim>\<open>S6_Plain\<close>: plain ASCII documents pass the strict reader; shows that what one part writes the other accepts.
  \<^item> \<^verbatim>\<open>S6_Replay\<close>: the locale \<open>replay_guard\<close>, the contract of a table that accepts a key once,
    interpreted for the replay window of the application layer and the nonce table of the broker.

  \<^bold>\<open>Private storage\<close> (\<^verbatim>\<open>Deployment/service_storage.py\<close>). \<^verbatim>\<open>S6_Storage\<close> has the strict reader
  \<^verbatim>\<open>strict_json\<close>: it gives back canonical documents, gives only bounded documents without repeated
  keys and raises nothing but a value error. \<^verbatim>\<open>S6_Files\<close> has \<^verbatim>\<open>private_read\<close>, \<^verbatim>\<open>private_directory\<close>,
  \<^verbatim>\<open>atomic_write\<close> and the guarded reads of other modules. The locale \<open>guarded_read\<close> is their common
  contract. A read gives the whole content of an unchanged file that the owner alone can use, and
  an interrupted replacement leaves the old or the new content.

  \<^bold>\<open>Network adapter\<close> (\<^verbatim>\<open>Network-Adapter/shadow6_network.py\<close>). \<^verbatim>\<open>S6_Codec\<close> has \<^verbatim>\<open>Limits\<close>, the policies,
  \<^verbatim>\<open>_portable\<close> and \<^verbatim>\<open>Codec\<close> with the locale \<open>wire_codec\<close>; \<^verbatim>\<open>S6_Adapter\<close> has \<^verbatim>\<open>ReliableAdapter\<close> and
  \<^verbatim>\<open>DatagramEndpoint.poll\<close>. \<^verbatim>\<open>S6_Sender\<close> and \<^verbatim>\<open>S6_Receiver\<close> prove the invariants of the two sides, \<^verbatim>\<open>S6_Flow\<close>
  the accounting of credit, \<^verbatim>\<open>S6_Link\<close> and \<^verbatim>\<open>S6_Channel\<close> compose two adapters over a network that loses, repeats,
  reorders and injects, \<^verbatim>\<open>S6_Demo\<close> has a concrete pair, and \<^verbatim>\<open>S6_Network\<close> states the properties: only sent
  messages are delivered, each once within the window of 4096, chunks in any order give the message,
  memory is bounded, \<^verbatim>\<open>outbound\<close> makes progress, frames are decoded as encoded, errors are the documented ones.

  \<^bold>\<open>Limits\<close> (\<^verbatim>\<open>Crosed/limits.py\<close>). \<^verbatim>\<open>S6_Limits\<close> has \<^verbatim>\<open>HostBudget\<close> with its capture from cgroups and
  system limits, the policy, \<^verbatim>\<open>LimitResolver\<close> and the plan of components. Resolved limits stay
  below declared, policy and host bounds, a resolution validates and one that validates is the recomputed one, and plans fit the budget.

  \<^bold>\<open>Application protocols\<close> (\<^verbatim>\<open>Application-Layer/shadow_protocols.py\<close>). \<^verbatim>\<open>S6_Protocols\<close> has canonical documents,
  frames, identity assertions, the replay window and encrypted chat: what is accepted was signed by the
  sender, is fresh and is accepted once; what a sender makes is delivered.

  \<^bold>\<open>Broker and peer\<close> (\<^verbatim>\<open>Public6/virtual_broker.py\<close>, \<^verbatim>\<open>Public6/virtual_peer.py\<close>). \<^verbatim>\<open>S6_Broker\<close> has the
  configuration, admission, the nonce table, the token bucket and the counters of connections as
  steps of the event loop; \<^verbatim>\<open>S6_Peer\<close> has the peer and the composition of both: admissions are signed,
  unrevoked and never replayed, quotas and rates hold, and a peer reaches the Core of its tenant.

  \<^bold>\<open>Invitations\<close> (\<^verbatim>\<open>Public6/join_code.py\<close>). \<^verbatim>\<open>S6_JoinCode\<close> has tokens, envelopes, credentials, join codes
  and provisioning, with the round trips; \<^verbatim>\<open>S6_Invite\<close> shows that an accepted envelope carries
  credentials of the trusted issuer within its scope, and that an invited peer is enrolled.

  \<^bold>\<open>Plugins and slots\<close> (\<^verbatim>\<open>Plugin-System/shadow6_plugins.py\<close>, \<^verbatim>\<open>Slot-System/shadow6_slots.py\<close>).
  \<^verbatim>\<open>S6_Plugins\<close>: a hook runs only code with a trusted signature and a granted capability, and the
  requests of an RPC session are numbered in order. \<^verbatim>\<open>S6_Slots\<close>: a slot calls its verified
  bindings in its mode, and an allow slot allows only when every provider does.

  \<^bold>\<open>Sessions\<close> (\<^verbatim>\<open>Deployment/session_handles.py\<close>, \<^verbatim>\<open>Deployment/connection_plan.py\<close>,
  \<^verbatim>\<open>libshadow6/credited_boundary.py\<close>). \<^verbatim>\<open>S6_Sessions\<close>: the table of handles refines a table of
  capabilities with bounded number, shrinking budgets and expiry, and opening a session returns.

  \<^bold>\<open>Capsules\<close> (\<^verbatim>\<open>Control-Center/capability_capsule.py\<close>). \<^verbatim>\<open>S6_Capsule\<close> has the registry, boundaries and
  readiness of Cores, and the table of capsules over a table of processes. No process
  is left without a capsule, and the processes of a capsule pause and run together.

  \<^bold>\<open>Not modelled.\<close> Sockets, threads, event loops and subprocesses themselves, command lines and
  terminal output; the native Cores (other languages), Android, build, packaging and
  installation tools, benchmarks, test laboratory and detectors, which measure or drive other programs; the
  foreign-runtime bridge \<^verbatim>\<open>Ziokt-Support\<close>; the service registry, service runtime, deployment
  drivers and the Control Center's tool server, whose behaviour is mostly that of the processes, databases
  and file trees they manage. The manifest lists them one by one.
\<close>

end
